(* ===== verification/Prelude.thy ===== *)
theory Prelude
  imports Main "HOL-Library.Word" "HOL-Library.AList"
begin

text \<open>
  What every theory of the development shares: the machine types, the faults a C++
  statement can end in, the sequencing of fallible statements, the operations of
  \<open>std::map\<close> and \<open>std::unordered_map\<close> that the sources use, the byte order of the
  host, and the two interfaces (\<open>codec\<close>, \<open>canonical_codec\<close>) whose laws the wire
  formats are proved to satisfy.
\<close>

unbundle bit_operations_syntax

named_theorems codec_simps \<open>evaluation of the wire formats\<close>
named_theorems frame_simps \<open>state components that an operation leaves alone\<close>

type_synonym byte = "8 word"
type_synonym u16 = "16 word"
type_synonym u32 = "32 word"
type_synonym u64 = "64 word"
type_synonym descr = int \<comment> \<open>a file descriptor\<close>

section \<open>Faults\<close>

text \<open>
  A statement that ends the process or leaves defined behaviour is a value of this type:
  a failed \<open>assert\<close>, a C++ exception nobody catches (\<open>std::out_of_range\<close> of \<open>at\<close>,
  \<open>std::logic_error\<close> of a string built from a null pointer), an access outside an
  array, the front of an empty container, a read of an uninitialised object. \<open>OutOfFuel\<close> is not a behaviour of the program:
  it says that a loop did not end within the rounds the caller of the model allowed.
\<close>

datatype fault =
    AssertFailure
  | OutOfRange
  | NullString
  | BufferOverrun
  | EmptyContainer
  | Uninitialised
  | OutOfFuel

definition chain :: "'e + 'a \<Rightarrow> ('a \<Rightarrow> 'e + 'b) \<Rightarrow> 'e + 'b" where
  "chain r f = (case r of Inl e \<Rightarrow> Inl e | Inr x \<Rightarrow> f x)"

lemma chain_Inl [simp]: "chain (Inl e) f = Inl e"
  by (simp add: chain_def)

lemma chain_Inr [simp]: "chain (Inr x) f = f x"
  by (simp add: chain_def)

lemma chain_eq_Inr: "chain r f = Inr y \<longleftrightarrow> (\<exists>x. r = Inr x \<and> f x = Inr y)"
  by (cases r) auto

lemma chain_eq_Inl: "chain r f = Inl e \<longleftrightarrow> r = Inl e \<or> (\<exists>x. r = Inr x \<and> f x = Inl e)"
  by (cases r) auto

section \<open>Associative containers\<close>

text \<open>
  \<open>std::map\<close> and \<open>std::unordered_map\<close> as partial functions. \<open>insert\<close> and
  \<open>emplace\<close> leave an existing entry alone; \<open>m[k]\<close> creates a default entry.
\<close>

definition map_emplace :: "'k \<Rightarrow> 'v \<Rightarrow> ('k \<rightharpoonup> 'v) \<Rightarrow> ('k \<rightharpoonup> 'v)" where
  "map_emplace k v m = (case m k of None \<Rightarrow> m(k \<mapsto> v) | Some _ \<Rightarrow> m)"

definition map_index :: "'v \<Rightarrow> 'k \<Rightarrow> ('k \<rightharpoonup> 'v) \<Rightarrow> 'v \<times> ('k \<rightharpoonup> 'v)" where
  "map_index d k m = (case m k of None \<Rightarrow> (d, m(k \<mapsto> d)) | Some v \<Rightarrow> (v, m))"

definition map_erase :: "'k \<Rightarrow> ('k \<rightharpoonup> 'v) \<Rightarrow> ('k \<rightharpoonup> 'v)" where
  "map_erase k m = m(k := None)"

lemma map_emplace_None [simp]: "m k = None \<Longrightarrow> map_emplace k v m = m(k \<mapsto> v)"
  by (simp add: map_emplace_def)

lemma map_emplace_Some [simp]: "m k = Some w \<Longrightarrow> map_emplace k v m = m"
  by (simp add: map_emplace_def)

lemma map_emplace_other [simp]: "j \<noteq> k \<Longrightarrow> map_emplace k v m j = m j"
  by (simp add: map_emplace_def split: option.splits)

lemma map_emplace_same: "map_emplace k v m k = Some (case m k of None \<Rightarrow> v | Some w \<Rightarrow> w)"
  by (simp add: map_emplace_def split: option.splits)

lemma dom_map_emplace [simp]: "dom (map_emplace k v m) = insert k (dom m)"
  by (auto simp: map_emplace_def split: option.splits)

lemma map_index_None [simp]: "m k = None \<Longrightarrow> map_index d k m = (d, m(k \<mapsto> d))"
  by (simp add: map_index_def)

lemma map_index_Some [simp]: "m k = Some v \<Longrightarrow> map_index d k m = (v, m)"
  by (simp add: map_index_def)

lemma map_erase_same [simp]: "map_erase k m k = None"
  by (simp add: map_erase_def)

lemma map_erase_other [simp]: "j \<noteq> k \<Longrightarrow> map_erase k m j = m j"
  by (simp add: map_erase_def)

lemma map_erase_Some: "map_erase k m j = Some v \<longleftrightarrow> j \<noteq> k \<and> m j = Some v"
  by (simp add: map_erase_def)

lemma dom_map_erase [simp]: "dom (map_erase k m) = dom m - {k}"
  by (auto simp: map_erase_def)

text \<open>
  Where the development has to look at every entry (which closures still own an object, in
  which order a map is walked), a container is an association list read with \<open>map_of\<close>.
\<close>

definition al_emplace :: "'k \<Rightarrow> 'v \<Rightarrow> ('k \<times> 'v) list \<Rightarrow> ('k \<times> 'v) list" where
  "al_emplace k v xs = (case map_of xs k of None \<Rightarrow> (k, v) # xs | Some _ \<Rightarrow> xs)"

fun al_erase :: "'k \<Rightarrow> ('k \<times> 'v) list \<Rightarrow> ('k \<times> 'v) list" where
  "al_erase k [] = []"
| "al_erase k ((j, v) # xs) = (if j = k then al_erase k xs else (j, v) # al_erase k xs)"

fun al_assign :: "'k \<Rightarrow> 'v \<Rightarrow> ('k \<times> 'v) list \<Rightarrow> ('k \<times> 'v) list" where
  "al_assign k v [] = []"
| "al_assign k v ((j, w) # xs) = (if j = k then (j, v) # xs else (j, w) # al_assign k v xs)"

lemma map_of_al_emplace [simp]: "map_of (al_emplace k v xs) = map_emplace k v (map_of xs)"
  by (auto simp: al_emplace_def map_emplace_def split: option.splits)

lemma map_of_al_erase [simp]: "map_of (al_erase k xs) = map_erase k (map_of xs)"
  by (induction k xs rule: al_erase.induct) (auto simp: map_erase_def)

lemma map_of_al_assign [simp]:
  "map_of (al_assign k v xs) = (case map_of xs k of None \<Rightarrow> map_of xs | Some _ \<Rightarrow> (map_of xs)(k \<mapsto> v))"
  by (induction k v xs rule: al_assign.induct) (auto split: option.splits)

lemma al_erase_subset: "set (al_erase k xs) \<subseteq> set xs"
  by (induction k xs rule: al_erase.induct) auto

section \<open>Joining strings\<close>

fun join_sep :: "string \<Rightarrow> string list \<Rightarrow> string" where
  "join_sep sep [] = []"
| "join_sep sep [s] = s"
| "join_sep sep (s # t # ss) = s @ sep @ join_sep sep (t # ss)"

lemma join_sep_snoc: "ss \<noteq> [] \<Longrightarrow> join_sep sep (ss @ [s]) = join_sep sep ss @ sep @ s"
  by (induction sep ss rule: join_sep.induct) auto

section \<open>Wire formats\<close>

text \<open>A decoder that undoes an encoder on the values the format can carry.\<close>

locale codec =
  fixes enc :: "'a \<Rightarrow> 'b" and dec :: "'b \<Rightarrow> 'a option" and ok :: "'a \<Rightarrow> bool"
  assumes dec_enc: "ok x \<Longrightarrow> dec (enc x) = Some x"
begin

lemma enc_inject: "ok x \<Longrightarrow> ok y \<Longrightarrow> enc x = enc y \<longleftrightarrow> x = y"
  by (metis dec_enc option.inject)

end

text \<open>A decoder that accepts nothing but the encodings.\<close>

locale canonical_codec = codec +
  assumes enc_dec: "dec y = Some x \<Longrightarrow> ok x \<and> enc x = y"
begin

lemma dec_iff: "dec y = Some x \<longleftrightarrow> ok x \<and> enc x = y"
  using dec_enc enc_dec by blast

lemma dec_inject: "dec y = Some x \<Longrightarrow> dec z = Some x \<Longrightarrow> y = z"
  using enc_dec by blast

lemma rejects_iff: "dec y = None \<longleftrightarrow> (\<forall>x. ok x \<longrightarrow> enc x \<noteq> y)"
  by (metis dec_enc enc_dec not_None_eq)

end

section \<open>The byte order of the host\<close>

text \<open>
  \<open>std::memcpy\<close> of a \<open>uint32_t\<close> to and from bytes on a little-endian host (the
  program's platform; the length field of a frame is never converted by \<open>htonl\<close>).
\<close>

definition le32 :: "u32 \<Rightarrow> byte list" where
  "le32 w = [ucast w, ucast (drop_bit 8 w), ucast (drop_bit 16 w), ucast (drop_bit 24 w)]"

definition of_le32 :: "byte list \<Rightarrow> u32 option" where
  "of_le32 bs =
     (case bs of
        [b0, b1, b2, b3] \<Rightarrow>
          Some (ucast b0 OR push_bit 8 (ucast b1) OR push_bit 16 (ucast b2) OR push_bit 24 (ucast b3))
      | _ \<Rightarrow> None)"

lemma length_le32 [simp]: "length (le32 w) = 4"
  by (simp add: le32_def)

lemma of_le32_total: "length bs = 4 \<Longrightarrow> \<exists>w. of_le32 bs = Some w"
  by (auto simp: of_le32_def numeral_eq_Suc length_Suc_conv)

lemma byte_no_high_bit [simp]: "8 \<le> n \<Longrightarrow> \<not> bit (b :: byte) n"
  using bit_imp_le_length [of b n] by auto

lemma of_le32_le32: "of_le32 (le32 w) = Some w"
proof -
  have "ucast (ucast w :: byte) OR push_bit 8 (ucast (ucast (drop_bit 8 w) :: byte))
      OR push_bit 16 (ucast (ucast (drop_bit 16 w) :: byte))
      OR push_bit 24 (ucast (ucast (drop_bit 24 w) :: byte)) = w" (is "?l = w")
  proof (rule bit_word_eqI)
    fix n assume "n < LENGTH(32)"
    then consider "n < 8" | "8 \<le> n" "n < 16" | "16 \<le> n" "n < 24" | "24 \<le> n" "n < 32"
      by fastforce
    then show "bit ?l n = bit w n" by cases (auto simp: bit_simps)
  qed
  then show ?thesis by (simp add: of_le32_def le32_def)
qed

lemma le32_of_le32: "of_le32 bs = Some w \<Longrightarrow> le32 w = bs"
proof -
  assume "of_le32 bs = Some w"
  then obtain b0 b1 b2 b3 where bs: "bs = [b0, b1, b2, b3]"
    and w: "w = ucast b0 OR push_bit 8 (ucast b1) OR push_bit 16 (ucast b2) OR push_bit 24 (ucast b3)"
    by (auto simp: of_le32_def split: list.splits)
  have "ucast w = b0" "ucast (drop_bit 8 w) = b1" "ucast (drop_bit 16 w) = b2" "ucast (drop_bit 24 w) = b3"
    unfolding w by (rule bit_word_eqI; auto simp: bit_simps)+
  then show ?thesis by (simp add: le32_def bs)
qed

interpretation len32: canonical_codec le32 of_le32 "\<lambda>_. True"
  by unfold_locales (auto simp: of_le32_le32 dest: le32_of_le32)

end
