(* ===== verification/Types.thy ===== *)
theory Types
  imports Prelude
begin

text \<open>
  The small types of \<open>ip_transport/types\<close> and \<open>ip_transport/include/io_result.h\<close>: link
  directions, message types, the errors reported to the transport manager, and the result
  type of asynchronous operations. \<open>std::byte\<close> is a \<open>byte\<close>, a \<open>Message\<close>
  (\<open>std::vector\<close> of bytes) a byte list.
\<close>

section \<open>common.h\<close>

type_synonym transport_id = byte
type_synonym message = "byte list"

definition TRANSPORT_ANY :: transport_id where
  "TRANSPORT_ANY = 255"

section \<open>link\_direction.h\<close>

datatype link_direction = INCOMING | OUTGOING | ALL_DIR

fun link_direction_code :: "link_direction \<Rightarrow> byte" where
  "link_direction_code INCOMING = 0"
| "link_direction_code OUTGOING = 1"
| "link_direction_code ALL_DIR = 2"

fun link_direction_ToString :: "link_direction \<Rightarrow> string" where
  "link_direction_ToString INCOMING = ''INCOMING''"
| "link_direction_ToString OUTGOING = ''OUTGOING''"
| "link_direction_ToString ALL_DIR = ''ALL''"

lemma link_direction_code_inject [simp]:
  "link_direction_code a = link_direction_code b \<longleftrightarrow> a = b"
  by (cases a; cases b) simp_all

text \<open>
  \<open>std::map\<close> keyed by pairs of a peer and a direction compares the directions by their
  underlying values.
\<close>

instantiation link_direction :: linorder
begin

definition less_eq_link_direction :: "link_direction \<Rightarrow> link_direction \<Rightarrow> bool" where
  "less_eq_link_direction a b = (link_direction_code a \<le> link_direction_code b)"

definition less_link_direction :: "link_direction \<Rightarrow> link_direction \<Rightarrow> bool" where
  "less_link_direction a b = (link_direction_code a < link_direction_code b)"

instance
proof
  fix a b c :: link_direction
  show "(a < b) = (a \<le> b \<and> \<not> b \<le> a)"
    by (simp add: less_eq_link_direction_def less_link_direction_def less_le_not_le)
  show "a \<le> a" by (simp add: less_eq_link_direction_def)
  show "a \<le> c" if "a \<le> b" "b \<le> c"
    using that by (simp add: less_eq_link_direction_def)
  show "a = b" if "a \<le> b" "b \<le> a"
    using that by (metis antisym less_eq_link_direction_def link_direction_code_inject)
  show "a \<le> b \<or> b \<le> a"
    by (simp add: less_eq_link_direction_def linear)
qed

end

section \<open>error.h\<close>

datatype open_session_error_kind = SESSION_EXISTS | NO_SUCH_PEER | ERROR

fun error_kind_ToString :: "open_session_error_kind \<Rightarrow> string" where
  "error_kind_ToString SESSION_EXISTS = ''SESSION_EXISTS''"
| "error_kind_ToString NO_SUCH_PEER = ''NO_SUCH_PEER''"
| "error_kind_ToString ERROR = ''ERROR''"

record open_session_error =
  err_kind :: open_session_error_kind
  err_dir :: link_direction

definition open_session_error_ToString :: "open_session_error \<Rightarrow> string" where
  "open_session_error_ToString err =
     error_kind_ToString (err_kind err) @ '' '' @ link_direction_ToString (err_dir err)"

text \<open>\<open>Error\<close> is a \<open>std::variant\<close> with one alternative; \<open>MakeError\<close> builds it.\<close>

datatype error = OpenSessionError open_session_error

fun error_ToString :: "error \<Rightarrow> string" where
  "error_ToString (OpenSessionError err) = open_session_error_ToString err"

definition MakeError :: "open_session_error_kind \<Rightarrow> link_direction \<Rightarrow> error" where
  "MakeError kind dir = OpenSessionError \<lparr>err_kind = kind, err_dir = dir\<rparr>"

section \<open>message.h\<close>

datatype message_type = PACKET | SYNC_ADV | SYNC_REQ | SYNC_RESP

fun message_type_ToString :: "message_type \<Rightarrow> string" where
  "message_type_ToString PACKET = ''PACKET''"
| "message_type_ToString SYNC_ADV = ''SYNC_ADV''"
| "message_type_ToString SYNC_REQ = ''SYNC_REQ''"
| "message_type_ToString SYNC_RESP = ''SYNC_RESP''"

text \<open>
  \<open>GetMessageType\<close> casts the first byte, whatever its value, to the enumeration;
  \<open>at(0)\<close> throws on an empty message.
\<close>

definition GetMessageType :: "message \<Rightarrow> fault + byte" where
  "GetMessageType msg = (case msg of [] \<Rightarrow> Inl OutOfRange | b # _ \<Rightarrow> Inr b)"

definition hex_chars :: string where
  "hex_chars = ''0123456789abcdef''"

definition hex_digit :: "byte \<Rightarrow> char" where
  "hex_digit n = hex_chars ! unat n"

text \<open>
  \<open>std::hex\<close>, width 2, fill \<open>'0'\<close>: the digits of the value, padded on the left to two
  characters.
\<close>

definition hex_setw2 :: "byte \<Rightarrow> string" where
  "hex_setw2 b =
     (let ds = (if b < 16 then [hex_digit b] else [hex_digit (drop_bit 4 b), hex_digit (b AND 15)])
      in replicate (2 - length ds) (CHR ''0'') @ ds)"

definition MessageToString :: "message \<Rightarrow> string" where
  "MessageToString bytes = concat (map hex_setw2 bytes)"

section \<open>io\_result.h\<close>

datatype io_error = Timeout | IoFailed

datatype 'a io_result = Ok 'a | Err io_error

fun IsOk :: "'a io_result \<Rightarrow> bool" where
  "IsOk (Ok _) = True"
| "IsOk (Err _) = False"

fun IsErr :: "'a io_result \<Rightarrow> bool" where
  "IsErr (Ok _) = False"
| "IsErr (Err _) = True"

fun GetOk :: "'a io_result \<Rightarrow> 'a option" where
  "GetOk (Ok v) = Some v"
| "GetOk (Err _) = None"

fun GetErr :: "'a io_result \<Rightarrow> io_error option" where
  "GetErr (Ok _) = None"
| "GetErr (Err e) = Some e"

section \<open>Hexadecimal digits\<close>

lemma length_hex_chars: "length hex_chars = 16"
  by (simp add: hex_chars_def)

lemma unat_high_nibble: "unat (drop_bit 4 (b :: byte)) = unat b div 16"
  by (simp add: drop_bit_eq_div unat_div)

lemma unat_low_nibble: "unat ((b :: byte) AND 15) = unat b mod 16"
proof -
  have "(b AND 15) = take_bit 4 b" by (simp add: take_bit_eq_mask mask_eq_exp_minus_1)
  then show ?thesis by (simp add: take_bit_eq_mod unat_mod)
qed

lemma unat_byte: "unat (b :: byte) < 256"
  using unsigned_less [of b, where ?'a = nat] by simp

lemma hex_setw2_eq: "hex_setw2 b = [hex_digit (drop_bit 4 b), hex_digit (b AND 15)]"
proof (cases "b < 16")
  case True
  then have lt: "unat b < 16" by (simp add: word_less_nat_alt)
  then have "unat (drop_bit 4 b) = 0" by (simp add: unat_high_nibble)
  then have "hex_digit (drop_bit 4 b) = CHR ''0''" by (simp add: hex_digit_def hex_chars_def)
  moreover have "b AND 15 = b"
    by (simp add: word_unat_eq_iff unat_low_nibble lt)
  ultimately show ?thesis using True by (simp add: hex_setw2_def Let_def)
next
  case False
  then show ?thesis by (simp add: hex_setw2_def Let_def)
qed

lemma hex_digit_eq_nth: "unat n < 16 \<Longrightarrow> hex_digit n \<in> set hex_chars"
  by (simp add: hex_digit_def length_hex_chars)

lemma hex_chars_distinct: "distinct hex_chars"
  by (simp add: hex_chars_def)

lemma hex_digit_inject:
  "unat m < 16 \<Longrightarrow> unat n < 16 \<Longrightarrow> hex_digit m = hex_digit n \<longleftrightarrow> m = n"
  by (auto simp: hex_digit_def nth_eq_iff_index_eq [OF hex_chars_distinct] length_hex_chars
      word_unat_eq_iff)

lemma nibbles_eqI:
  assumes "drop_bit 4 a = drop_bit 4 b" and "a AND 15 = b AND (15 :: byte)"
  shows "a = b"
proof -
  from assms have "unat a div 16 = unat b div 16" "unat a mod 16 = unat b mod 16"
    by (metis unat_high_nibble, metis unat_low_nibble)
  then have "unat a = unat b" by (metis div_mult_mod_eq)
  then show ?thesis by (simp add: word_unat_eq_iff)
qed

lemma high_nibble_lt: "unat (drop_bit 4 (b :: byte)) < 16"
  using unat_byte [of b] by (simp add: unat_high_nibble)

lemma low_nibble_lt: "unat ((b :: byte) AND 15) < 16"
  by (simp add: unat_low_nibble)

lemma hex_setw2_inject: "hex_setw2 a = hex_setw2 b \<longleftrightarrow> a = b"
  by (auto simp: hex_setw2_eq hex_digit_inject high_nibble_lt low_nibble_lt intro: nibbles_eqI)

lemma length_MessageToString: "length (MessageToString m) = 2 * length m"
  by (induction m) (auto simp: MessageToString_def hex_setw2_eq)

lemma MessageToString_Cons: "MessageToString (b # m) = hex_setw2 b @ MessageToString m"
  by (simp add: MessageToString_def)

lemma MessageToString_inj: "MessageToString a = MessageToString b \<Longrightarrow> a = b"
proof (induction a arbitrary: b)
  case Nil
  then show ?case by (cases b) (auto simp: MessageToString_def hex_setw2_eq)
next
  case (Cons x a)
  then obtain y b' where b: "b = y # b'"
    by (cases b) (auto simp: MessageToString_def hex_setw2_eq)
  with Cons.prems have "hex_setw2 x = hex_setw2 y" "MessageToString a = MessageToString b'"
    by (simp_all add: MessageToString_Cons hex_setw2_eq)
  with Cons.IH b show ?case by (simp add: hex_setw2_inject)
qed

text \<open>
  The hexadecimal text of a message determines it: no two messages print alike, and a
  message of \<open>n\<close> bytes prints as \<open>2 n\<close> digits.
\<close>

lemma message_text_faithful:
  "(MessageToString a = MessageToString b \<longleftrightarrow> a = b) \<and> length (MessageToString a) = 2 * length a"
  using MessageToString_inj length_MessageToString by blast

end
