(* ===== verification/PeerIds.thy ===== *)
theory PeerIds
  imports Types
begin

text \<open>
  \<open>types/peer_id.h\<close>: the six-byte peer identifier, its order and equality by
  \<open>memcmp\<close>, the bytes its hash reads, and its conversion to and from the textual MAC
  form \<open>xx:xx:xx:xx:xx:xx\<close>. \<open>std::array<std::byte, 6>\<close> is a datatype with six
  fields, so its length is part of the type.
\<close>

definition PEER_ID_LEN :: nat where "PEER_ID_LEN = 6"
definition MAC_OCTET_LEN :: nat where "MAC_OCTET_LEN = 3"
definition MAC_STR_LEN :: nat where "MAC_STR_LEN = 18"

datatype peer_id = PeerId byte byte byte byte byte byte

fun pid_data :: "peer_id \<Rightarrow> byte list" where
  "pid_data (PeerId a b c d e f) = [a, b, c, d, e, f]"

definition zero_pid :: peer_id where
  "zero_pid = PeerId 0 0 0 0 0 0"

lemma length_pid_data [simp]: "length (pid_data p) = 6"
  by (cases p) simp

lemma pid_data_inject [simp]: "pid_data p = pid_data q \<longleftrightarrow> p = q"
  by (cases p; cases q) simp

definition pid_of_data :: "byte list \<Rightarrow> peer_id option" where
  "pid_of_data bs = (case bs of [a, b, c, d, e, f] \<Rightarrow> Some (PeerId a b c d e f) | _ \<Rightarrow> None)"

lemma pid_of_data_pid_data [simp]: "pid_of_data (pid_data p) = Some p"
  by (cases p) (simp add: pid_of_data_def)

lemma pid_data_of_pid_of_data: "pid_of_data bs = Some p \<Longrightarrow> pid_data p = bs"
  by (auto simp: pid_of_data_def split: list.splits)

lemma pid_of_data_length: "length bs = 6 \<Longrightarrow> \<exists>p. pid_of_data bs = Some p"
  by (auto simp: pid_of_data_def numeral_eq_Suc length_Suc_conv)

section \<open>Order and equality\<close>

text \<open>
  \<open>std::memcmp\<close>: the first differing pair decides, as unsigned bytes. Only the sign of
  the result is used.
\<close>

fun memcmp :: "byte list \<Rightarrow> byte list \<Rightarrow> int" where
  "memcmp (x # xs) (y # ys) = (if x = y then memcmp xs ys else if x < y then -1 else 1)"
| "memcmp _ _ = 0"

definition peer_id_less :: "peer_id \<Rightarrow> peer_id \<Rightarrow> bool" where
  "peer_id_less a b \<longleftrightarrow> memcmp (pid_data a) (pid_data b) < 0"

definition peer_id_eq :: "peer_id \<Rightarrow> peer_id \<Rightarrow> bool" where
  "peer_id_eq a b \<longleftrightarrow> memcmp (pid_data a) (pid_data b) = 0"

lemma memcmp_eq_0: "length xs = length ys \<Longrightarrow> memcmp xs ys = 0 \<longleftrightarrow> xs = ys"
  by (induction xs ys rule: memcmp.induct) auto

lemma memcmp_swap: "memcmp ys xs = - memcmp xs ys"
  by (induction xs ys rule: memcmp.induct) auto

lemma memcmp_less_trans:
  "memcmp xs ys < 0 \<Longrightarrow> memcmp ys zs < 0 \<Longrightarrow> length xs = length ys \<Longrightarrow> memcmp xs zs < 0"
proof (induction xs ys arbitrary: zs rule: memcmp.induct)
  case (1 x xs y ys)
  then show ?case by (cases zs) (auto split: if_splits)
qed auto

lemma peer_id_eq_iff: "peer_id_eq a b \<longleftrightarrow> a = b"
  by (simp add: peer_id_eq_def memcmp_eq_0)

instantiation peer_id :: linorder
begin

definition less_peer_id :: "peer_id \<Rightarrow> peer_id \<Rightarrow> bool" where
  "less_peer_id a b = peer_id_less a b"

definition less_eq_peer_id :: "peer_id \<Rightarrow> peer_id \<Rightarrow> bool" where
  "less_eq_peer_id a b = (\<not> peer_id_less b a)"

instance
proof
  fix a b c :: peer_id
  let ?m = "\<lambda>a b. memcmp (pid_data a) (pid_data b)"
  have swap: "?m b a = - ?m a b" for a b by (rule memcmp_swap)
  have eq: "?m a b = 0 \<longleftrightarrow> a = b" for a b by (simp add: memcmp_eq_0)
  have trans: "?m a b < 0 \<Longrightarrow> ?m b c < 0 \<Longrightarrow> ?m a c < 0" for a b c
    by (rule memcmp_less_trans [of _ "pid_data b"]) simp_all
  note defs = less_peer_id_def less_eq_peer_id_def peer_id_less_def
  show "(a < b) = (a \<le> b \<and> \<not> b \<le> a)" using swap [of a b] by (auto simp: defs)
  show "a \<le> a" using eq [of a a] by (simp add: defs)
  show "a \<le> c" if "a \<le> b" "b \<le> c"
    using that trans [of c b a] trans [of b a c] trans [of c b a] swap [of a b] swap [of b c]
      eq [of a b] eq [of b c] trans [of c a b] by (auto simp: defs)
  show "a = b" if "a \<le> b" "b \<le> a"
    using that swap [of a b] eq [of a b] by (simp add: defs)
  show "a \<le> b \<or> b \<le> a" using swap [of a b] by (auto simp: defs)
qed

end

section \<open>The bytes the hash reads\<close>

text \<open>
  \<open>std::hash<PeerId>\<close> copies the six bytes into the low end of a zeroed \<open>uint64_t\<close>
  (little-endian host) and hashes that with the standard library's \<open>std::hash<uint64_t>\<close>,
  the parameter \<open>H\<close>.
\<close>

fun le64_of_bytes :: "byte list \<Rightarrow> u64" where
  "le64_of_bytes [] = 0"
| "le64_of_bytes (b # bs) = ucast b OR push_bit 8 (le64_of_bytes bs)"

definition peer_id_hash :: "(u64 \<Rightarrow> 'h) \<Rightarrow> peer_id \<Rightarrow> 'h" where
  "peer_id_hash H p = H (le64_of_bytes (take (min 8 PEER_ID_LEN) (pid_data p)))"

lemma le64_of_bytes_Cons_inject:
  assumes "le64_of_bytes (a # as) = le64_of_bytes (b # bs)" and "length as < 8" and "length bs < 8"
  shows "a = b \<and> push_bit 8 (le64_of_bytes as) = push_bit 8 (le64_of_bytes bs)"
proof
  have bits: "bit (le64_of_bytes (a # as)) n = bit (le64_of_bytes (b # bs)) n" for n
    by (simp only: assms(1))
  show "a = b"
  proof (rule bit_word_eqI)
    fix n assume "n < LENGTH(8)"
    then show "bit a n = bit b n" using bits [of n] by (simp add: bit_simps)
  qed
  then show "push_bit 8 (le64_of_bytes as) = push_bit 8 (le64_of_bytes bs)"
  proof -
    have "bit (push_bit 8 (le64_of_bytes as)) n = bit (push_bit 8 (le64_of_bytes bs)) n" for n
      using bits [of n] by (cases "n < 8") (auto simp: bit_simps)
    then show ?thesis by (simp add: bit_eq_iff)
  qed
qed

lemma le64_of_bytes_bound: "length bs \<le> k \<Longrightarrow> 8 * k \<le> n \<Longrightarrow> \<not> bit (le64_of_bytes bs) n"
proof (induction bs arbitrary: k n)
  case Nil
  then show ?case by simp
next
  case (Cons b bs)
  then obtain j where k: "k = Suc j" by (cases k) auto
  with Cons.prems have "length bs \<le> j" "8 * j \<le> n - 8" "8 \<le> n" by auto
  with Cons.IH [of j "n - 8"] show ?case by (auto simp: bit_simps)
qed

lemma le64_of_bytes_inject:
  "length as = length bs \<Longrightarrow> length as \<le> 8 \<Longrightarrow> le64_of_bytes as = le64_of_bytes bs \<Longrightarrow> as = bs"
proof (induction as bs rule: list_induct2)
  case Nil
  then show ?case by simp
next
  case (Cons a as b bs)
  from Cons.prems Cons.hyps have ab: "a = b"
    and p: "push_bit 8 (le64_of_bytes as) = push_bit 8 (le64_of_bytes bs)"
    using le64_of_bytes_Cons_inject [of a as b bs] by simp_all
  have "bit (le64_of_bytes as) n = bit (le64_of_bytes bs) n" for n
  proof (cases "n < 56")
    case True
    from p have "bit (push_bit 8 (le64_of_bytes as)) (n + 8) = bit (push_bit 8 (le64_of_bytes bs)) (n + 8)"
      by simp
    with True show ?thesis by (simp add: bit_simps)
  next
    case False
    with Cons.prems Cons.hyps show ?thesis
      using le64_of_bytes_bound [of as 7 n] le64_of_bytes_bound [of bs 7 n] by simp
  qed
  then have "le64_of_bytes as = le64_of_bytes bs" by (simp add: bit_eq_iff)
  with Cons ab show ?case by simp
qed

lemma peer_id_hash_inject: "inj H \<Longrightarrow> peer_id_hash H p = peer_id_hash H q \<longleftrightarrow> p = q"
  using le64_of_bytes_inject [of "pid_data p" "pid_data q"]
  by (auto simp: peer_id_hash_def PEER_ID_LEN_def inj_eq)

section \<open>PeerIdToString\<close>

text \<open>
  The local buffer \<open>char s[MAC_STR_LEN]\<close> starts uninitialised: \<open>None\<close> is a byte not
  yet written, a store outside the array is a fault, and the final string construction
  reads the first \<open>MAC_STR_LEN - 1\<close> characters.
\<close>

type_synonym char_buf = "char option list"

definition buf_put :: "char_buf \<Rightarrow> nat \<Rightarrow> char \<Rightarrow> fault + char_buf" where
  "buf_put s i c = (if i < length s then Inr (s[i := Some c]) else Inl BufferOverrun)"

fun buf_read :: "char_buf \<Rightarrow> fault + string" where
  "buf_read [] = Inr []"
| "buf_read (None # s) = Inl Uninitialised"
| "buf_read (Some c # s) = chain (buf_read s) (\<lambda>cs. Inr (c # cs))"

fun pid_string_loop :: "byte list \<Rightarrow> char_buf \<Rightarrow> nat \<Rightarrow> fault + char_buf" where
  "pid_string_loop [] s ptr = Inr s"
| "pid_string_loop (oct # octs) s ptr =
     chain (buf_put s ptr (hex_chars ! unat (drop_bit 4 (oct AND 0xF0)))) (\<lambda>s.
     chain (buf_put s (ptr + 1) (hex_chars ! unat (oct AND 0x0F))) (\<lambda>s.
     chain (buf_put s (ptr + 2) (if ptr + 2 = MAC_STR_LEN then CHR 0x00 else CHR '':'')) (\<lambda>s.
     pid_string_loop octs s (ptr + 3))))"

definition PeerIdToString :: "peer_id \<Rightarrow> fault + string" where
  "PeerIdToString p =
     chain (pid_string_loop (pid_data p) (replicate MAC_STR_LEN None) 0) (\<lambda>s.
     if MAC_STR_LEN - 1 \<le> length s then buf_read (take (MAC_STR_LEN - 1) s) else Inl BufferOverrun)"

section \<open>MacStrToPeerId\<close>

text \<open>
  \<open>strtoul(s, nullptr, 16)\<close> as the C standard has it: leading white space, an optional
  sign, an optional \<open>0x\<close>, then the longest run of hexadecimal digits; a value beyond
  \<open>unsigned long\<close> saturates, a minus sign negates in \<open>unsigned long\<close>. The C string
  ends at the first NUL.
\<close>

definition isspace :: "char \<Rightarrow> bool" where
  "isspace c \<longleftrightarrow> c \<in> {CHR '' '', CHR 0x09, CHR 0x0A, CHR 0x0B, CHR 0x0C, CHR 0x0D}"

definition hex_value :: "char \<Rightarrow> nat option" where
  "hex_value c =
     (let n = of_char c :: nat
      in if 48 \<le> n \<and> n \<le> 57 then Some (n - 48)
         else if 97 \<le> n \<and> n \<le> 102 then Some (n - 87)
         else if 65 \<le> n \<and> n \<le> 70 then Some (n - 55)
         else None)"

fun hex_prefix_value :: "string \<Rightarrow> nat \<Rightarrow> nat" where
  "hex_prefix_value [] acc = acc"
| "hex_prefix_value (c # cs) acc =
     (case hex_value c of None \<Rightarrow> acc | Some d \<Rightarrow> hex_prefix_value cs (16 * acc + d))"

definition skip_0x :: "string \<Rightarrow> string" where
  "skip_0x s =
     (case s of
        z # x # c # cs \<Rightarrow>
          (if z = CHR ''0'' \<and> (x = CHR ''x'' \<or> x = CHR ''X'') \<and> hex_value c \<noteq> None then c # cs else s)
      | _ \<Rightarrow> s)"

definition strtoul16 :: "string \<Rightarrow> u64" where
  "strtoul16 str =
     (let s = dropWhile isspace (takeWhile (\<lambda>c. c \<noteq> CHR 0x00) str);
          neg = (case s of c # _ \<Rightarrow> c = CHR ''-'' | [] \<Rightarrow> False);
          s' = (case s of c # cs \<Rightarrow> if c = CHR ''-'' \<or> c = CHR ''+'' then cs else s | [] \<Rightarrow> []);
          n = hex_prefix_value (skip_0x s') 0
      in if 2 ^ 64 \<le> n then -1 else if neg then - of_nat n else of_nat n)"

fun pid_write :: "peer_id \<Rightarrow> nat \<Rightarrow> byte \<Rightarrow> fault + peer_id" where
  "pid_write (PeerId a b c d e f) i x =
     (if i = 0 then Inr (PeerId x b c d e f)
      else if i = 1 then Inr (PeerId a x c d e f)
      else if i = 2 then Inr (PeerId a b x d e f)
      else if i = 3 then Inr (PeerId a b c x e f)
      else if i = 4 then Inr (PeerId a b c d x f)
      else if i = 5 then Inr (PeerId a b c d e x)
      else Inl BufferOverrun)"

function mac_loop :: "string \<Rightarrow> nat \<Rightarrow> peer_id \<Rightarrow> fault + peer_id" where
  "mac_loop mac i pid =
     (if i < length mac
      then chain (pid_write pid (i div MAC_OCTET_LEN)
                   (ucast (strtoul16 (take (MAC_OCTET_LEN - 1) (drop i mac))))) (\<lambda>pid'.
           mac_loop mac (i + MAC_OCTET_LEN) pid')
      else Inr pid)"
  by pat_completeness auto
termination
  by (relation "measure (\<lambda>(mac, i, pid). length mac - i)") (auto simp: MAC_OCTET_LEN_def)

declare mac_loop.simps [simp del]

text \<open>\<open>PeerId id;\<close> leaves the array uninitialised: \<open>u\<close> is what it holds then.\<close>

definition MacStrToPeerId :: "peer_id \<Rightarrow> string \<Rightarrow> fault + peer_id" where
  "MacStrToPeerId u mac = mac_loop mac 0 u"

lemma high_nibble_mask: "drop_bit 4 (b :: byte) AND 15 = drop_bit 4 b"
  using high_nibble_lt [of b] by (simp add: word_unat_eq_iff unat_low_nibble)

lemma ucast_up_down_byte: "ucast (ucast (b :: byte) :: u64) = b"
  by (rule bit_word_eqI) (auto simp: bit_simps)

text \<open>What the text of an identifier is meant to be: its octets in hexadecimal, joined by colons.\<close>

definition mac_text :: "peer_id \<Rightarrow> string" where
  "mac_text p = join_sep '':'' (map hex_setw2 (pid_data p))"

lemma PeerIdToString_eq: "PeerIdToString p = Inr (mac_text p)"
proof (cases p)
  case (PeerId a b c d e f)
  have rep: "replicate 18 None = [None, None, None, None, None, None, None, None, None, None,
    None, None, None, None, None, None, None, None :: char option]"
    by (simp add: eval_nat_numeral)
  show ?thesis
    by (simp add: PeerId PeerIdToString_def MAC_STR_LEN_def rep buf_put_def mac_text_def
        hex_setw2_eq hex_digit_def high_nibble_mask)
qed

lemma length_mac_text: "length (mac_text p) = 17"
  by (cases p) (simp add: mac_text_def hex_setw2_eq)

lemma hex_chars_nth:
  assumes "n < 16"
  shows "hex_value (hex_chars ! n) = Some n" and "\<not> isspace (hex_chars ! n)"
    and "hex_chars ! n \<noteq> CHR ''-''" and "hex_chars ! n \<noteq> CHR ''+''" and "hex_chars ! n \<noteq> CHR 0x00"
proof -
  from assms have "n \<in> {0, 1, 2, 3, 4, 5, 6, 7, 8, 9, 10, 11, 12, 13, 14, 15}"
    unfolding insert_iff empty_iff by presburger
  then show "hex_value (hex_chars ! n) = Some n" "\<not> isspace (hex_chars ! n)"
    "hex_chars ! n \<noteq> CHR ''-''" "hex_chars ! n \<noteq> CHR ''+''" "hex_chars ! n \<noteq> CHR 0x00"
    by (auto simp: hex_chars_def hex_value_def isspace_def Let_def)
qed

lemma strtoul16_hex_setw2: "ucast (strtoul16 (hex_setw2 b)) = b"
proof -
  let ?h = "unat (drop_bit 4 b)" and ?l = "unat (b AND 15)"
  have n: "16 * ?h + ?l = unat b" by (simp add: unat_high_nibble unat_low_nibble)
  have "strtoul16 (hex_setw2 b) = of_nat (unat b)"
    using unat_byte [of b]
    by (simp add: strtoul16_def hex_setw2_eq hex_digit_def hex_chars_nth high_nibble_lt low_nibble_lt
        skip_0x_def Let_def n)
  then show ?thesis by (simp add: ucast_up_down_byte)
qed

lemma MacStrToPeerId_mac_text: "MacStrToPeerId u (mac_text p) = Inr p"
proof (cases p; cases u)
  fix a b c d e f a' b' c' d' e' f'
  assume p: "p = PeerId a b c d e f" and u: "u = PeerId a' b' c' d' e' f'"
  note pair = strtoul16_hex_setw2 [unfolded hex_setw2_eq]
  show ?thesis
    by (simp add: MacStrToPeerId_def mac_text_def p u hex_setw2_eq mac_loop.simps MAC_OCTET_LEN_def pair)
qed

interpretation mac: codec mac_text "\<lambda>s. case MacStrToPeerId zero_pid s of Inl _ \<Rightarrow> None | Inr p \<Rightarrow> Some p"
  "\<lambda>_. True"
  by unfold_locales (simp add: MacStrToPeerId_mac_text)

text \<open>
  A text of more than 18 characters makes the loop write beyond the six bytes.
\<close>

lemma pid_write_overrun: "6 \<le> i \<Longrightarrow> pid_write p i x = Inl BufferOverrun"
  by (cases p) simp

lemma pid_write_ok: "i < 6 \<Longrightarrow> \<exists>q. pid_write p i x = Inr q"
  by (cases p) (auto simp: numeral_eq_Suc less_Suc_eq)

lemma mac_loop_overrun:
  "18 < length mac \<Longrightarrow> i \<le> 18 \<Longrightarrow> 3 dvd i \<Longrightarrow> mac_loop mac i u = Inl BufferOverrun"
proof (induction mac i u rule: mac_loop.induct)
  case (1 mac i u)
  show ?case
  proof (cases "i = 18")
    case True
    with "1.prems" show ?thesis by (simp add: mac_loop.simps [of mac 18] pid_write_overrun MAC_OCTET_LEN_def)
  next
    case False
    with "1.prems" have i: "i + 3 \<le> 18" "i div 3 < 6" "i < length mac" by (auto elim!: dvdE)
    then obtain q where q: "pid_write u (i div MAC_OCTET_LEN)
        (ucast (strtoul16 (take (MAC_OCTET_LEN - 1) (drop i mac)))) = Inr q"
      using pid_write_ok by (metis MAC_OCTET_LEN_def)
    have "mac_loop mac (i + MAC_OCTET_LEN) q = Inl BufferOverrun"
      using "1.IH" [of q] "1.prems" i by (simp add: MAC_OCTET_LEN_def)
    with q i show ?thesis by (simp add: mac_loop.simps [of mac i])
  qed
qed

lemma mac_loop_ok: "length mac \<le> 18 \<Longrightarrow> 3 dvd i \<Longrightarrow> \<exists>p. mac_loop mac i u = Inr p"
proof (induction mac i u rule: mac_loop.induct)
  case (1 mac i u)
  show ?case
  proof (cases "i < length mac")
    case True
    with "1.prems" have i: "i div 3 < 6" by auto
    then obtain q where q: "pid_write u (i div MAC_OCTET_LEN)
        (ucast (strtoul16 (take (MAC_OCTET_LEN - 1) (drop i mac)))) = Inr q"
      using pid_write_ok by (metis MAC_OCTET_LEN_def)
    have "\<exists>p. mac_loop mac (i + MAC_OCTET_LEN) q = Inr p"
      using "1.IH" [OF True, of q] "1.prems" by (simp add: MAC_OCTET_LEN_def)
    with q True show ?thesis by (simp add: mac_loop.simps [of mac i])
  next
    case False
    then show ?thesis by (simp add: mac_loop.simps [of mac i])
  qed
qed

section \<open>Properties\<close>

text \<open>
  C38: printing an identifier never touches its buffer out of bounds nor an unwritten
  character, and parsing the text gives the identifier back, whatever the memory of the
  result held before.
\<close>

theorem peer_id_text_roundtrip: "chain (PeerIdToString p) (MacStrToPeerId u) = Inr p"
  by (simp add: PeerIdToString_eq MacStrToPeerId_mac_text)

text \<open>
  C39: \<open>MacStrToPeerId\<close> writes past the six bytes of the identifier exactly on texts longer
  than 18 characters; nothing in it checks the length.
\<close>

theorem MacStrToPeerId_overruns: "MacStrToPeerId u mac = Inl BufferOverrun \<longleftrightarrow> 18 < length mac"
  using mac_loop_overrun [of mac 0 u] mac_loop_ok [of mac 0 u] by (cases "18 < length mac") (auto simp: MacStrToPeerId_def)

text \<open>The number whose big-endian bytes are given.\<close>

fun be_value :: "byte list \<Rightarrow> nat" where
  "be_value [] = 0"
| "be_value (b # bs) = unat b * 256 ^ length bs + be_value bs"

lemma be_value_bound: "be_value bs < 256 ^ length bs"
proof (induction bs)
  case (Cons b bs)
  have "unat b * 256 ^ length bs + be_value bs < (unat b + 1) * 256 ^ length bs" using Cons by simp
  also have "\<dots> \<le> 256 * 256 ^ length bs" using unat_byte [of b] by (intro mult_right_mono) auto
  finally show ?case by simp
qed simp

lemma memcmp_be_value: "length xs = length ys \<Longrightarrow> memcmp xs ys < 0 \<longleftrightarrow> be_value xs < be_value ys"
proof (induction xs ys rule: memcmp.induct)
  case (1 x xs y ys)
  have bounds: "be_value xs < 256 ^ length xs" "be_value ys < 256 ^ length xs"
    using be_value_bound [of xs] be_value_bound [of ys] 1(2) by simp_all
  have lt: "be_value (x # xs) < be_value (y # ys)" if "unat x < unat y" "be_value xs < 256 ^ length xs" "length xs = length ys"
    for x y :: byte and xs ys
  proof -
    have "be_value (x # xs) < (unat x + 1) * 256 ^ length xs" using that by simp
    also have "\<dots> \<le> unat y * 256 ^ length xs" using that(1) by (intro mult_right_mono) auto
    finally show ?thesis using that(3) by simp
  qed
  show ?case
  proof (cases "x = y")
    case True
    with 1 show ?thesis by simp
  next
    case False
    then have "unat x < unat y \<or> unat y < unat x" by (metis linorder_neqE_nat word_unat_eq_iff)
    with lt [of x y xs ys] lt [of y x ys xs] 1(2) bounds False show ?thesis
      by (auto simp: word_less_nat_alt)
  qed
qed simp_all

text \<open>
  The order of \<open>PeerId\<close>, which the maps keyed by it rely on, is the order of the
  identifiers read as 48-bit big-endian numbers, and its equality is equality of the bytes.
\<close>

lemma peer_id_order:
  "(peer_id_less p q \<longleftrightarrow> be_value (pid_data p) < be_value (pid_data q)) \<and> (peer_id_eq p q \<longleftrightarrow> p = q)"
  by (simp add: peer_id_less_def memcmp_be_value peer_id_eq_iff)

text \<open>
  \<open>std::hash<PeerId>\<close> loses no byte: with any injective hash of \<open>uint64_t\<close>, different
  identifiers have different hashes.
\<close>

lemma peer_id_hash_faithful: "inj H \<Longrightarrow> peer_id_hash H p = peer_id_hash H q \<longleftrightarrow> p = q"
  by (rule peer_id_hash_inject)

theorem peer_id_hash_faithful_witness:
  "peer_id_hash id (PeerId 1 0 0 0 0 0) \<noteq> peer_id_hash id (PeerId 0 1 0 0 0 0)"
  by (simp add: peer_id_hash_faithful)

end
