(* ===== verification/Hello.thy ===== *)
theory Hello
  imports PeerIds
begin

text \<open>
  The hello message of \<open>include/ip_utils.h\<close>: a packed struct of 13 bytes (the
  identifier \<open>char[6]\<close>, the peer id, the type), its validity test by \<open>strcmp\<close>, and its
  copy to and from the wire. A \<open>HelloType\<close> read from the wire can hold any byte, so it
  is a byte with two named values.
\<close>

type_synonym hello_type = byte

definition Notify :: hello_type where "Notify = 0"
definition Answer :: hello_type where "Answer = 1"

text \<open>The literal \<open>"Hello"\<close> with its terminating NUL.\<close>

definition HELLO_ID :: "byte list" where
  "HELLO_ID = [0x48, 0x65, 0x6c, 0x6c, 0x6f, 0]"

record hello_msg =
  hm_identifier :: "byte list"
  hm_id :: peer_id
  hm_type :: hello_type

text \<open>The struct's default member initialisers, and its size.\<close>

definition default_hello :: hello_msg where
  "default_hello = \<lparr>hm_identifier = HELLO_ID, hm_id = zero_pid, hm_type = Notify\<rparr>"

definition sizeof_HelloMsg :: nat where
  "sizeof_HelloMsg = 13"

definition wf_hello :: "hello_msg \<Rightarrow> bool" where
  "wf_hello h \<longleftrightarrow> length (hm_identifier h) = 6"

text \<open>
  \<open>strcmp\<close> stops at the first difference or at a NUL both strings share; a read past the
  end of either array is a fault.
\<close>

fun strcmp :: "byte list \<Rightarrow> byte list \<Rightarrow> fault + int" where
  "strcmp (x # xs) (y # ys) =
     (if x \<noteq> y then Inr (if x < y then -1 else 1)
      else if x = 0 then Inr 0 else strcmp xs ys)"
| "strcmp _ _ = Inl BufferOverrun"

definition IsValid :: "hello_msg \<Rightarrow> bool" where
  "IsValid h \<longleftrightarrow> strcmp (hm_identifier h) HELLO_ID = Inr 0"

definition Serialize :: "hello_msg \<Rightarrow> message" where
  "Serialize h = hm_identifier h @ pid_data (hm_id h) @ [hm_type h]"

text \<open>The struct whose memory is the given 13 bytes (\<open>std::copy\<close> into it, or a cast).\<close>

definition hello_of_bytes :: "byte list \<Rightarrow> hello_msg option" where
  "hello_of_bytes bs =
     (case (pid_of_data (take 6 (drop 6 bs)), drop 12 bs) of
        (Some p, [t]) \<Rightarrow> Some \<lparr>hm_identifier = take 6 bs, hm_id = p, hm_type = t\<rparr>
      | _ \<Rightarrow> None)"

definition Deserialize :: "message \<Rightarrow> hello_msg option" where
  "Deserialize msg =
     (if length msg \<noteq> sizeof_HelloMsg then None
      else case hello_of_bytes msg of
             None \<Rightarrow> None
           | Some hello \<Rightarrow> if \<not> IsValid hello then None else Some hello)"

section \<open>Facts about the layout\<close>

lemma wf_default_hello [simp]: "wf_hello default_hello"
  by (simp add: wf_hello_def default_hello_def HELLO_ID_def)

lemma length_HELLO_ID [simp]: "length HELLO_ID = 6"
  by (simp add: HELLO_ID_def)

lemma strcmp_same_NUL: "0 \<in> set xs \<Longrightarrow> strcmp xs xs = Inr 0"
  by (induction xs) auto

text \<open>
  A comparison with a terminated literal that is no longer than the array never reads
  outside the array, terminated or not.
\<close>

lemma strcmp_in_bounds:
  "length ys \<le> length xs \<Longrightarrow> 0 \<in> set ys \<Longrightarrow> \<exists>r. strcmp xs ys = Inr r"
  by (induction xs ys rule: strcmp.induct) auto

lemma strcmp_0_literal:
  "length xs = length ys \<Longrightarrow> 0 \<notin> set (butlast ys) \<Longrightarrow> ys \<noteq> [] \<Longrightarrow> strcmp xs ys = Inr 0 \<Longrightarrow> xs = ys"
  by (induction xs ys rule: strcmp.induct) (auto split: if_splits)

lemma IsValid_iff: "wf_hello h \<Longrightarrow> IsValid h \<longleftrightarrow> hm_identifier h = HELLO_ID"
proof
  assume "wf_hello h" "IsValid h"
  then show "hm_identifier h = HELLO_ID"
    by (intro strcmp_0_literal) (auto simp: wf_hello_def IsValid_def HELLO_ID_def)
next
  assume "hm_identifier h = HELLO_ID"
  then show "IsValid h" by (simp add: IsValid_def strcmp_same_NUL HELLO_ID_def)
qed

lemma length_Serialize [simp]: "wf_hello h \<Longrightarrow> length (Serialize h) = sizeof_HelloMsg"
  by (simp add: Serialize_def wf_hello_def sizeof_HelloMsg_def)

lemma hello_of_bytes_Serialize: "wf_hello h \<Longrightarrow> hello_of_bytes (Serialize h) = Some h"
  by (simp add: hello_of_bytes_def Serialize_def wf_hello_def)

lemma hello_of_bytes_total:
  assumes "length bs = sizeof_HelloMsg"
  shows "\<exists>h. hello_of_bytes bs = Some h \<and> wf_hello h \<and> Serialize h = bs"
proof -
  from assms have "length (take 6 (drop 6 bs)) = 6" by (simp add: sizeof_HelloMsg_def)
  then obtain p where p: "pid_of_data (take 6 (drop 6 bs)) = Some p"
    using pid_of_data_length by blast
  from assms have "length (drop 12 bs) = 1" by (simp add: sizeof_HelloMsg_def)
  then obtain t where t: "drop 12 bs = [t]" by (cases "drop 12 bs") auto
  have "pid_data p = take 6 (drop 6 bs)" by (rule pid_data_of_pid_of_data [OF p])
  then have "take 6 bs @ pid_data p @ [t] = bs"
    using t by (metis append.assoc append_take_drop_id drop_drop numeral_Bit0 add.commute)
  with p t assms show ?thesis
    by (simp add: hello_of_bytes_def wf_hello_def Serialize_def sizeof_HelloMsg_def)
qed

lemma hello_of_bytes_SomeD:
  assumes "hello_of_bytes bs = Some h" and "length bs = sizeof_HelloMsg"
  shows "wf_hello h" and "Serialize h = bs"
  using hello_of_bytes_total [OF assms(2)] assms(1) by auto

lemma Deserialize_Serialize: "wf_hello h \<Longrightarrow> IsValid h \<Longrightarrow> Deserialize (Serialize h) = Some h"
  by (simp add: Deserialize_def hello_of_bytes_Serialize)

lemma Deserialize_SomeD:
  assumes "Deserialize m = Some h"
  shows "wf_hello h" and "IsValid h" and "Serialize h = m"
  using assms by (auto simp: Deserialize_def dest: hello_of_bytes_SomeD split: if_splits option.splits)

interpretation hello: canonical_codec Serialize Deserialize "\<lambda>h. wf_hello h \<and> IsValid h"
  by unfold_locales (auto simp: Deserialize_Serialize dest: Deserialize_SomeD)

text \<open>The two messages the program sends: \<open>HelloMsg{.id = self, .type = t}\<close>.\<close>

definition make_hello :: "peer_id \<Rightarrow> hello_type \<Rightarrow> hello_msg" where
  "make_hello self t = default_hello\<lparr>hm_id := self, hm_type := t\<rparr>"

lemma wf_make_hello [simp]: "wf_hello (make_hello self t)"
  by (simp add: make_hello_def wf_hello_def default_hello_def)

lemma IsValid_make_hello [simp]: "IsValid (make_hello self t)"
  by (simp add: IsValid_iff) (simp add: make_hello_def default_hello_def)

lemma make_hello_sel [simp]: "hm_id (make_hello self t) = self" "hm_type (make_hello self t) = t"
  by (simp_all add: make_hello_def)

lemma Deserialize_make_hello [simp]:
  "Deserialize (Serialize (make_hello self t)) = Some (make_hello self t)"
  by (simp add: Deserialize_Serialize)

text \<open>
  C37: a hello message and its 13 bytes determine each other: \<open>Deserialize\<close> accepts exactly
  the bytes \<open>Serialize\<close> makes of a valid message, and returns that message.
\<close>

theorem hello_canonical: "Deserialize m = Some h \<longleftrightarrow> wf_hello h \<and> IsValid h \<and> Serialize h = m"
  using Deserialize_SomeD Deserialize_Serialize by blast

end
