(* ===== verification/NetUtils.thy ===== *)
theory NetUtils
  imports Hello
begin

text \<open>
  The pure parts of \<open>include/ip_utils.h\<close> and of \<open>src/ip_broadcast.cpp\<close> that work on
  the interface list of the system and on addresses: broadcast addresses, the interface of
  an address, the active interfaces, and the textual forms used in the log. The list
  \<open>getifaddrs\<close> returns is an argument (\<open>None\<close>: the call failed).
\<close>

definition AF_INET :: u16 where "AF_INET = 2"
definition IFF_UP :: u32 where "IFF_UP = 0x1"
definition IFF_BROADCAST :: u32 where "IFF_BROADCAST = 0x2"
definition IFF_LOOPBACK :: u32 where "IFF_LOOPBACK = 0x8"

text \<open>\<open>struct sockaddr_in\<close>, with \<open>s_addr\<close> and the port in network byte order.\<close>

record sockaddr_in =
  sin_family :: u16
  sin_port :: u16
  sin_addr :: u32

record ifaddr =
  ifa_name :: string
  ifa_flags :: u32
  ifa_addr :: "sockaddr_in option"
  ifa_netmask :: "sockaddr_in option"

section \<open>Broadcast addresses\<close>

fun broadcast_loop :: "ifaddr list \<Rightarrow> u32 list \<Rightarrow> u32 list" where
  "broadcast_loop [] acc = acc"
| "broadcast_loop (ifa # rest) acc =
     (case (ifa_addr ifa, ifa_netmask ifa) of
        (Some a, Some m) \<Rightarrow>
          if sin_family a \<noteq> AF_INET then broadcast_loop rest acc
          else if \<not> (ifa_flags ifa AND IFF_UP \<noteq> 0 \<and> ifa_flags ifa AND IFF_BROADCAST \<noteq> 0
                     \<and> \<not> ifa_flags ifa AND IFF_LOOPBACK \<noteq> 0)
          then broadcast_loop rest acc
          else broadcast_loop rest (acc @ [sin_addr a OR NOT (sin_addr m)])
      | _ \<Rightarrow> broadcast_loop rest acc)"

definition GetBroadcastAddresses :: "ifaddr list option \<Rightarrow> u32 list" where
  "GetBroadcastAddresses ifs = (case ifs of None \<Rightarrow> [] | Some l \<Rightarrow> broadcast_loop l [])"

section \<open>Interfaces\<close>

fun interface_loop :: "ifaddr list \<Rightarrow> u32 \<Rightarrow> string option" where
  "interface_loop [] addr = None"
| "interface_loop (ifa # rest) addr =
     (case (ifa_addr ifa, ifa_netmask ifa) of
        (Some a, Some m) \<Rightarrow>
          if sin_family a = AF_INET \<and> sin_addr a AND sin_addr m = addr AND sin_addr m
          then Some (ifa_name ifa)
          else interface_loop rest addr
      | _ \<Rightarrow> interface_loop rest addr)"

text \<open>\<open>nullptr\<close> is \<open>None\<close>.\<close>

definition get_interface_by_ip :: "ifaddr list option \<Rightarrow> u32 \<Rightarrow> string option" where
  "get_interface_by_ip ifs addr = (case ifs of None \<Rightarrow> None | Some l \<Rightarrow> interface_loop l addr)"

fun interfaces_loop :: "ifaddr list \<Rightarrow> string set \<Rightarrow> string set" where
  "interfaces_loop [] acc = acc"
| "interfaces_loop (ifa # rest) acc =
     (case (ifa_addr ifa, ifa_netmask ifa) of
        (Some a, Some m) \<Rightarrow>
          if sin_family a = AF_INET \<and> ifa_flags ifa AND IFF_UP \<noteq> 0
          then interfaces_loop rest (insert (ifa_name ifa) acc)
          else interfaces_loop rest acc
      | _ \<Rightarrow> interfaces_loop rest acc)"

definition get_interfaces :: "ifaddr list option \<Rightarrow> string set" where
  "get_interfaces ifs = (case ifs of None \<Rightarrow> {} | Some l \<Rightarrow> interfaces_loop l {})"

section \<open>Text\<close>

definition swap16 :: "u16 \<Rightarrow> u16" where
  "swap16 w = push_bit 8 w OR drop_bit 8 w"

definition htons :: "u16 \<Rightarrow> u16" where "htons w = swap16 w"
definition ntohs :: "u16 \<Rightarrow> u16" where "ntohs w = swap16 w"

fun dec_string :: "nat \<Rightarrow> string" where
  "dec_string n = (if n < 10 then [char_of (48 + n)] else dec_string (n div 10) @ [char_of (48 + n mod 10)])"

declare dec_string.simps [simp del]

text \<open>\<open>inet_ntop\<close> prints the four bytes in memory order, the lowest first on this host.\<close>

definition in_addr_to_string :: "u32 \<Rightarrow> string" where
  "in_addr_to_string a = join_sep ''.'' (map (\<lambda>b. dec_string (unat b)) (le32 a))"

definition sockaddr_in_to_string :: "sockaddr_in \<Rightarrow> string" where
  "sockaddr_in_to_string a = in_addr_to_string (sin_addr a) @ '':'' @ dec_string (unat (ntohs (sin_port a)))"

definition EPOLLIN :: u32 where "EPOLLIN = 0x1"
definition EPOLLOUT :: u32 where "EPOLLOUT = 0x4"
definition EPOLLERR :: u32 where "EPOLLERR = 0x8"
definition EPOLLHUP :: u32 where "EPOLLHUP = 0x10"
definition EPOLLET :: u32 where "EPOLLET = 0x80000000"

definition append_event :: "u32 \<Rightarrow> u32 \<Rightarrow> string \<Rightarrow> string \<Rightarrow> string" where
  "append_event events flag name result =
     (if events AND flag \<noteq> 0
      then (if result \<noteq> [] then result @ ''|'' else result) @ name else result)"

definition EpollEventToString :: "u32 \<Rightarrow> string" where
  "EpollEventToString events =
     (let r = (if events AND EPOLLIN \<noteq> 0 then ''EPOLLIN'' else []);
          r = append_event events EPOLLOUT ''EPOLLOUT'' r;
          r = append_event events EPOLLERR ''EPOLLERR'' r;
          r = append_event events EPOLLHUP ''EPOLLHUP'' r;
          r = append_event events EPOLLET ''EPOLLET'' r
      in if r = [] then ''NONE'' else r)"

section \<open>Facts about the interface walks\<close>

text \<open>When \<open>GetBroadcastAddresses\<close> takes an entry, and the address it computes for it.\<close>

definition broadcast_of :: "ifaddr \<Rightarrow> u32 option" where
  "broadcast_of ifa =
     (case (ifa_addr ifa, ifa_netmask ifa) of
        (Some a, Some m) \<Rightarrow>
          if sin_family a = AF_INET \<and> ifa_flags ifa AND IFF_UP \<noteq> 0
             \<and> ifa_flags ifa AND IFF_BROADCAST \<noteq> 0 \<and> ifa_flags ifa AND IFF_LOOPBACK = 0
          then Some (sin_addr a OR NOT (sin_addr m)) else None
      | _ \<Rightarrow> None)"

lemma broadcast_loop_eq: "broadcast_loop l acc = acc @ List.map_filter broadcast_of l"
  by (induction l acc rule: broadcast_loop.induct)
    (auto simp: broadcast_of_def List.map_filter_def split: option.splits)

lemma in_broadcast_loop: "x \<in> set (broadcast_loop l []) \<longleftrightarrow> (\<exists>ifa \<in> set l. broadcast_of ifa = Some x)"
  by (force simp: broadcast_loop_eq List.map_filter_def image_iff)

text \<open>An entry whose network holds the address.\<close>

definition on_network :: "u32 \<Rightarrow> ifaddr \<Rightarrow> bool" where
  "on_network addr ifa =
     (case (ifa_addr ifa, ifa_netmask ifa) of
        (Some a, Some m) \<Rightarrow> sin_family a = AF_INET \<and> sin_addr a AND sin_addr m = addr AND sin_addr m
      | _ \<Rightarrow> False)"

lemma interface_loop_find: "interface_loop l addr = map_option ifa_name (find (on_network addr) l)"
  by (induction l addr rule: interface_loop.induct) (auto simp: on_network_def split: option.splits)

lemma interface_loop_None: "interface_loop l addr = None \<longleftrightarrow> (\<forall>ifa \<in> set l. \<not> on_network addr ifa)"
  by (auto simp: interface_loop_find find_None_iff)

lemma broadcast_mask: "((a :: u32) OR NOT m) AND m = a AND m"
  by (rule bit_word_eqI) (auto simp: bit_simps)

lemma broadcast_hosts: "((a :: u32) OR NOT m) OR m = -1"
  by (rule bit_word_eqI) (auto simp: bit_simps)

lemma broadcast_on_network: "broadcast_of ifa = Some x \<Longrightarrow> on_network x ifa"
  by (auto simp: broadcast_of_def on_network_def broadcast_mask split: option.splits if_splits)

lemma interfaces_loop_eq:
  "interfaces_loop l acc =
     acc \<union> {ifa_name ifa | ifa a m. ifa \<in> set l \<and> ifa_addr ifa = Some a \<and> ifa_netmask ifa = Some m
            \<and> sin_family a = AF_INET \<and> ifa_flags ifa AND IFF_UP \<noteq> 0}"
  by (induction l acc rule: interfaces_loop.induct) (auto split: option.splits)

section \<open>Facts about the textual forms\<close>

lemma swap16_swap16: "swap16 (swap16 w) = w"
proof (rule bit_word_eqI)
  fix n assume "n < LENGTH(16)"
  then show "bit (swap16 (swap16 w)) n = bit w n"
    by (cases "n < 8") (auto simp: swap16_def bit_simps dest: bit_imp_le_length)
qed

lemma length_dec_string_byte: "n < 1000 \<Longrightarrow> length (dec_string n) \<le> 3"
  by (simp add: dec_string.simps [of n] dec_string.simps [of "n div 10"]
      dec_string.simps [of "n div 10 div 10"])

lemma dec_string_nonempty: "dec_string n \<noteq> []"
  by (subst dec_string.simps) simp

lemma EpollEventToString_join:
  "EpollEventToString ev =
     (let names = map snd (filter (\<lambda>(flag, _). ev AND flag \<noteq> 0)
        [(EPOLLIN, ''EPOLLIN''), (EPOLLOUT, ''EPOLLOUT''), (EPOLLERR, ''EPOLLERR''),
         (EPOLLHUP, ''EPOLLHUP''), (EPOLLET, ''EPOLLET'')])
      in if names = [] then ''NONE'' else join_sep ''|'' names)"
  by (simp add: EpollEventToString_def append_event_def Let_def)

section \<open>Properties\<close>

text \<open>
  Every address \<open>GetBroadcastAddresses\<close> returns is the all-ones host address of an
  active, non-loopback IPv4 broadcast interface: it lies in that interface's network and
  every host bit of it is set. Each such interface contributes its address.
\<close>

lemma broadcast_addresses:
  "x \<in> set (GetBroadcastAddresses (Some l)) \<longleftrightarrow>
     (\<exists>ifa a m. ifa \<in> set l \<and> ifa_addr ifa = Some a \<and> ifa_netmask ifa = Some m \<and> sin_family a = AF_INET
        \<and> ifa_flags ifa AND IFF_UP \<noteq> 0 \<and> ifa_flags ifa AND IFF_BROADCAST \<noteq> 0 \<and> ifa_flags ifa AND IFF_LOOPBACK = 0
        \<and> x AND sin_addr m = sin_addr a AND sin_addr m \<and> x OR sin_addr m = -1)"
proof -
  have det: "x = a OR NOT m" if "x AND m = a AND m" "x OR m = -1" for x a m :: u32
  proof (rule bit_word_eqI)
    fix n assume n: "n < LENGTH(32)"
    from arg_cong [OF that(1), of "\<lambda>w. bit w n"] arg_cong [OF that(2), of "\<lambda>w. bit w n"] n
    show "bit x n = bit (a OR NOT m) n" by (auto simp: bit_simps)
  qed
  have "broadcast_of ifa = Some x \<longleftrightarrow>
     (\<exists>a m. ifa_addr ifa = Some a \<and> ifa_netmask ifa = Some m \<and> sin_family a = AF_INET
        \<and> ifa_flags ifa AND IFF_UP \<noteq> 0 \<and> ifa_flags ifa AND IFF_BROADCAST \<noteq> 0 \<and> ifa_flags ifa AND IFF_LOOPBACK = 0
        \<and> x AND sin_addr m = sin_addr a AND sin_addr m \<and> x OR sin_addr m = -1)" for ifa
    by (auto simp: broadcast_of_def broadcast_mask broadcast_hosts dest: det split: option.splits if_splits)
  then show ?thesis by (auto simp: GetBroadcastAddresses_def in_broadcast_loop)
qed

text \<open>
  \<open>get_interface_by_ip\<close> names the first interface whose network contains the address,
  and returns a null pointer exactly when no interface's network does.
\<close>

lemma interface_of_address:
  "get_interface_by_ip (Some l) addr = map_option ifa_name (find (on_network addr) l)
   \<and> (get_interface_by_ip (Some l) addr = None \<longleftrightarrow> \<not> (\<exists>ifa \<in> set l. on_network addr ifa))"
  by (auto simp: get_interface_by_ip_def interface_loop_find find_None_iff)

text \<open>
  The text of an event mask is the names of the set flags, in a fixed order, separated by
  bars, or NONE.
\<close>

lemma event_text:
  "EpollEventToString ev =
     (let names = map snd (filter (\<lambda>(flag, _). ev AND flag \<noteq> 0)
        [(EPOLLIN, ''EPOLLIN''), (EPOLLOUT, ''EPOLLOUT''), (EPOLLERR, ''EPOLLERR''),
         (EPOLLHUP, ''EPOLLHUP''), (EPOLLET, ''EPOLLET'')])
      in if names = [] then ''NONE'' else join_sep ''|'' names)"
  by (rule EpollEventToString_join)

end
