(* ===== verification/Kernel.thy ===== *)
theory Kernel
  imports NetUtils
begin

text \<open>
  The operating system is not part of the repository: it is a parameter of the model, a
  record of the system calls the sources make over an abstract kernel state \<open>'k\<close>. A call
  that can fail returns -1 (and, where the sources read it, an \<open>errno\<close>). What theorems
  assume of the calls is stated here as the predicate \<open>epoll_laws\<close>, which is the
  documented behaviour of \<open>epoll_ctl(2)\<close>, and instantiated at the end by a concrete
  kernel that satisfies it.
\<close>

datatype sock_address = Inet sockaddr_in | Netlink u32 int

datatype recv_result = Received "byte list" | RecvFailed int

record 'k kernel =
  k_epoll_create1 :: "'k \<Rightarrow> int \<times> 'k"
  k_eventfd :: "'k \<Rightarrow> int \<times> 'k"
  k_epoll_ctl :: "descr \<Rightarrow> int \<Rightarrow> descr \<Rightarrow> (u32 \<times> descr) option \<Rightarrow> 'k \<Rightarrow> int \<times> 'k"
  k_read :: "descr \<Rightarrow> 'k \<Rightarrow> 'k"
  k_write :: "descr \<Rightarrow> 'k \<Rightarrow> 'k"
  k_close :: "descr \<Rightarrow> 'k \<Rightarrow> 'k"
  k_getpid :: "'k \<Rightarrow> int"
  k_socket :: "int \<Rightarrow> int \<Rightarrow> int \<Rightarrow> 'k \<Rightarrow> int \<times> 'k"
  k_setsockopt :: "descr \<Rightarrow> int \<Rightarrow> int \<Rightarrow> int \<Rightarrow> 'k \<Rightarrow> int \<times> 'k"
  k_bind :: "descr \<Rightarrow> sock_address \<Rightarrow> 'k \<Rightarrow> int \<times> 'k"
  k_listen :: "descr \<Rightarrow> int \<Rightarrow> 'k \<Rightarrow> int \<times> 'k"
  k_connect :: "descr \<Rightarrow> sockaddr_in \<Rightarrow> 'k \<Rightarrow> (int \<times> int) \<times> 'k"
  k_accept :: "descr \<Rightarrow> 'k \<Rightarrow> (int \<times> sockaddr_in) \<times> 'k"
  k_getfl :: "descr \<Rightarrow> 'k \<Rightarrow> int \<times> 'k"
  k_setfl :: "descr \<Rightarrow> u32 \<Rightarrow> 'k \<Rightarrow> 'k"
  k_getpeername :: "descr \<Rightarrow> 'k \<Rightarrow> (int \<times> sockaddr_in) \<times> 'k"
  k_getifaddrs :: "'k \<Rightarrow> ifaddr list option \<times> 'k"
  k_send :: "descr \<Rightarrow> byte list \<Rightarrow> u32 \<Rightarrow> 'k \<Rightarrow> int \<times> 'k"
  k_recv :: "descr \<Rightarrow> u64 \<Rightarrow> 'k \<Rightarrow> recv_result \<times> 'k"
  k_sendto :: "descr \<Rightarrow> byte list \<Rightarrow> sockaddr_in \<Rightarrow> 'k \<Rightarrow> int \<times> 'k"
  k_recvfrom :: "descr \<Rightarrow> nat \<Rightarrow> 'k \<Rightarrow> (byte list \<times> sockaddr_in) option \<times> 'k"
  k_timerfd_create :: "'k \<Rightarrow> int \<times> 'k"
  k_timerfd_settime :: "descr \<Rightarrow> int \<Rightarrow> int \<Rightarrow> 'k \<Rightarrow> int \<times> 'k"

definition EPOLL_CTL_ADD :: int where "EPOLL_CTL_ADD = 1"
definition EPOLL_CTL_DEL :: int where "EPOLL_CTL_DEL = 2"
definition EPOLL_CTL_MOD :: int where "EPOLL_CTL_MOD = 3"

lemmas epoll_cmd_defs = EPOLL_CTL_ADD_def EPOLL_CTL_DEL_def EPOLL_CTL_MOD_def

text \<open>
  \<open>interest k ep\<close> is the interest list of the epoll instance \<open>ep\<close>: the descriptors it
  watches, each with its event mask. \<open>epoll_ctl(2)\<close>: a call that fails changes nothing;
  ADD fails on a descriptor already there, MOD and DEL on one that is not; a DEL of a
  watched descriptor succeeds. \<open>close(2)\<close> takes a descriptor off the list; reading or
  writing an event counter does not touch the list.
\<close>

definition epoll_laws :: "'k kernel \<Rightarrow> ('k \<Rightarrow> descr \<Rightarrow> descr \<rightharpoonup> u32) \<Rightarrow> bool" where
  "epoll_laws K interest \<longleftrightarrow>
     (\<forall>ep cmd fd arg k k'. k_epoll_ctl K ep cmd fd arg k = (-1, k') \<longrightarrow> interest k' ep = interest k ep) \<and>
     (\<forall>ep fd ev k r k'. k_epoll_ctl K ep EPOLL_CTL_ADD fd (Some (ev, fd)) k = (r, k') \<longrightarrow> r \<noteq> -1 \<longrightarrow>
        interest k ep fd = None \<and> interest k' ep = (interest k ep)(fd \<mapsto> ev)) \<and>
     (\<forall>ep fd ev k r k'. k_epoll_ctl K ep EPOLL_CTL_MOD fd (Some (ev, fd)) k = (r, k') \<longrightarrow> r \<noteq> -1 \<longrightarrow>
        interest k ep fd \<noteq> None \<and> interest k' ep = (interest k ep)(fd \<mapsto> ev)) \<and>
     (\<forall>ep fd arg k r k'. k_epoll_ctl K ep EPOLL_CTL_DEL fd arg k = (r, k') \<longrightarrow> r \<noteq> -1 \<longrightarrow>
        interest k ep fd \<noteq> None \<and> interest k' ep = (interest k ep)(fd := None)) \<and>
     (\<forall>ep fd arg k. interest k ep fd \<noteq> None \<longrightarrow> fst (k_epoll_ctl K ep EPOLL_CTL_DEL fd arg k) \<noteq> -1) \<and>
     (\<forall>ep fd ev k. interest k ep fd \<noteq> None \<longrightarrow>
        fst (k_epoll_ctl K ep EPOLL_CTL_MOD fd (Some (ev, fd)) k) \<noteq> -1) \<and>
     (\<forall>ep fd k. interest (k_write K fd k) ep = interest k ep) \<and>
     (\<forall>ep fd k. interest (k_read K fd k) ep = interest k ep) \<and>
     (\<forall>ep fd k. interest (k_close K fd k) ep = (interest k ep)(fd := None))"

text \<open>
  No other call touches an interest list; a new epoll instance has an empty one.
\<close>

definition epoll_frame :: "'k kernel \<Rightarrow> ('k \<Rightarrow> descr \<Rightarrow> descr \<rightharpoonup> u32) \<Rightarrow> bool" where
  "epoll_frame K interest \<longleftrightarrow>
     (\<forall>k. fst (k_epoll_create1 K k) \<noteq> -1 \<longrightarrow>
        interest (snd (k_epoll_create1 K k)) (fst (k_epoll_create1 K k)) = Map.empty) \<and>
     (\<forall>k. interest (snd (k_eventfd K k)) = interest k) \<and>
     (\<forall>d t p k. interest (snd (k_socket K d t p k)) = interest k) \<and>
     (\<forall>fd l n v k. interest (snd (k_setsockopt K fd l n v k)) = interest k) \<and>
     (\<forall>fd a k. interest (snd (k_bind K fd a k)) = interest k) \<and>
     (\<forall>fd n k. interest (snd (k_listen K fd n k)) = interest k) \<and>
     (\<forall>fd a k. interest (snd (k_connect K fd a k)) = interest k) \<and>
     (\<forall>fd k. interest (snd (k_accept K fd k)) = interest k) \<and>
     (\<forall>fd k. interest (snd (k_getfl K fd k)) = interest k) \<and>
     (\<forall>fd fl k. interest (k_setfl K fd fl k) = interest k) \<and>
     (\<forall>fd k. interest (snd (k_getpeername K fd k)) = interest k) \<and>
     (\<forall>k. interest (snd (k_getifaddrs K k)) = interest k) \<and>
     (\<forall>fd bs fl k. interest (snd (k_send K fd bs fl k)) = interest k) \<and>
     (\<forall>fd n k. interest (snd (k_recv K fd n k)) = interest k) \<and>
     (\<forall>fd bs a k. interest (snd (k_sendto K fd bs a k)) = interest k) \<and>
     (\<forall>fd n k. interest (snd (k_recvfrom K fd n k)) = interest k) \<and>
     (\<forall>k. interest (snd (k_timerfd_create K k)) = interest k) \<and>
     (\<forall>fd i v k. interest (snd (k_timerfd_settime K fd i v k)) = interest k)"

lemma epoll_laws_fail:
  "epoll_laws K interest \<Longrightarrow> k_epoll_ctl K ep cmd fd arg k = (-1, k') \<Longrightarrow> interest k' ep = interest k ep"
  by (simp add: epoll_laws_def)

lemma epoll_laws_add:
  "epoll_laws K interest \<Longrightarrow> k_epoll_ctl K ep EPOLL_CTL_ADD fd (Some (ev, fd)) k = (r, k') \<Longrightarrow> r \<noteq> -1 \<Longrightarrow>
     interest k ep fd = None \<and> interest k' ep = (interest k ep)(fd \<mapsto> ev)"
  by (auto simp: epoll_laws_def)

lemma epoll_laws_mod:
  "epoll_laws K interest \<Longrightarrow> k_epoll_ctl K ep EPOLL_CTL_MOD fd (Some (ev, fd)) k = (r, k') \<Longrightarrow> r \<noteq> -1 \<Longrightarrow>
     interest k ep fd \<noteq> None \<and> interest k' ep = (interest k ep)(fd \<mapsto> ev)"
  by (auto simp: epoll_laws_def)

lemma epoll_laws_del:
  "epoll_laws K interest \<Longrightarrow> k_epoll_ctl K ep EPOLL_CTL_DEL fd arg k = (r, k') \<Longrightarrow> r \<noteq> -1 \<Longrightarrow>
     interest k ep fd \<noteq> None \<and> interest k' ep = (interest k ep)(fd := None)"
  by (auto simp: epoll_laws_def)

lemma epoll_laws_del_ok:
  "epoll_laws K interest \<Longrightarrow> k_epoll_ctl K ep EPOLL_CTL_DEL fd arg k = (r, k') \<Longrightarrow>
     interest k ep fd \<noteq> None \<Longrightarrow> r \<noteq> -1"
  unfolding epoll_laws_def by (metis fst_conv)

lemma epoll_laws_mod_ok:
  "epoll_laws K interest \<Longrightarrow> k_epoll_ctl K ep EPOLL_CTL_MOD fd (Some (ev, fd)) k = (r, k') \<Longrightarrow>
     interest k ep fd \<noteq> None \<Longrightarrow> r \<noteq> -1"
  unfolding epoll_laws_def by (metis fst_conv)

lemma epoll_laws_write: "epoll_laws K interest \<Longrightarrow> interest (k_write K fd k) ep = interest k ep"
  by (simp add: epoll_laws_def)

lemma epoll_laws_read: "epoll_laws K interest \<Longrightarrow> interest (k_read K fd k) ep = interest k ep"
  by (simp add: epoll_laws_def)

lemma epoll_laws_close:
  "epoll_laws K interest \<Longrightarrow> interest (k_close K fd k) ep = (interest k ep)(fd := None)"
  by (simp add: epoll_laws_def)

section \<open>A concrete kernel\<close>

text \<open>
  A small deterministic kernel, used where a witness needs one: descriptors are handed out
  lowest first among the free ones, as POSIX asks; \<open>epoll_ctl\<close> follows its manual page;
  a socket's input is a list of chunks (each \<open>recv\<close> gets at most one; with no chunk left
  it fails with \<open>EAGAIN\<close>); \<open>send\<close> takes everything and records it.
\<close>

definition EAGAIN :: int where "EAGAIN = 11"
definition O_NONBLOCK :: u32 where "O_NONBLOCK = 0x800"
definition EINPROGRESS :: int where "EINPROGRESS = 115"
definition ECONNREFUSED :: int where "ECONNREFUSED = 111"

record sim =
  sim_open :: "descr list"
  sim_interest :: "descr \<rightharpoonup> u32"
  sim_input :: "descr \<Rightarrow> byte list list"
  sim_datagrams :: "(byte list \<times> sockaddr_in) list"
  sim_sent :: "(descr \<times> byte list) list"
  sim_ifs :: "ifaddr list"
  sim_peer :: sockaddr_in
  sim_nonblocking :: "descr list"
  sim_connect :: "int \<times> int"

definition sim0 :: sim where
  "sim0 = \<lparr>sim_open = [0, 1, 2], sim_interest = Map.empty, sim_input = (\<lambda>_. []), sim_datagrams = [],
     sim_sent = [], sim_ifs = [], sim_peer = \<lparr>sin_family = AF_INET, sin_port = 0, sin_addr = 0\<rparr>,
     sim_nonblocking = [], sim_connect = (-1, EINPROGRESS)\<rparr>"

fun lowest_free :: "nat \<Rightarrow> descr \<Rightarrow> descr list \<Rightarrow> descr" where
  "lowest_free 0 fd opened = fd"
| "lowest_free (Suc n) fd opened = (if fd \<in> set opened then lowest_free n (fd + 1) opened else fd)"

definition sim_alloc :: "sim \<Rightarrow> int \<times> sim" where
  "sim_alloc k = (let fd = lowest_free (length (sim_open k)) 0 (sim_open k) in (fd, k\<lparr>sim_open := fd # sim_open k\<rparr>))"

definition sim_epoll_ctl :: "descr \<Rightarrow> int \<Rightarrow> descr \<Rightarrow> (u32 \<times> descr) option \<Rightarrow> sim \<Rightarrow> int \<times> sim" where
  "sim_epoll_ctl ep cmd fd arg k =
     (if cmd = EPOLL_CTL_DEL
      then if sim_interest k fd = None then (-1, k) else (0, k\<lparr>sim_interest := (sim_interest k)(fd := None)\<rparr>)
      else case arg of
             None \<Rightarrow> (-1, k)
           | Some (ev, _) \<Rightarrow>
               if cmd = EPOLL_CTL_ADD
               then if sim_interest k fd \<noteq> None \<or> fd \<notin> set (sim_open k) then (-1, k)
                    else (0, k\<lparr>sim_interest := (sim_interest k)(fd \<mapsto> ev)\<rparr>)
               else if cmd = EPOLL_CTL_MOD
               then if sim_interest k fd = None then (-1, k)
                    else (0, k\<lparr>sim_interest := (sim_interest k)(fd \<mapsto> ev)\<rparr>)
               else (-1, k))"

definition sim_recv :: "descr \<Rightarrow> u64 \<Rightarrow> sim \<Rightarrow> recv_result \<times> sim" where
  "sim_recv fd n k =
     (case dropWhile (\<lambda>c. c = []) (sim_input k fd) of
        [] \<Rightarrow> (RecvFailed EAGAIN, k)
      | c # cs \<Rightarrow>
          if length c \<le> unat n then (Received c, k\<lparr>sim_input := (sim_input k)(fd := cs)\<rparr>)
          else (Received (take (unat n) c), k\<lparr>sim_input := (sim_input k)(fd := drop (unat n) c # cs)\<rparr>))"

definition sim_recvfrom :: "descr \<Rightarrow> nat \<Rightarrow> sim \<Rightarrow> (byte list \<times> sockaddr_in) option \<times> sim" where
  "sim_recvfrom fd n k =
     (case sim_datagrams k of [] \<Rightarrow> (None, k) | (d, a) # ds \<Rightarrow> (Some (take n d, a), k\<lparr>sim_datagrams := ds\<rparr>))"

definition sim_kernel :: "sim kernel" where
  "sim_kernel = \<lparr>
     k_epoll_create1 = (\<lambda>k. let (fd, k) = sim_alloc k in (fd, k\<lparr>sim_interest := Map.empty\<rparr>)),
     k_eventfd = sim_alloc,
     k_epoll_ctl = sim_epoll_ctl,
     k_read = (\<lambda>fd k. k),
     k_write = (\<lambda>fd k. k),
     k_close = (\<lambda>fd k. k\<lparr>sim_open := removeAll fd (sim_open k), sim_interest := (sim_interest k)(fd := None)\<rparr>),
     k_getpid = (\<lambda>k. 1),
     k_socket = (\<lambda>d t p. sim_alloc),
     k_setsockopt = (\<lambda>fd l n v k. (0, k)),
     k_bind = (\<lambda>fd a k. (0, k)),
     k_listen = (\<lambda>fd n k. (0, k)),
     k_connect = (\<lambda>fd a k. (sim_connect k, k)),
     k_accept = (\<lambda>fd k. let (c, k') = sim_alloc k
                        in ((c, sim_peer k), k'\<lparr>sim_nonblocking := removeAll c (sim_nonblocking k')\<rparr>)),
     k_getfl = (\<lambda>fd k. (2, k)),
     k_setfl = (\<lambda>fd fl k. k\<lparr>sim_nonblocking :=
                  (if fl AND O_NONBLOCK \<noteq> 0 then fd # sim_nonblocking k else removeAll fd (sim_nonblocking k))\<rparr>),
     k_getpeername = (\<lambda>fd k. ((0, sim_peer k), k)),
     k_getifaddrs = (\<lambda>k. (Some (sim_ifs k), k)),
     k_send = (\<lambda>fd bs fl k. (int (length bs), k\<lparr>sim_sent := sim_sent k @ [(fd, bs)]\<rparr>)),
     k_recv = sim_recv,
     k_sendto = (\<lambda>fd bs a k. (int (length bs), k\<lparr>sim_sent := sim_sent k @ [(fd, bs)]\<rparr>)),
     k_recvfrom = sim_recvfrom,
     k_timerfd_create = sim_alloc,
     k_timerfd_settime = (\<lambda>fd i v k. (0, k))\<rparr>"

lemma sim_epoll_laws: "epoll_laws sim_kernel (\<lambda>k _. sim_interest k)"
  by (auto simp: epoll_laws_def sim_kernel_def sim_epoll_ctl_def epoll_cmd_defs
      split: if_splits option.splits)

lemma sim_epoll_frame: "epoll_frame sim_kernel (\<lambda>k _. sim_interest k)"
proof -
  have "sim_interest (snd (sim_alloc k)) = sim_interest k" for k by (simp add: sim_alloc_def Let_def)
  moreover have "sim_interest (snd (sim_recv fd n k)) = sim_interest k" for fd n k
    by (auto simp: sim_recv_def split: list.splits)
  moreover have "sim_interest (snd (sim_recvfrom fd n k)) = sim_interest k" for fd n k
    by (auto simp: sim_recvfrom_def split: list.splits)
  ultimately show ?thesis by (simp add: epoll_frame_def sim_kernel_def Let_def case_prod_beta)
qed

end
