(* ===== verification/EpollLoop.thy ===== *)
theory EpollLoop
  imports Kernel
begin

text \<open>
  \<open>include/epoll_loop.h\<close> and \<open>src/epoll_loop.cpp\<close>: the table of callbacks by
  descriptor and direction, the cancellation tokens, and the queue of callbacks waiting to
  be destroyed. The callback type \<open>'cb\<close> is left open (the closures of the program are
  defined in the theories that create them); a state is the loop object together with the
  kernel state. Operations return their \<open>bool\<close>, the new loop and the new kernel.

  The fields \<open>fdToTimer_\<close> and \<open>timerToFd_\<close> and the parameter \<open>timeoutMs\<close> are never
  read by the sources and have no counterpart. \<open>Run\<close> and \<open>RunCallback\<close> execute
  closures and are modelled in theory \<open>Node\<close>; which callbacks an event selects is here.
\<close>

datatype io_direction = INPUT | OUTPUT

fun dir_bits :: "io_direction \<Rightarrow> u32" where
  "dir_bits INPUT = EPOLLIN"
| "dir_bits OUTPUT = EPOLLOUT"

fun GetOpposite :: "io_direction \<Rightarrow> io_direction" where
  "GetOpposite INPUT = OUTPUT"
| "GetOpposite OUTPUT = INPUT"

fun io_direction_ToString :: "io_direction \<Rightarrow> string" where
  "io_direction_ToString INPUT = ''INPUT''"
| "io_direction_ToString OUTPUT = ''OUTPUT''"

type_synonym fd_direction = "descr \<times> u32"
type_synonym token = u64
type_synonym afd_ref = nat \<comment> \<open>a \<open>shared_ptr<AsyncFd>\<close>\<close>

record 'cb callback_keeper =
  ck_callback :: 'cb
  ck_keepLink :: "afd_ref option"

record 'cb epoll_loop =
  epollHandle :: descr
  removeEvent :: descr
  stopEvent :: descr
  fdToCallback :: "(fd_direction \<times> 'cb callback_keeper) list"
  cancelMap :: "token \<rightharpoonup> descr \<times> io_direction"
  removeQueue :: "'cb list"
  nextToken :: token

definition new_loop :: "'cb epoll_loop" where
  "new_loop = \<lparr>epollHandle = -1, removeEvent = -1, stopEvent = -1, fdToCallback = [],
     cancelMap = Map.empty, removeQueue = [], nextToken = 1\<rparr>"

text \<open>\<open>fdToCallback_.find(FdDirection(fd, dir))\<close>\<close>

definition find_keeper :: "'cb epoll_loop \<Rightarrow> descr \<Rightarrow> u32 \<Rightarrow> 'cb callback_keeper option" where
  "find_keeper l fd ev = map_of (fdToCallback l) (fd, ev)"

definition EpollCtl :: "'k kernel \<Rightarrow> 'cb epoll_loop \<Rightarrow> descr \<Rightarrow> int \<Rightarrow> u32 \<Rightarrow> 'k \<Rightarrow> int \<times> 'k" where
  "EpollCtl K l fd cmd ev k =
     (if ev \<noteq> 0 then k_epoll_ctl K (epollHandle l) cmd fd (Some (ev, fd)) k
      else k_epoll_ctl K (epollHandle l) cmd fd None k)"

definition Init :: "'k kernel \<Rightarrow> 'cb epoll_loop \<Rightarrow> 'k \<Rightarrow> bool \<times> 'cb epoll_loop \<times> 'k" where
  "Init K l k =
     (let (h, k) = k_epoll_create1 K k; l = l\<lparr>epollHandle := h\<rparr>
      in if h = -1 then (False, l, k) else
      let (r, k) = k_eventfd K k; l = l\<lparr>removeEvent := r\<rparr>
      in if r = -1 then (False, l, k) else
      let (s, k) = k_eventfd K k; l = l\<lparr>stopEvent := s\<rparr>
      in if s = -1 then (False, l, k) else
      let (c, k) = EpollCtl K l (removeEvent l) EPOLL_CTL_ADD EPOLLIN k
      in if c = -1 then (False, l, k) else
      let (c, k) = EpollCtl K l (stopEvent l) EPOLL_CTL_ADD EPOLLIN k
      in if c = -1 then (False, l, k) else (True, l, k))"

definition Stop :: "'k kernel \<Rightarrow> 'cb epoll_loop \<Rightarrow> 'k \<Rightarrow> 'k" where
  "Stop K l k = k_write K (stopEvent l) k"

definition destroy_loop :: "'k kernel \<Rightarrow> 'cb epoll_loop \<Rightarrow> 'k \<Rightarrow> 'k" where
  "destroy_loop K l k =
     k_close K (stopEvent l) (k_close K (removeEvent l) (k_close K (epollHandle l) (Stop K l k)))"

definition UtilizeCallback :: "'k kernel \<Rightarrow> 'cb \<Rightarrow> 'cb epoll_loop \<Rightarrow> 'k \<Rightarrow> 'cb epoll_loop \<times> 'k" where
  "UtilizeCallback K cb l k =
     (l\<lparr>removeQueue := removeQueue l @ [cb]\<rparr>, k_write K (removeEvent l) k)"

text \<open>
  \<open>token\<close> is a reference parameter: the second component of the result is its value
  after the call.
\<close>

definition RegisterAction ::
  "'k kernel \<Rightarrow> descr \<Rightarrow> io_direction \<Rightarrow> 'cb \<Rightarrow> token \<Rightarrow> afd_ref option \<Rightarrow> 'cb epoll_loop \<Rightarrow> 'k
     \<Rightarrow> fault + (bool \<times> token) \<times> 'cb epoll_loop \<times> 'k" where
  "RegisterAction K fd dir cb token afd l k =
     (if token \<noteq> 0 then Inl AssertFailure
      else case find_keeper l fd (dir_bits dir) of
        Some _ \<Rightarrow> Inr ((False, token), l, k)
      | None \<Rightarrow>
          let (cmd, events) =
                (case find_keeper l fd (dir_bits (GetOpposite dir)) of
                   Some _ \<Rightarrow> (EPOLL_CTL_MOD, 0 OR dir_bits INPUT OR dir_bits OUTPUT)
                 | None \<Rightarrow> (EPOLL_CTL_ADD, dir_bits dir));
              (r, k) = EpollCtl K l fd cmd (events OR EPOLLHUP OR EPOLLERR) k
          in if r = -1 then Inr ((False, token), l, k)
             else Inr ((True, nextToken l),
                    l\<lparr>fdToCallback := al_emplace (fd, dir_bits dir)
                         \<lparr>ck_callback = cb, ck_keepLink = afd\<rparr> (fdToCallback l),
                      cancelMap := map_emplace (nextToken l) (fd, dir) (cancelMap l),
                      nextToken := nextToken l + 1\<rparr>, k))"

definition ReplaceAction ::
  "'k kernel \<Rightarrow> token \<Rightarrow> 'cb \<Rightarrow> 'cb epoll_loop \<Rightarrow> 'k \<Rightarrow> fault + bool \<times> 'cb epoll_loop \<times> 'k" where
  "ReplaceAction K token cb l k =
     (if \<not> token > 0 then Inl AssertFailure
      else case cancelMap l token of
        None \<Rightarrow> Inr (False, l, k)
      | Some (fd, dir) \<Rightarrow>
          (case find_keeper l fd (dir_bits dir) of
             None \<Rightarrow> Inr (False, l, k)
           | Some keeper \<Rightarrow>
               let (l, k) = UtilizeCallback K (ck_callback keeper) l k
               in Inr (True, l\<lparr>fdToCallback := al_assign (fd, dir_bits dir)
                                (keeper\<lparr>ck_callback := cb\<rparr>) (fdToCallback l)\<rparr>, k)))"

definition DeregisterAction ::
  "'k kernel \<Rightarrow> token \<Rightarrow> 'cb epoll_loop \<Rightarrow> 'k \<Rightarrow> bool \<times> 'cb epoll_loop \<times> 'k" where
  "DeregisterAction K token l k =
     (case cancelMap l token of
        None \<Rightarrow> (False, l, k)
      | Some (fd, dir) \<Rightarrow>
          (case find_keeper l fd (dir_bits dir) of
             None \<Rightarrow> (False, l\<lparr>cancelMap := map_erase token (cancelMap l)\<rparr>, k)
           | Some keeper \<Rightarrow>
               let (l, k) = UtilizeCallback K (ck_callback keeper) l k;
                   l = l\<lparr>fdToCallback := al_erase (fd, dir_bits dir) (fdToCallback l)\<rparr>;
                   l = l\<lparr>cancelMap := map_erase token (cancelMap l)\<rparr>;
                   (cmd, events) =
                     (case find_keeper l fd (dir_bits (GetOpposite dir)) of
                        Some _ \<Rightarrow> (EPOLL_CTL_MOD, 0 OR dir_bits (GetOpposite dir))
                      | None \<Rightarrow> (EPOLL_CTL_DEL, dir_bits dir));
                   (r, k) = EpollCtl K l fd cmd events k
               in if r = -1 then (False, l, k) else (True, l, k)))"

text \<open>One of the two halves of \<open>DeregisterFd\<close>: drop the callback of one direction.\<close>

definition drop_callback ::
  "'k kernel \<Rightarrow> descr \<Rightarrow> u32 \<Rightarrow> bool \<Rightarrow> 'cb epoll_loop \<Rightarrow> 'k \<Rightarrow> bool \<times> 'cb epoll_loop \<times> 'k" where
  "drop_callback K fd ev got l k =
     (case find_keeper l fd ev of
        None \<Rightarrow> (got, l, k)
      | Some keeper \<Rightarrow>
          let l = l\<lparr>fdToCallback := al_erase (fd, ev) (fdToCallback l)\<rparr>;
              (l, k) = UtilizeCallback K (ck_callback keeper) l k
          in (True, l, k))"

definition DeregisterFd ::
  "'k kernel \<Rightarrow> descr \<Rightarrow> 'cb epoll_loop \<Rightarrow> 'k \<Rightarrow> bool \<times> 'cb epoll_loop \<times> 'k" where
  "DeregisterFd K fd l k =
     (let (got, l, k) = drop_callback K fd EPOLLIN False l k;
          (got, l, k) = drop_callback K fd EPOLLOUT got l k;
          k = (if got then snd (EpollCtl K l fd EPOLL_CTL_DEL 0 k) else k)
      in (True, l, k))"

text \<open>
  The tail of the loop in \<open>Run\<close>: which entries of the table an event mask runs, and
  with which result. An error or hang-up runs both directions with an error; otherwise
  input excludes output.
\<close>

definition callbacks_of_event :: "u32 \<Rightarrow> (u32 \<times> unit io_result) list" where
  "callbacks_of_event ev =
     (if ev AND EPOLLHUP \<noteq> 0 \<or> ev AND EPOLLERR \<noteq> 0
      then [(EPOLLIN, Err IoFailed), (EPOLLOUT, Err IoFailed)]
      else if ev AND EPOLLIN \<noteq> 0 then [(EPOLLIN, Ok ())]
      else if ev AND EPOLLOUT \<noteq> 0 then [(EPOLLOUT, Ok ())]
      else [])"

section \<open>Lookups after each operation\<close>

named_theorems loop_simps \<open>the callback table after a change\<close>

lemma dir_bits_simps [simp]: "dir_bits d \<noteq> 0" "dir_bits d = dir_bits e \<longleftrightarrow> d = e"
  "dir_bits (GetOpposite d) \<noteq> dir_bits d" "GetOpposite (GetOpposite d) = d" "GetOpposite d \<noteq> d"
  by (cases d; cases e; simp add: EPOLLIN_def EPOLLOUT_def)+

lemma find_keeper_frame [simp]:
  "find_keeper (l\<lparr>removeQueue := q\<rparr>) = find_keeper l"
  "find_keeper (l\<lparr>cancelMap := c\<rparr>) = find_keeper l"
  "find_keeper (l\<lparr>nextToken := n\<rparr>) = find_keeper l"
  by (simp_all add: find_keeper_def fun_eq_iff)

lemma find_keeper_table [simp]: "find_keeper (l\<lparr>fdToCallback := t\<rparr>) fd ev = map_of t (fd, ev)"
  by (simp add: find_keeper_def)

lemma map_of_table [simp]: "map_of (fdToCallback l) (fd, ev) = find_keeper l fd ev"
  by (simp add: find_keeper_def)

lemma table_emplace [loop_simps]:
  "find_keeper l fd ev = None \<Longrightarrow>
     map_of (al_emplace (fd, ev) c (fdToCallback l)) (fd', ev') =
       (if fd' = fd \<and> ev' = ev then Some c else find_keeper l fd' ev')"
  by simp

lemma table_assign [loop_simps]:
  "find_keeper l fd ev = Some c' \<Longrightarrow>
     map_of (al_assign (fd, ev) c (fdToCallback l)) (fd', ev') =
       (if fd' = fd \<and> ev' = ev then Some c else find_keeper l fd' ev')"
  by simp

lemma table_erase [loop_simps]:
  "map_of (al_erase (fd, ev) (fdToCallback l)) (fd', ev') =
     (if fd' = fd \<and> ev' = ev then None else find_keeper l fd' ev')"
  by (simp add: map_erase_def)

section \<open>Registration\<close>

lemma RegisterAction_True:
  assumes "RegisterAction K fd dir cb tok afd l k = Inr ((True, t), l', k')"
  shows "tok = 0" and "find_keeper l fd (dir_bits dir) = None" and "t = nextToken l"
    and "l' = l\<lparr>fdToCallback := al_emplace (fd, dir_bits dir) \<lparr>ck_callback = cb, ck_keepLink = afd\<rparr> (fdToCallback l),
           cancelMap := map_emplace (nextToken l) (fd, dir) (cancelMap l), nextToken := nextToken l + 1\<rparr>"
  using assms
  by (auto simp: RegisterAction_def Let_def split: if_splits option.splits prod.splits)

lemma RegisterAction_False:
  assumes "RegisterAction K fd dir cb tok afd l k = Inr ((False, t), l', k')"
  shows "l' = l" and "t = tok"
  using assms
  by (auto simp: RegisterAction_def Let_def split: if_splits option.splits prod.splits)

lemma RegisterAction_no_fault: "tok = 0 \<Longrightarrow> \<exists>r. RegisterAction K fd dir cb tok afd l k = Inr r"
  by (auto simp: RegisterAction_def Let_def split: option.splits prod.splits)

lemma RegisterAction_handles [frame_simps]:
  assumes "RegisterAction K fd dir cb tok afd l k = Inr (r, l', k')"
  shows "epollHandle l' = epollHandle l" "removeEvent l' = removeEvent l" "stopEvent l' = stopEvent l"
    "removeQueue l' = removeQueue l"
  using assms
  by (auto simp: RegisterAction_def Let_def split: if_splits option.splits prod.splits)

lemma find_keeper_registered:
  assumes "RegisterAction K fd dir cb tok afd l k = Inr ((True, t), l', k')"
  shows "find_keeper l' fd' ev' =
    (if fd' = fd \<and> ev' = dir_bits dir then Some \<lparr>ck_callback = cb, ck_keepLink = afd\<rparr>
     else find_keeper l fd' ev')"
  using RegisterAction_True [OF assms] by (simp add: loop_simps)

section \<open>Replacing and deregistering\<close>

lemma ReplaceAction_True:
  assumes "ReplaceAction K tok cb l k = Inr (True, l', k')"
  obtains fd dir c where "cancelMap l tok = Some (fd, dir)" "find_keeper l fd (dir_bits dir) = Some c"
    "k' = k_write K (removeEvent l) k"
    "l' = l\<lparr>removeQueue := removeQueue l @ [ck_callback c],
            fdToCallback := al_assign (fd, dir_bits dir) (c\<lparr>ck_callback := cb\<rparr>) (fdToCallback l)\<rparr>"
  using assms
  by (auto simp: ReplaceAction_def UtilizeCallback_def Let_def split: if_splits option.splits prod.splits)

lemma ReplaceAction_False:
  assumes "ReplaceAction K tok cb l k = Inr (False, l', k')"
  shows "l' = l" and "k' = k"
  using assms
  by (auto simp: ReplaceAction_def UtilizeCallback_def Let_def split: if_splits option.splits prod.splits)

lemma ReplaceAction_no_fault: "0 < tok \<Longrightarrow> \<exists>r. ReplaceAction K tok cb l k = Inr r"
  by (auto simp: ReplaceAction_def UtilizeCallback_def Let_def split: option.splits prod.splits)

lemma find_keeper_replaced:
  assumes "ReplaceAction K tok cb l k = Inr (True, l', k')" and "cancelMap l tok = Some (fd, dir)"
  shows "find_keeper l' fd' ev' =
    (if fd' = fd \<and> ev' = dir_bits dir then map_option (\<lambda>c. c\<lparr>ck_callback := cb\<rparr>) (find_keeper l fd ev')
     else find_keeper l fd' ev')"
  using assms(1)
proof (rule ReplaceAction_True)
  fix f d c
  assume "cancelMap l tok = Some (f, d)" and c: "find_keeper l f (dir_bits d) = Some c"
    and l': "l' = l\<lparr>removeQueue := removeQueue l @ [ck_callback c],
            fdToCallback := al_assign (f, dir_bits d) (c\<lparr>ck_callback := cb\<rparr>) (fdToCallback l)\<rparr>"
  with assms(2) have "f = fd" "d = dir" by simp_all
  with c l' show ?thesis by (auto simp: loop_simps)
qed

lemma DeregisterAction_table:
  assumes "DeregisterAction K tok l k = (b, l', k')"
  shows "find_keeper l' fd ev =
      (case cancelMap l tok of
         Some (f, d) \<Rightarrow> if f = fd \<and> dir_bits d = ev then None else find_keeper l fd ev
       | None \<Rightarrow> find_keeper l fd ev)"
    and "cancelMap l' = map_erase tok (cancelMap l)"
    and "nextToken l' = nextToken l" and "epollHandle l' = epollHandle l"
    and "removeEvent l' = removeEvent l" and "stopEvent l' = stopEvent l"
  using assms
  by (auto simp: DeregisterAction_def UtilizeCallback_def Let_def loop_simps map_erase_def
      split: if_splits option.splits prod.splits)

lemma drop_callback_table:
  assumes "drop_callback K fd ev got l k = (b, l', k')"
  shows "find_keeper l' fd' ev' = (if fd' = fd \<and> ev' = ev then None else find_keeper l fd' ev')"
    and "cancelMap l' = cancelMap l" and "nextToken l' = nextToken l" and "epollHandle l' = epollHandle l"
    and "removeEvent l' = removeEvent l" and "stopEvent l' = stopEvent l"
    and "b \<longleftrightarrow> got \<or> find_keeper l fd ev \<noteq> None"
  using assms
  by (auto simp: drop_callback_def UtilizeCallback_def Let_def loop_simps
      split: if_splits option.splits prod.splits)

lemma DeregisterFd_table:
  assumes "DeregisterFd K fd l k = (b, l', k')"
  shows "find_keeper l' fd' ev' =
      (if fd' = fd \<and> (ev' = EPOLLIN \<or> ev' = EPOLLOUT) then None else find_keeper l fd' ev')"
    and "cancelMap l' = cancelMap l" and "nextToken l' = nextToken l" and "epollHandle l' = epollHandle l"
    and "removeEvent l' = removeEvent l" and "stopEvent l' = stopEvent l" and "b"
proof -
  obtain b1 l1 k1 where 1: "drop_callback K fd EPOLLIN False l k = (b1, l1, k1)"
    by (cases "drop_callback K fd EPOLLIN False l k")
  obtain b2 l2 k2 where 2: "drop_callback K fd EPOLLOUT b1 l1 k1 = (b2, l2, k2)"
    by (cases "drop_callback K fd EPOLLOUT b1 l1 k1")
  from assms have "l' = l2" "b" by (simp_all add: DeregisterFd_def 1 2 Let_def)
  with drop_callback_table [OF 1] drop_callback_table [OF 2]
  show "find_keeper l' fd' ev' =
      (if fd' = fd \<and> (ev' = EPOLLIN \<or> ev' = EPOLLOUT) then None else find_keeper l fd' ev')"
    "cancelMap l' = cancelMap l" "nextToken l' = nextToken l" "epollHandle l' = epollHandle l"
    "removeEvent l' = removeEvent l" "stopEvent l' = stopEvent l" b by auto
qed

section \<open>The interface the asynchronous descriptors use\<close>

text \<open>
  A table of callbacks by address, with tokens that own an address: what a successful
  registration, a replacement and a deregistration promise. \<open>room\<close> says that the next
  token is free.
\<close>

locale callback_table =
  fixes look :: "'s \<Rightarrow> 'a \<Rightarrow> 'c option" and owner :: "'s \<Rightarrow> 't \<Rightarrow> 'a option"
    and reg :: "'a \<Rightarrow> 'c \<Rightarrow> 's \<Rightarrow> ('t \<times> 's) option" and rpl :: "'t \<Rightarrow> 'c \<Rightarrow> 's \<Rightarrow> 's option"
    and dereg :: "'t \<Rightarrow> 's \<Rightarrow> 's" and room :: "'s \<Rightarrow> bool"
  assumes look_reg: "reg a c s = Some (t, s') \<Longrightarrow> look s a = None \<and> look s' = (look s)(a \<mapsto> c)"
    and owner_reg: "reg a c s = Some (t, s') \<Longrightarrow> room s \<Longrightarrow> owner s t = None \<and> owner s' = (owner s)(t \<mapsto> a)"
    and look_rpl: "rpl t c s = Some s' \<Longrightarrow> owner s t = Some a \<Longrightarrow>
      look s a \<noteq> None \<and> look s' = (look s)(a \<mapsto> c) \<and> owner s' = owner s"
    and look_dereg: "owner s t = Some a \<Longrightarrow> look (dereg t s) = (look s)(a := None)"
    and owner_dereg: "owner s t = Some a \<Longrightarrow> owner (dereg t s) = (owner s)(t := None)"
begin

lemma reg_dereg:
  assumes "reg a c s = Some (t, s')" and "room s"
  shows "look (dereg t s') = look s" and "owner (dereg t s') = owner s"
proof -
  from assms have "owner s' t = Some a" "look s a = None" "look s' = (look s)(a \<mapsto> c)"
    "owner s' = (owner s)(t \<mapsto> a)" "owner s t = None"
    using look_reg owner_reg by auto
  then show "look (dereg t s') = look s" "owner (dereg t s') = owner s"
    by (auto simp: look_dereg owner_dereg)
qed

lemma reg_rpl_look:
  assumes "reg a c s = Some (t, s')" and "room s" and "rpl t c' s' = Some s''"
  shows "look s'' = (look s)(a \<mapsto> c')" and "owner s'' = (owner s)(t \<mapsto> a)"
  using look_rpl [OF assms(3), of a] look_reg [OF assms(1)] owner_reg [OF assms(1,2)] by simp_all

lemma reg_rpl_dereg:
  assumes "reg a c s = Some (t, s')" and "room s" and "rpl t c' s' = Some s''"
  shows "look (dereg t s'') = look s" and "owner (dereg t s'') = owner s"
  using reg_rpl_look [OF assms] look_reg [OF assms(1)] owner_reg [OF assms(1,2)]
  by (auto simp: look_dereg owner_dereg)

lemma stale_dereg:
  assumes "owner s t = Some a" and "look s a = None" and "reg a c s = Some (t', s')" and "room s"
  shows "look (dereg t s') a = None" and "look s' a = Some c"
proof -
  from assms have "t \<noteq> t'" "owner s' t = Some a" using owner_reg by auto
  then show "look (dereg t s') a = None" by (simp add: look_dereg)
  from assms show "look s' a = Some c" using look_reg by auto
qed

end

definition loop_look :: "'cb epoll_loop \<times> 'k \<Rightarrow> descr \<times> io_direction \<Rightarrow> 'cb option" where
  "loop_look s a = map_option ck_callback (find_keeper (fst s) (fst a) (dir_bits (snd a)))"

definition loop_owner :: "'cb epoll_loop \<times> 'k \<Rightarrow> token \<Rightarrow> (descr \<times> io_direction) option" where
  "loop_owner s t = cancelMap (fst s) t"

definition loop_reg ::
  "'k kernel \<Rightarrow> afd_ref option \<Rightarrow> descr \<times> io_direction \<Rightarrow> 'cb \<Rightarrow> 'cb epoll_loop \<times> 'k
     \<Rightarrow> (token \<times> 'cb epoll_loop \<times> 'k) option" where
  "loop_reg K afd a c s =
     (case RegisterAction K (fst a) (snd a) c 0 afd (fst s) (snd s) of
        Inr ((True, t), s') \<Rightarrow> Some (t, s') | _ \<Rightarrow> None)"

definition loop_rpl :: "'k kernel \<Rightarrow> token \<Rightarrow> 'cb \<Rightarrow> 'cb epoll_loop \<times> 'k \<Rightarrow> ('cb epoll_loop \<times> 'k) option" where
  "loop_rpl K t c s = (case ReplaceAction K t c (fst s) (snd s) of Inr (True, s') \<Rightarrow> Some s' | _ \<Rightarrow> None)"

definition loop_dereg :: "'k kernel \<Rightarrow> token \<Rightarrow> 'cb epoll_loop \<times> 'k \<Rightarrow> 'cb epoll_loop \<times> 'k" where
  "loop_dereg K t s = snd (DeregisterAction K t (fst s) (snd s))"

definition loop_room :: "'cb epoll_loop \<times> 'k \<Rightarrow> bool" where
  "loop_room s \<longleftrightarrow> cancelMap (fst s) (nextToken (fst s)) = None"

lemma loop_reg_SomeD:
  "loop_reg K afd a c s = Some (t, s') \<Longrightarrow>
     RegisterAction K (fst a) (snd a) c 0 afd (fst s) (snd s) = Inr ((True, t), fst s', snd s')"
  by (auto simp: loop_reg_def split: sum.splits prod.splits bool.splits)

lemma loop_rpl_SomeD:
  "loop_rpl K t c s = Some s' \<Longrightarrow> ReplaceAction K t c (fst s) (snd s) = Inr (True, fst s', snd s')"
  by (auto simp: loop_rpl_def split: sum.splits prod.splits bool.splits)

interpretation ep: callback_table loop_look loop_owner "loop_reg K afd" "loop_rpl K" "loop_dereg K" loop_room
  for K :: "'k kernel" and afd :: "afd_ref option"
proof unfold_locales
  fix a c t and s s' :: "'cb epoll_loop \<times> 'k"
  assume "loop_reg K afd a c s = Some (t, s')"
  then have r: "RegisterAction K (fst a) (snd a) c 0 afd (fst s) (snd s) = Inr ((True, t), fst s', snd s')"
    by (rule loop_reg_SomeD)
  show "loop_look s a = None \<and> loop_look s' = (loop_look s)(a \<mapsto> c)"
    using find_keeper_registered [OF r] RegisterAction_True(2) [OF r]
    by (cases a) (auto simp: loop_look_def fun_eq_iff)
  assume "loop_room s"
  with RegisterAction_True [OF r]
  show "loop_owner s t = None \<and> loop_owner s' = (loop_owner s)(t \<mapsto> a)"
    by (auto simp: loop_owner_def loop_room_def fun_eq_iff)
next
  fix t c a and s s' :: "'cb epoll_loop \<times> 'k"
  assume "loop_rpl K t c s = Some s'" and own: "loop_owner s t = Some a"
  then have r: "ReplaceAction K t c (fst s) (snd s) = Inr (True, fst s', snd s')"
    by (simp add: loop_rpl_SomeD)
  from own have cm: "cancelMap (fst s) t = Some (fst a, snd a)" by (simp add: loop_owner_def)
  from r show "loop_look s a \<noteq> None \<and> loop_look s' = (loop_look s)(a \<mapsto> c) \<and> loop_owner s' = loop_owner s"
  proof (rule ReplaceAction_True)
    fix f d keeper
    assume "cancelMap (fst s) t = Some (f, d)" and "find_keeper (fst s) f (dir_bits d) = Some keeper"
      and "fst s' = (fst s)\<lparr>removeQueue := removeQueue (fst s) @ [ck_callback keeper],
            fdToCallback := al_assign (f, dir_bits d) (keeper\<lparr>ck_callback := c\<rparr>) (fdToCallback (fst s))\<rparr>"
    with cm find_keeper_replaced [OF r cm] show ?thesis
      by (cases a) (auto simp: loop_look_def loop_owner_def fun_eq_iff)
  qed
next
  fix t a and s :: "'cb epoll_loop \<times> 'k"
  assume own: "loop_owner s t = Some a"
  obtain b l' k' where d: "DeregisterAction K t (fst s) (snd s) = (b, l', k')"
    by (cases "DeregisterAction K t (fst s) (snd s)")
  note tab = DeregisterAction_table [OF d]
  from own show "loop_look (loop_dereg K t s) = (loop_look s)(a := None)"
    by (cases a) (auto simp: loop_look_def loop_dereg_def d tab(1) loop_owner_def fun_eq_iff)
  from own show "loop_owner (loop_dereg K t s) = (loop_owner s)(t := None)"
    by (auto simp: loop_dereg_def d tab(2) loop_owner_def map_erase_def)
qed

section \<open>What the table's operations do not change\<close>

text \<open>
  The only system calls of the operations above are \<open>epoll_ctl\<close> and the write to an
  event counter. Whatever part \<open>obs\<close> of the kernel those two leave alone, they leave
  alone.
\<close>

definition quiet :: "'k kernel \<Rightarrow> ('k \<Rightarrow> 'o) \<Rightarrow> bool" where
  "quiet K obs \<longleftrightarrow>
     (\<forall>f k. obs (k_write K f k) = obs k) \<and> (\<forall>ep cmd f arg k. obs (snd (k_epoll_ctl K ep cmd f arg k)) = obs k)"

lemma quiet_EpollCtl: "quiet K obs \<Longrightarrow> EpollCtl K l fd cmd ev k = (r, k') \<Longrightarrow> obs k' = obs k"
  by (auto simp: quiet_def EpollCtl_def split: if_splits) (metis snd_conv)+

lemma quiet_Utilize: "quiet K obs \<Longrightarrow> UtilizeCallback K c l k = (l', k') \<Longrightarrow> obs k' = obs k"
  by (auto simp: quiet_def UtilizeCallback_def)

lemma quiet_write: "quiet K obs \<Longrightarrow> obs (k_write K f k) = obs k"
  by (simp add: quiet_def)

lemma quiet_RegisterAction:
  assumes "quiet K obs" and "RegisterAction K fd dir cb t afd l k = Inr (r, l', k')"
  shows "obs k' = obs k"
  using assms(2)
  by (auto simp: RegisterAction_def Let_def dest!: quiet_EpollCtl [OF assms(1)]
      split: if_splits option.splits prod.splits)

lemma quiet_ReplaceAction:
  assumes "quiet K obs" and "ReplaceAction K t cb l k = Inr (r, l', k')"
  shows "obs k' = obs k"
  using assms(2)
  by (auto simp: ReplaceAction_def Let_def dest!: quiet_Utilize [OF assms(1)]
      split: if_splits option.splits prod.splits)

lemma quiet_DeregisterAction:
  assumes "quiet K obs" and "DeregisterAction K t l k = (r, l', k')"
  shows "obs k' = obs k"
  using assms(2)
  by (auto simp: DeregisterAction_def Let_def dest!: quiet_Utilize [OF assms(1)] quiet_EpollCtl [OF assms(1)]
      split: if_splits option.splits prod.splits)

lemma quiet_drop_callback:
  assumes "quiet K obs" and "drop_callback K fd ev got l k = (r, l', k')"
  shows "obs k' = obs k"
  using assms(2)
  by (auto simp: drop_callback_def Let_def dest!: quiet_Utilize [OF assms(1)]
      split: option.splits prod.splits)

lemma quiet_DeregisterFd:
  assumes "quiet K obs" and "DeregisterFd K fd l k = (r, l', k')"
  shows "obs k' = obs k"
proof -
  obtain b1 l1 k1 where 1: "drop_callback K fd EPOLLIN False l k = (b1, l1, k1)"
    by (cases "drop_callback K fd EPOLLIN False l k")
  obtain b2 l2 k2 where 2: "drop_callback K fd EPOLLOUT b1 l1 k1 = (b2, l2, k2)"
    by (cases "drop_callback K fd EPOLLOUT b1 l1 k1")
  obtain r3 k3 where 3: "EpollCtl K l2 fd EPOLL_CTL_DEL 0 k2 = (r3, k3)"
    by (cases "EpollCtl K l2 fd EPOLL_CTL_DEL 0 k2")
  from assms(2) have "k' = k2 \<or> k' = k3"
    by (simp add: DeregisterFd_def 1 2 3 Let_def split: if_splits)
  then show ?thesis
    using quiet_drop_callback [OF assms(1) 1] quiet_drop_callback [OF assms(1) 2] quiet_EpollCtl [OF assms(1) 3]
    by auto
qed

end
