(* ===== verification/LoopInv.thy ===== *)
theory LoopInv
  imports EpollLoop
begin

text \<open>
  Invariants of the event loop over any sequence of its operations: the kernel watches a
  descriptor exactly for the directions that have a callback; every token owns one live
  entry of the table (until \<open>DeregisterFd\<close>, which leaves tokens behind); no callback is
  destroyed by an operation, it moves to the removal queue.
\<close>

section \<open>Operations as data\<close>

datatype 'cb loop_op =
    OpRegister descr io_direction 'cb "afd_ref option"
  | OpReplace token 'cb
  | OpDeregister token
  | OpDeregisterFd descr

fun exec_op :: "'k kernel \<Rightarrow> 'cb loop_op \<Rightarrow> 'cb epoll_loop \<times> 'k \<Rightarrow> fault + 'cb epoll_loop \<times> 'k" where
  "exec_op K (OpRegister fd dir cb afd) (l, k) =
     chain (RegisterAction K fd dir cb 0 afd l k) (\<lambda>(r, l, k). Inr (l, k))"
| "exec_op K (OpReplace t cb) (l, k) = chain (ReplaceAction K t cb l k) (\<lambda>(r, l, k). Inr (l, k))"
| "exec_op K (OpDeregister t) (l, k) = (let (r, l, k) = DeregisterAction K t l k in Inr (l, k))"
| "exec_op K (OpDeregisterFd fd) (l, k) = (let (r, l, k) = DeregisterFd K fd l k in Inr (l, k))"

fun exec_ops :: "'k kernel \<Rightarrow> 'cb loop_op list \<Rightarrow> 'cb epoll_loop \<times> 'k \<Rightarrow> fault + 'cb epoll_loop \<times> 'k" where
  "exec_ops K [] s = Inr s"
| "exec_ops K (x # xs) s = chain (exec_op K x s) (exec_ops K xs)"

lemma exec_op_cases:
  assumes "exec_op K x (l, k) = Inr (l', k')"
  obtains (same) fd dir cb afd r where "x = OpRegister fd dir cb afd" "l' = l"
      "RegisterAction K fd dir cb 0 afd l k = Inr ((False, r), l', k')"
  | (registered) fd dir cb afd t where "x = OpRegister fd dir cb afd"
      "RegisterAction K fd dir cb 0 afd l k = Inr ((True, t), l', k')"
  | (unreplaced) t cb where "x = OpReplace t cb" "l' = l" "k' = k"
  | (replaced) t cb where "x = OpReplace t cb" "ReplaceAction K t cb l k = Inr (True, l', k')"
  | (deregistered) t r where "x = OpDeregister t" "DeregisterAction K t l k = (r, l', k')"
  | (dropped) fd r where "x = OpDeregisterFd fd" "DeregisterFd K fd l k = (r, l', k')"
proof (cases x)
  case (OpRegister fd dir cb afd)
  with assms obtain r where r: "RegisterAction K fd dir cb 0 afd l k = Inr (r, l', k')"
    by (auto simp: chain_eq_Inr)
  obtain b t where bt: "r = (b, t)" by (cases r)
  show ?thesis
  proof (cases b)
    case True
    with r bt OpRegister show ?thesis by (intro that(2)) auto
  next
    case False
    with r bt have "RegisterAction K fd dir cb 0 afd l k = Inr ((False, t), l', k')" by simp
    with OpRegister RegisterAction_False(1) [OF this] show ?thesis by (intro that(1)) auto
  qed
next
  case (OpReplace t cb)
  with assms obtain r where r: "ReplaceAction K t cb l k = Inr (r, l', k')"
    by (auto simp: chain_eq_Inr)
  show ?thesis
  proof (cases r)
    case True
    with r OpReplace show ?thesis by (intro that(4)) auto
  next
    case False
    with r have "ReplaceAction K t cb l k = Inr (False, l', k')" by simp
    with OpReplace ReplaceAction_False [OF this] show ?thesis by (intro that(3)) auto
  qed
next
  case (OpDeregister t)
  with assms that(5) show ?thesis by (auto simp: Let_def split: prod.splits)
next
  case (OpDeregisterFd fd)
  with assms that(6) show ?thesis by (auto simp: Let_def split: prod.splits)
qed

section \<open>The table and the kernel agree\<close>

definition mask_of :: "'cb epoll_loop \<Rightarrow> descr \<Rightarrow> u32" where
  "mask_of l fd =
     (if find_keeper l fd EPOLLIN \<noteq> None then EPOLLIN else 0)
     OR (if find_keeper l fd EPOLLOUT \<noteq> None then EPOLLOUT else 0)"

definition watch_ok :: "u32 option \<Rightarrow> 'cb epoll_loop \<Rightarrow> descr \<Rightarrow> bool" where
  "watch_ok i l fd =
     (case i of None \<Rightarrow> mask_of l fd = 0
      | Some ev \<Rightarrow> ev AND (EPOLLIN OR EPOLLOUT) = mask_of l fd \<and> mask_of l fd \<noteq> 0)"

text \<open>The two event counters of the loop itself are watched without a callback.\<close>

definition watch_inv :: "('k \<Rightarrow> descr \<Rightarrow> descr \<rightharpoonup> u32) \<Rightarrow> 'cb epoll_loop \<times> 'k \<Rightarrow> bool" where
  "watch_inv interest s \<longleftrightarrow>
     (\<forall>fd. fd \<noteq> removeEvent (fst s) \<and> fd \<noteq> stopEvent (fst s) \<longrightarrow>
        watch_ok (interest (snd s) (epollHandle (fst s)) fd) (fst s) fd)"

lemma mask_of_cases:
  "mask_of l fd = 0 \<longleftrightarrow> find_keeper l fd EPOLLIN = None \<and> find_keeper l fd EPOLLOUT = None"
  by (auto simp: mask_of_def EPOLLIN_def EPOLLOUT_def)

lemma mask_of_dir: "find_keeper l fd (dir_bits d) \<noteq> None \<Longrightarrow> mask_of l fd \<noteq> 0"
  by (cases d) (auto simp: mask_of_cases)

lemma mask_of_eq:
  assumes "find_keeper l fd (dir_bits d) \<noteq> None"
  shows "mask_of l fd =
    (if find_keeper l fd (dir_bits (GetOpposite d)) \<noteq> None then dir_bits INPUT OR dir_bits OUTPUT else dir_bits d)"
  using assms by (cases d) (auto simp: mask_of_def)

lemma mask_of_eq_opposite:
  assumes "find_keeper l fd (dir_bits d) = None"
  shows "mask_of l fd =
    (if find_keeper l fd (dir_bits (GetOpposite d)) \<noteq> None then dir_bits (GetOpposite d) else 0)"
  using assms by (cases d) (auto simp: mask_of_def)

lemma mask_of_cong:
  "(\<And>ev. find_keeper l fd ev = find_keeper l' fd ev) \<Longrightarrow> mask_of l fd = mask_of l' fd"
  by (simp add: mask_of_def)

lemma watch_ok_cong: "mask_of l' fd = mask_of l fd \<Longrightarrow> watch_ok i l' fd = watch_ok i l fd"
  by (cases i) (simp_all add: watch_ok_def)

lemma watch_inv_cong:
  assumes "watch_inv interest (l, k)" and "\<And>fd ev. find_keeper l' fd ev = find_keeper l fd ev"
    and "epollHandle l' = epollHandle l" "removeEvent l' = removeEvent l" "stopEvent l' = stopEvent l"
    and "interest k' = interest k"
  shows "watch_inv interest (l', k')"
proof -
  have "watch_ok i l' fd = watch_ok i l fd" for i fd by (intro watch_ok_cong mask_of_cong assms(2))
  with assms show ?thesis by (simp add: watch_inv_def)
qed

lemma epoll_bits_nonzero [simp]: "EPOLLIN \<noteq> 0" "EPOLLOUT \<noteq> 0" "EPOLLHUP \<noteq> 0" "EPOLLERR \<noteq> 0"
  "EPOLLIN \<noteq> EPOLLOUT" "EPOLLOUT \<noteq> EPOLLIN"
  by (simp_all add: EPOLLIN_def EPOLLOUT_def EPOLLHUP_def EPOLLERR_def)

lemma register_mask_bits [simp]:
  "(dir_bits d OR EPOLLHUP OR EPOLLERR) AND (EPOLLIN OR EPOLLOUT) = dir_bits d"
  "((EPOLLIN OR EPOLLOUT) OR EPOLLHUP OR EPOLLERR) AND (EPOLLIN OR EPOLLOUT) = EPOLLIN OR EPOLLOUT"
  "dir_bits d AND (EPOLLIN OR EPOLLOUT) = dir_bits d"
  "dir_bits d OR EPOLLHUP OR EPOLLERR \<noteq> 0" "(EPOLLIN OR EPOLLOUT) OR EPOLLHUP OR EPOLLERR \<noteq> 0"
  by (cases d; simp add: EPOLLIN_def EPOLLOUT_def EPOLLHUP_def EPOLLERR_def)+

lemma watch_inv_register:
  assumes laws: "epoll_laws K interest" and inv: "watch_inv interest (l, k)"
    and reg: "RegisterAction K fd dir cb 0 afd l k = Inr ((ok, t), l', k')"
  shows "watch_inv interest (l', k')"
proof (cases ok)
  case False
  with reg have "RegisterAction K fd dir cb 0 afd l k = Inr ((False, t), l', k')" by simp
  then have l': "l' = l" by (rule RegisterAction_False(1))
  from reg False have "interest k' (epollHandle l) = interest k (epollHandle l)"
    by (auto simp: RegisterAction_def EpollCtl_def Let_def split: if_splits option.splits prod.splits
        dest: epoll_laws_fail [OF laws])
  with inv l' show ?thesis by (simp add: watch_inv_def)
next
  case True
  with reg have reg: "RegisterAction K fd dir cb 0 afd l k = Inr ((True, t), l', k')" by simp
  let ?opp = "find_keeper l fd (dir_bits (GetOpposite dir))"
  let ?ev = "(if ?opp \<noteq> None then dir_bits INPUT OR dir_bits OUTPUT else dir_bits dir) OR EPOLLHUP OR EPOLLERR"
  note tab = find_keeper_registered [OF reg]
  have handles: "epollHandle l' = epollHandle l" "removeEvent l' = removeEvent l" "stopEvent l' = stopEvent l"
    using RegisterAction_handles [OF reg] by auto
  from reg have i: "interest k' (epollHandle l) = (interest k (epollHandle l))(fd \<mapsto> ?ev)"
    by (auto simp: RegisterAction_def EpollCtl_def Let_def split: if_splits option.splits prod.splits
        dest: epoll_laws_add [OF laws] epoll_laws_mod [OF laws])
  show ?thesis
    unfolding watch_inv_def
  proof (intro allI impI)
    fix f assume f: "f \<noteq> removeEvent (fst (l', k')) \<and> f \<noteq> stopEvent (fst (l', k'))"
    show "watch_ok (interest (snd (l', k')) (epollHandle (fst (l', k'))) f) (fst (l', k')) f"
    proof (cases "f = fd")
      case True
      have "find_keeper l' fd (dir_bits dir) \<noteq> None" by (simp add: tab)
      from mask_of_eq [OF this] mask_of_dir [OF this] show ?thesis
        using True by (auto simp: watch_ok_def handles i tab)
    next
      case False
      then have "watch_ok w l' f = watch_ok w l f" for w
        by (intro watch_ok_cong mask_of_cong) (simp add: tab)
      with False f inv show ?thesis by (simp add: watch_inv_def handles i)
    qed
  qed
qed

lemma watch_inv_replace:
  assumes laws: "epoll_laws K interest" and inv: "watch_inv interest (l, k)"
    and rpl: "ReplaceAction K t cb l k = Inr (True, l', k')"
  shows "watch_inv interest (l', k')"
  using rpl
proof (rule ReplaceAction_True)
  fix fd dir c
  assume c: "cancelMap l t = Some (fd, dir)" "find_keeper l fd (dir_bits dir) = Some c"
    and k': "k' = k_write K (removeEvent l) k"
    and l': "l' = l\<lparr>removeQueue := removeQueue l @ [ck_callback c],
            fdToCallback := al_assign (fd, dir_bits dir) (c\<lparr>ck_callback := cb\<rparr>) (fdToCallback l)\<rparr>"
  have "watch_ok w l' f = watch_ok w l f" for w f
    using find_keeper_replaced [OF rpl c(1)] c(2) by (intro watch_ok_cong) (auto simp: mask_of_def)
  moreover have "epollHandle l' = epollHandle l" "removeEvent l' = removeEvent l" "stopEvent l' = stopEvent l"
    by (simp_all add: l')
  ultimately show ?thesis
    using inv by (simp add: watch_inv_def k' epoll_laws_write [OF laws])
qed

text \<open>The effect of one \<open>EpollCtl\<close> on the interest list.\<close>

lemma EpollCtl_other:
  assumes "epoll_laws K interest" and "EpollCtl K l fd cmd ev k = (r, k')" and "f \<noteq> fd"
    and "cmd = EPOLL_CTL_DEL \<or> cmd = EPOLL_CTL_MOD \<and> ev \<noteq> 0"
  shows "interest k' (epollHandle l) f = interest k (epollHandle l) f"
proof (cases "r = -1")
  case True
  with assms show ?thesis
    by (auto simp: EpollCtl_def dest: epoll_laws_fail [OF assms(1)] split: if_splits)
next
  case False
  with assms show ?thesis
    by (auto simp: EpollCtl_def dest: epoll_laws_del [OF assms(1)] epoll_laws_mod [OF assms(1)] split: if_splits)
qed

lemma EpollCtl_DEL:
  assumes "epoll_laws K interest" and "EpollCtl K l fd EPOLL_CTL_DEL ev k = (r, k')"
    and "interest k (epollHandle l) fd \<noteq> None"
  shows "interest k' (epollHandle l) fd = None"
proof -
  from assms(2) obtain arg where q: "k_epoll_ctl K (epollHandle l) EPOLL_CTL_DEL fd arg k = (r, k')"
    by (auto simp: EpollCtl_def split: if_splits)
  from epoll_laws_del [OF assms(1) q epoll_laws_del_ok [OF assms(1) q assms(3)]] show ?thesis by simp
qed

lemma EpollCtl_MOD:
  assumes "epoll_laws K interest" and "EpollCtl K l fd EPOLL_CTL_MOD ev k = (r, k')" and "ev \<noteq> 0"
    and "interest k (epollHandle l) fd \<noteq> None"
  shows "interest k' (epollHandle l) fd = Some ev"
proof -
  from assms(2,3) have q: "k_epoll_ctl K (epollHandle l) EPOLL_CTL_MOD fd (Some (ev, fd)) k = (r, k')"
    by (simp add: EpollCtl_def)
  from epoll_laws_mod [OF assms(1) q epoll_laws_mod_ok [OF assms(1) q assms(4)]] show ?thesis by simp
qed

lemma watch_ok_watched: "watch_ok i l fd \<Longrightarrow> mask_of l fd \<noteq> 0 \<Longrightarrow> i \<noteq> None"
  by (auto simp: watch_ok_def split: option.splits)

text \<open>
  An operation that changes the callbacks of one descriptor keeps the invariant if it does
  so for that descriptor and leaves the interest in every other one alone.
\<close>

lemma watch_inv_one_descr:
  assumes inv: "watch_inv interest (l, k)"
    and frame: "epollHandle l' = epollHandle l" "removeEvent l' = removeEvent l" "stopEvent l' = stopEvent l"
    and others: "\<And>f ev. f \<noteq> fd \<Longrightarrow> find_keeper l' f ev = find_keeper l f ev"
      "\<And>f. f \<noteq> fd \<Longrightarrow> interest k' (epollHandle l) f = interest k (epollHandle l) f"
    and here: "watch_ok (interest k (epollHandle l) fd) l fd \<Longrightarrow> watch_ok (interest k' (epollHandle l) fd) l' fd"
  shows "watch_inv interest (l', k')"
  unfolding watch_inv_def
proof (intro allI impI)
  fix f assume f: "f \<noteq> removeEvent (fst (l', k')) \<and> f \<noteq> stopEvent (fst (l', k'))"
  with inv frame have ok: "watch_ok (interest k (epollHandle l) f) l f" by (simp add: watch_inv_def)
  show "watch_ok (interest (snd (l', k')) (epollHandle (fst (l', k'))) f) (fst (l', k')) f"
  proof (cases "f = fd")
    case True
    with here ok frame show ?thesis by simp
  next
    case False
    then have "watch_ok w l' f = watch_ok w l f" for w by (intro watch_ok_cong mask_of_cong others)
    with False ok frame others(2) show ?thesis by simp
  qed
qed

lemma watch_inv_deregister:
  assumes laws: "epoll_laws K interest" and inv: "watch_inv interest (l, k)"
    and dereg: "DeregisterAction K t l k = (r, l', k')"
  shows "watch_inv interest (l', k')"
proof (cases "\<exists>fd dir c. cancelMap l t = Some (fd, dir) \<and> find_keeper l fd (dir_bits dir) = Some c")
  case False
  with dereg have "l' = l \<or> l' = l\<lparr>cancelMap := map_erase t (cancelMap l)\<rparr>" "k' = k"
    by (auto simp: DeregisterAction_def split: option.splits)
  with inv show ?thesis by (auto intro: watch_inv_cong)
next
  case True
  then obtain fd dir c where c: "cancelMap l t = Some (fd, dir)" "find_keeper l fd (dir_bits dir) = Some c"
    by blast
  note tab = DeregisterAction_table [OF dereg]
  have look: "find_keeper l' f ev = (if f = fd \<and> ev = dir_bits dir then None else find_keeper l f ev)" for f ev
    using tab(1) c by auto
  let ?opp = "find_keeper l fd (dir_bits (GetOpposite dir))" and ?k0 = "k_write K (removeEvent l) k"
  obtain q where q: "EpollCtl K l fd (if ?opp \<noteq> None then EPOLL_CTL_MOD else EPOLL_CTL_DEL)
      (if ?opp \<noteq> None then dir_bits (GetOpposite dir) else dir_bits dir) ?k0 = (q, k')"
    using dereg c
    by (auto simp: DeregisterAction_def UtilizeCallback_def EpollCtl_def Let_def loop_simps
        split: if_splits option.splits prod.splits)
  have i0: "interest ?k0 = interest k" by (simp add: fun_eq_iff epoll_laws_write [OF laws])
  have none: "find_keeper l' fd (dir_bits dir) = None" by (simp add: look)
  show ?thesis
  proof (rule watch_inv_one_descr [OF inv tab(4-6), of fd])
    show "find_keeper l' f ev = find_keeper l f ev" if "f \<noteq> fd" for f ev
      using that by (simp add: look)
    show "interest k' (epollHandle l) f = interest k (epollHandle l) f" if "f \<noteq> fd" for f
      using EpollCtl_other [OF laws q that] by (simp add: i0)
    assume "watch_ok (interest k (epollHandle l) fd) l fd"
    then have watched: "interest ?k0 (epollHandle l) fd \<noteq> None"
      using watch_ok_watched mask_of_dir c(2) unfolding i0 by (metis option.distinct(1))
    show "watch_ok (interest k' (epollHandle l) fd) l' fd"
    proof (cases "?opp = None")
      case True
      with EpollCtl_DEL [OF laws _ watched] q mask_of_eq_opposite [OF none] show ?thesis
        by (simp add: watch_ok_def look)
    next
      case False
      with EpollCtl_MOD [OF laws _ _ watched] q mask_of_eq_opposite [OF none] show ?thesis
        by (simp add: watch_ok_def look)
    qed
  qed
qed

lemma watch_inv_deregister_fd:
  assumes laws: "epoll_laws K interest" and inv: "watch_inv interest (l, k)"
    and dereg: "DeregisterFd K fd l k = (r, l', k')"
  shows "watch_inv interest (l', k')"
proof -
  obtain b1 l1 k1 where 1: "drop_callback K fd EPOLLIN False l k = (b1, l1, k1)"
    by (cases "drop_callback K fd EPOLLIN False l k")
  obtain b2 l2 k2 where 2: "drop_callback K fd EPOLLOUT b1 l1 k1 = (b2, l2, k2)"
    by (cases "drop_callback K fd EPOLLOUT b1 l1 k1")
  have i: "interest k2 = interest k"
    using 1 2 by (auto simp: drop_callback_def UtilizeCallback_def Let_def fun_eq_iff epoll_laws_write [OF laws]
        split: option.splits)
  note tab = DeregisterFd_table [OF dereg] and t1 = drop_callback_table [OF 1] and t2 = drop_callback_table [OF 2]
  from dereg have k': "k' = (if b2 then snd (EpollCtl K l2 fd EPOLL_CTL_DEL 0 k2) else k2)"
    by (simp add: DeregisterFd_def 1 2 Let_def)
  have b2: "b2 \<longleftrightarrow> mask_of l fd \<noteq> 0"
    using t1 t2 by (auto simp: mask_of_cases EPOLLIN_def EPOLLOUT_def)
  have h: "epollHandle l2 = epollHandle l" using t1 t2 by simp
  show ?thesis
  proof (rule watch_inv_one_descr [OF inv tab(4-6), of fd])
    show "find_keeper l' f ev = find_keeper l f ev" if "f \<noteq> fd" for f ev
      using that by (simp add: tab(1))
    show "interest k' (epollHandle l) f = interest k (epollHandle l) f" if "f \<noteq> fd" for f
      using EpollCtl_other [OF laws _ that, of l2 EPOLL_CTL_DEL 0 k2] k' h i by (cases b2) (auto simp: prod_eq_iff)
    assume ok: "watch_ok (interest k (epollHandle l) fd) l fd"
    have "interest k' (epollHandle l) fd = None"
    proof (cases b2)
      case True
      with ok b2 have "interest k2 (epollHandle l2) fd \<noteq> None" by (simp add: watch_ok_watched i h)
      from EpollCtl_DEL [OF laws _ this] True show ?thesis by (simp add: k' h prod_eq_iff)
    next
      case False
      with ok b2 show ?thesis by (auto simp: k' i watch_ok_def split: option.splits)
    qed
    moreover have "mask_of l' fd = 0" by (simp add: mask_of_cases tab(1))
    ultimately show "watch_ok (interest k' (epollHandle l) fd) l' fd" by (simp add: watch_ok_def)
  qed
qed

lemma watch_inv_op:
  assumes "epoll_laws K interest" and "watch_inv interest s" and "exec_op K x s = Inr s'"
  shows "watch_inv interest s'"
proof -
  obtain l k l' k' where s: "s = (l, k)" "s' = (l', k')" by (cases s; cases s')
  from assms(3) have "exec_op K x (l, k) = Inr (l', k')" by (simp add: s)
  then show ?thesis
  proof (cases rule: exec_op_cases)
    case (same fd dir cb afd r)
    with watch_inv_register [OF assms(1)] assms(2) show ?thesis by (simp add: s)
  next
    case (registered fd dir cb afd t)
    with watch_inv_register [OF assms(1)] assms(2) show ?thesis by (simp add: s)
  next
    case (unreplaced t cb)
    with assms(2) show ?thesis by (simp add: s)
  next
    case (replaced t cb)
    with watch_inv_replace [OF assms(1)] assms(2) show ?thesis by (simp add: s)
  next
    case (deregistered t r)
    with watch_inv_deregister [OF assms(1)] assms(2) show ?thesis by (simp add: s)
  next
    case (dropped fd r)
    with watch_inv_deregister_fd [OF assms(1)] assms(2) show ?thesis by (simp add: s)
  qed
qed

lemma watch_inv_ops:
  "epoll_laws K interest \<Longrightarrow> watch_inv interest s \<Longrightarrow> exec_ops K xs s = Inr s' \<Longrightarrow> watch_inv interest s'"
proof (induction xs arbitrary: s)
  case Nil
  then show ?case by simp
next
  case (Cons x xs)
  then obtain t where "exec_op K x s = Inr t" "exec_ops K xs t = Inr s'" by (auto simp: chain_eq_Inr)
  with Cons watch_inv_op show ?case by blast
qed

section \<open>Tokens\<close>

text \<open>
  Every token is younger than the next one, owns an entry of the table, and every entry
  has exactly one owner.
\<close>

definition tokens_exact :: "'cb epoll_loop \<Rightarrow> bool" where
  "tokens_exact l \<longleftrightarrow>
     (\<forall>t a. cancelMap l t = Some a \<longrightarrow> t < nextToken l) \<and>
     (\<forall>t fd dir. cancelMap l t = Some (fd, dir) \<longrightarrow> find_keeper l fd (dir_bits dir) \<noteq> None) \<and>
     (\<forall>t t' a. cancelMap l t = Some a \<longrightarrow> cancelMap l t' = Some a \<longrightarrow> t = t') \<and>
     (\<forall>fd dir. find_keeper l fd (dir_bits dir) \<noteq> None \<longrightarrow> (\<exists>t. cancelMap l t = Some (fd, dir)))"

lemma tokens_exact_new_loop: "tokens_exact new_loop"
  by (simp add: tokens_exact_def new_loop_def find_keeper_def)

lemma tokens_exactD:
  assumes "tokens_exact l"
  shows "cancelMap l t = Some a \<Longrightarrow> t < nextToken l"
    and "cancelMap l t = Some (fd, dir) \<Longrightarrow> find_keeper l fd (dir_bits dir) \<noteq> None"
    and "cancelMap l t = Some a \<Longrightarrow> cancelMap l t' = Some a \<Longrightarrow> t = t'"
    and "find_keeper l fd (dir_bits dir) \<noteq> None \<Longrightarrow> \<exists>t. cancelMap l t = Some (fd, dir)"
  using assms unfolding tokens_exact_def by blast+

lemma tokens_exact_fresh: "tokens_exact l \<Longrightarrow> cancelMap l (nextToken l) = None"
  using tokens_exactD(1) [of l "nextToken l"] by (cases "cancelMap l (nextToken l)") auto

lemma less_succ_word:
  assumes "(n :: token) < -1" and "t < n \<or> t = n"
  shows "t < n + 1"
proof -
  from assms(1) have "1 + n \<noteq> 0" by (metis add.commute eq_neg_iff_add_eq_0 less_irrefl)
  then have "unat (n + 1) = Suc (unat n)" by (metis add.commute unatSuc)
  with assms(2) show ?thesis by (auto simp: word_less_nat_alt)
qed

lemma tokens_exact_register:
  assumes ex: "tokens_exact l" and room: "nextToken l < -1"
    and reg: "RegisterAction K fd dir cb 0 afd l k = Inr ((ok, t), l', k')"
  shows "tokens_exact l'"
proof (cases ok)
  case False
  with reg have "RegisterAction K fd dir cb 0 afd l k = Inr ((False, t), l', k')" by simp
  then have "l' = l" by (rule RegisterAction_False(1))
  with ex show ?thesis by simp
next
  case True
  with reg have reg: "RegisterAction K fd dir cb 0 afd l k = Inr ((True, t), l', k')" by simp
  note r = RegisterAction_True [OF reg] and tab = find_keeper_registered [OF reg]
  have own: "cancelMap l' = (cancelMap l)(nextToken l \<mapsto> (fd, dir))" and nxt: "nextToken l' = nextToken l + 1"
    using r(4) tokens_exact_fresh [OF ex] by simp_all
  note D = tokens_exactD [OF ex]
  show ?thesis
    unfolding tokens_exact_def own nxt
  proof (intro conjI allI impI)
    fix u a assume "((cancelMap l)(nextToken l \<mapsto> (fd, dir))) u = Some a"
    then have "u < nextToken l \<or> u = nextToken l" using D(1) by (auto split: if_splits)
    with room show "u < nextToken l + 1" by (rule less_succ_word)
  next
    fix u f d assume "((cancelMap l)(nextToken l \<mapsto> (fd, dir))) u = Some (f, d)"
    then show "find_keeper l' f (dir_bits d) \<noteq> None" using D(2) by (auto simp: tab split: if_splits)
  next
    fix u u' a
    assume "((cancelMap l)(nextToken l \<mapsto> (fd, dir))) u = Some a"
      and "((cancelMap l)(nextToken l \<mapsto> (fd, dir))) u' = Some a"
    then show "u = u'"
      using D(2) [of u fd dir] D(2) [of u' fd dir] D(3) [of u a u'] r(2) by (auto split: if_splits)
  next
    fix f d assume "find_keeper l' f (dir_bits d) \<noteq> None"
    then show "\<exists>u. ((cancelMap l)(nextToken l \<mapsto> (fd, dir))) u = Some (f, d)"
    proof (cases "f = fd \<and> d = dir")
      case True
      then show ?thesis by auto
    next
      case False
      with \<open>find_keeper l' f (dir_bits d) \<noteq> None\<close> have "find_keeper l f (dir_bits d) \<noteq> None"
        by (auto simp: tab split: if_splits)
      then obtain u where u: "cancelMap l u = Some (f, d)" using D(4) by blast
      with tokens_exact_fresh [OF ex] have "u \<noteq> nextToken l" by auto
      with u show ?thesis by auto
    qed
  qed
qed

lemma tokens_exact_replace:
  assumes ex: "tokens_exact l" and rpl: "ReplaceAction K t cb l k = Inr (True, l', k')"
  shows "tokens_exact l'"
  using rpl
proof (rule ReplaceAction_True)
  fix fd dir c
  assume c: "cancelMap l t = Some (fd, dir)" "find_keeper l fd (dir_bits dir) = Some c"
    and l': "l' = l\<lparr>removeQueue := removeQueue l @ [ck_callback c],
            fdToCallback := al_assign (fd, dir_bits dir) (c\<lparr>ck_callback := cb\<rparr>) (fdToCallback l)\<rparr>"
  have "cancelMap l' = cancelMap l" "nextToken l' = nextToken l" by (simp_all add: l')
  moreover have "find_keeper l' f ev = None \<longleftrightarrow> find_keeper l f ev = None" for f ev
    using find_keeper_replaced [OF rpl c(1)] by simp
  ultimately show ?thesis using ex by (simp add: tokens_exact_def)
qed

lemma tokens_exact_deregister:
  assumes ex: "tokens_exact l" and dereg: "DeregisterAction K t l k = (r, l', k')"
  shows "tokens_exact l'"
proof -
  note tab = DeregisterAction_table [OF dereg] and D = tokens_exactD [OF ex]
  show ?thesis
  proof (cases "cancelMap l t")
    case None
    with tab ex show ?thesis by (simp add: tokens_exact_def map_erase_def fun_upd_idem)
  next
    case (Some a)
    obtain fd dir where a: "a = (fd, dir)" by (cases a)
    have look: "find_keeper l' f (dir_bits d) = (if f = fd \<and> d = dir then None else find_keeper l f (dir_bits d))"
      for f d using tab(1) Some a by auto
    show ?thesis
      unfolding tokens_exact_def tab(2,3)
    proof (intro conjI allI impI)
      fix u f d assume u: "map_erase t (cancelMap l) u = Some (f, d)"
      then have "(f, d) \<noteq> (fd, dir)" using D(3) Some a by (auto simp: map_erase_Some)
      with u D(2) show "find_keeper l' f (dir_bits d) \<noteq> None" by (auto simp: look map_erase_Some)
    next
      fix f d assume "find_keeper l' f (dir_bits d) \<noteq> None"
      then have "find_keeper l f (dir_bits d) \<noteq> None" and ne: "(f, d) \<noteq> (fd, dir)"
        by (auto simp: look split: if_splits)
      then obtain u where u: "cancelMap l u = Some (f, d)" using D(4) by blast
      with ne Some a have "u \<noteq> t" by auto
      with u show "\<exists>u. map_erase t (cancelMap l) u = Some (f, d)" by (auto simp: map_erase_Some)
    qed (use D in \<open>auto simp: map_erase_Some\<close>)
  qed
qed

text \<open>
  \<open>DeregisterFd\<close> forgets the callbacks of a descriptor but not their tokens. Once the
  descriptor number is in use again, such a token names the entry of the new user.
\<close>

lemma stale_token:
  assumes own: "cancelMap l t = Some (fd, dir)" and fresh: "cancelMap l (nextToken l) = None"
    and drop: "DeregisterFd K fd l k = (b, l1, k1)"
    and reg: "RegisterAction K fd dir cb 0 afd l1 k2 = Inr ((True, t'), l2, k3)"
    and dereg: "DeregisterAction K t l2 k4 = (r, l3, k5)"
  shows "t' \<noteq> t" and "find_keeper l2 fd (dir_bits dir) = Some \<lparr>ck_callback = cb, ck_keepLink = afd\<rparr>"
    and "find_keeper l3 fd (dir_bits dir) = None" and "cancelMap l3 t' = Some (fd, dir)"
proof -
  note t1 = DeregisterFd_table [OF drop] and t2 = RegisterAction_True [OF reg]
    and t3 = DeregisterAction_table [OF dereg]
  show ne: "t' \<noteq> t" using own fresh t1 t2(3) by auto
  show "find_keeper l2 fd (dir_bits dir) = Some \<lparr>ck_callback = cb, ck_keepLink = afd\<rparr>"
    by (simp add: find_keeper_registered [OF reg])
  have own2: "cancelMap l2 = (cancelMap l)(t' \<mapsto> (fd, dir))" using t2 t1 fresh by simp
  with ne own have "cancelMap l2 t = Some (fd, dir)" by simp
  then show "find_keeper l3 fd (dir_bits dir) = None" by (simp add: t3(1))
  show "cancelMap l3 t' = Some (fd, dir)" using ne own2 by (simp add: t3(2))
qed

section \<open>No callback is destroyed by an operation\<close>

definition owned :: "'cb epoll_loop \<Rightarrow> 'cb \<Rightarrow> bool" where
  "owned l cb \<longleftrightarrow> (\<exists>fd ev c. find_keeper l fd ev = Some c \<and> ck_callback c = cb) \<or> cb \<in> set (removeQueue l)"

lemma ownedI: "find_keeper l fd ev = Some c \<Longrightarrow> owned l (ck_callback c)" "cb \<in> set (removeQueue l) \<Longrightarrow> owned l cb"
  by (auto simp: owned_def)

lemma owned_cases:
  assumes "owned l cb"
  obtains fd ev c where "find_keeper l fd ev = Some c" "cb = ck_callback c" | "cb \<in> set (removeQueue l)"
  using assms by (auto simp: owned_def)

lemma owned_register:
  assumes "RegisterAction K fd dir cb 0 afd l k = Inr ((True, t), l', k')" and "owned l c"
  shows "owned l' c"
  using assms(2)
proof (cases rule: owned_cases)
  case (1 f ev keeper)
  with RegisterAction_True(2) [OF assms(1)] have "find_keeper l' f ev = Some keeper"
    by (auto simp: find_keeper_registered [OF assms(1)])
  with 1 show ?thesis by (simp add: ownedI)
next
  case 2
  with RegisterAction_handles [OF assms(1)] show ?thesis by (simp add: ownedI)
qed

lemma owned_replace:
  assumes "ReplaceAction K t cb l k = Inr (True, l', k')" and "owned l c"
  shows "owned l' c"
  using assms(1)
proof (rule ReplaceAction_True)
  fix fd dir keeper
  assume k: "cancelMap l t = Some (fd, dir)" "find_keeper l fd (dir_bits dir) = Some keeper"
    and l': "l' = l\<lparr>removeQueue := removeQueue l @ [ck_callback keeper],
            fdToCallback := al_assign (fd, dir_bits dir) (keeper\<lparr>ck_callback := cb\<rparr>) (fdToCallback l)\<rparr>"
  from assms(2) show ?thesis
  proof (cases rule: owned_cases)
    case (1 f ev c')
    show ?thesis
    proof (cases "f = fd \<and> ev = dir_bits dir")
      case True
      with 1 k l' show ?thesis by (intro ownedI(2)) simp
    next
      case False
      then have "find_keeper l' f ev = find_keeper l f ev"
        using find_keeper_replaced [OF assms(1) k(1), of f ev] by auto
      with 1 show ?thesis by (simp add: ownedI)
    qed
  next
    case 2
    with l' show ?thesis by (intro ownedI(2)) simp
  qed
qed

lemma owned_deregister:
  assumes "DeregisterAction K t l k = (r, l', k')" and "owned l c"
  shows "owned l' c"
proof -
  note tab = DeregisterAction_table(1) [OF assms(1)]
  have q: "set (removeQueue l) \<subseteq> set (removeQueue l')"
    and moved: "cancelMap l t = Some (fd, dir) \<Longrightarrow> find_keeper l fd (dir_bits dir) = Some keeper \<Longrightarrow>
      ck_callback keeper \<in> set (removeQueue l')" for fd dir keeper
    using assms(1)
    by (auto simp: DeregisterAction_def UtilizeCallback_def Let_def split: option.splits prod.splits if_splits)
  from assms(2) show ?thesis
  proof (cases rule: owned_cases)
    case (1 f ev keeper)
    show ?thesis
    proof (cases "find_keeper l' f ev = Some keeper")
      case True
      with 1 show ?thesis by (simp add: ownedI)
    next
      case False
      with 1 tab [of f ev] obtain d where "cancelMap l t = Some (f, d)" "ev = dir_bits d"
        by (auto split: option.splits if_splits)
      with 1 moved show ?thesis by (simp add: ownedI(2))
    qed
  next
    case 2
    with q show ?thesis by (auto intro: ownedI(2))
  qed
qed

lemma owned_drop_callback:
  assumes "drop_callback K fd e got l k = (r, l', k')" and "owned l c"
  shows "owned l' c"
proof -
  have q: "set (removeQueue l) \<subseteq> set (removeQueue l')"
    and moved: "find_keeper l fd e = Some keeper \<Longrightarrow> ck_callback keeper \<in> set (removeQueue l')" for keeper
    using assms(1)
    by (auto simp: drop_callback_def UtilizeCallback_def Let_def split: option.splits)
  from assms(2) show ?thesis
  proof (cases rule: owned_cases)
    case (1 f ev keeper)
    show ?thesis
    proof (cases "f = fd \<and> ev = e")
      case True
      with 1 moved show ?thesis by (simp add: ownedI(2))
    next
      case False
      with 1 have "find_keeper l' f ev = Some keeper"
        using drop_callback_table(1) [OF assms(1), of f ev] by auto
      with 1 show ?thesis by (simp add: ownedI)
    qed
  next
    case 2
    with q show ?thesis by (auto intro: ownedI(2))
  qed
qed

lemma owned_op:
  assumes "exec_op K x (l, k) = Inr (l', k')" and "owned l c"
  shows "owned l' c"
  using assms(1)
proof (cases rule: exec_op_cases)
  case (registered fd dir cb afd t)
  from owned_register [OF registered(2) assms(2)] show ?thesis .
next
  case (replaced t cb)
  from owned_replace [OF replaced(2) assms(2)] show ?thesis .
next
  case (deregistered t r)
  from owned_deregister [OF deregistered(2) assms(2)] show ?thesis .
next
  case (dropped fd r)
  obtain b1 l1 k1 where 1: "drop_callback K fd EPOLLIN False l k = (b1, l1, k1)"
    by (cases "drop_callback K fd EPOLLIN False l k")
  obtain b2 l2 k2 where 2: "drop_callback K fd EPOLLOUT b1 l1 k1 = (b2, l2, k2)"
    by (cases "drop_callback K fd EPOLLOUT b1 l1 k1")
  from dropped(2) have "l' = l2" by (simp add: DeregisterFd_def 1 2 Let_def)
  with owned_drop_callback [OF 2 owned_drop_callback [OF 1 assms(2)]] show ?thesis by simp
qed (simp_all add: assms(2))

lemma owned_ops: "exec_ops K xs (l, k) = Inr (l', k') \<Longrightarrow> owned l c \<Longrightarrow> owned l' c"
proof (induction xs arbitrary: l k)
  case Nil
  then show ?case by simp
next
  case (Cons x xs)
  then obtain l1 k1 where 1: "exec_op K x (l, k) = Inr (l1, k1)" and 2: "exec_ops K xs (l1, k1) = Inr (l', k')"
    by (auto simp: chain_eq_Inr)
  from Cons.IH [OF 2 owned_op [OF 1 Cons.prems(2)]] show ?case .
qed

section \<open>Properties\<close>

lemma watch_inv_Init:
  assumes laws: "epoll_laws K interest" "epoll_frame K interest" and init: "Init K new_loop k = (True, l, k')"
  shows "watch_inv interest (l, k')"
proof -
  obtain h k1 where 1: "k_epoll_create1 K k = (h, k1)" by force
  obtain r k2 where 2: "k_eventfd K k1 = (r, k2)" by force
  obtain s k3 where 3: "k_eventfd K k2 = (s, k3)" by force
  obtain c k4 where 4: "k_epoll_ctl K h EPOLL_CTL_ADD r (Some (EPOLLIN, r)) k3 = (c, k4)" by force
  obtain d k5 where 5: "k_epoll_ctl K h EPOLL_CTL_ADD s (Some (EPOLLIN, s)) k4 = (d, k5)" by force
  from init have l: "l = new_loop\<lparr>epollHandle := h, removeEvent := r, stopEvent := s\<rparr>" and k': "k' = k5"
    and ok: "h \<noteq> -1" "c \<noteq> -1" "d \<noteq> -1"
    by (auto simp: Init_def EpollCtl_def 1 2 3 4 5 Let_def split: if_splits)
  have "interest k1 h = Map.empty" using laws(2) 1 ok(1) unfolding epoll_frame_def by (metis fst_conv snd_conv)
  moreover have "interest k2 = interest k1" "interest k3 = interest k2"
    using laws(2) 2 3 unfolding epoll_frame_def by (metis snd_conv)+
  moreover have "interest k4 h = (interest k3 h)(r \<mapsto> EPOLLIN)" "interest k5 h = (interest k4 h)(s \<mapsto> EPOLLIN)"
    using epoll_laws_add [OF laws(1) 4] epoll_laws_add [OF laws(1) 5] ok by simp_all
  ultimately have "interest k5 h fd = None" if "fd \<noteq> r" "fd \<noteq> s" for fd using that by simp
  then show ?thesis
    by (simp add: watch_inv_def l k' watch_ok_def mask_of_def find_keeper_def new_loop_def)
qed

text \<open>What agreement of the kernel's mask with the table says of the two directions.\<close>

lemma watch_ok_meaning:
  assumes ok: "watch_ok m l fd"
  shows "case m of
      None \<Rightarrow> find_keeper l fd EPOLLIN = None \<and> find_keeper l fd EPOLLOUT = None
    | Some ev \<Rightarrow> (ev AND EPOLLIN \<noteq> 0 \<longleftrightarrow> find_keeper l fd EPOLLIN \<noteq> None)
        \<and> (ev AND EPOLLOUT \<noteq> 0 \<longleftrightarrow> find_keeper l fd EPOLLOUT \<noteq> None)
        \<and> (find_keeper l fd EPOLLIN \<noteq> None \<or> find_keeper l fd EPOLLOUT \<noteq> None)"
proof (cases m)
  case None
  with ok show ?thesis by (auto simp: watch_ok_def mask_of_cases split: if_splits)
next
  case (Some ev)
  with ok have m: "ev AND (EPOLLIN OR EPOLLOUT) = mask_of l fd" "mask_of l fd \<noteq> 0" by (simp_all add: watch_ok_def)
  have "ev AND EPOLLIN = mask_of l fd AND EPOLLIN" "ev AND EPOLLOUT = mask_of l fd AND EPOLLOUT"
    unfolding m(1) [symmetric] by (simp_all add: EPOLLIN_def EPOLLOUT_def and.assoc)
  with m(2) Some show ?thesis
    by (auto simp: mask_of_def EPOLLIN_def EPOLLOUT_def split: if_splits)
qed

text \<open>
  After \<open>Init\<close> and any sequence of registrations, replacements and deregistrations, the
  kernel watches a descriptor for input exactly if it has an input callback and for output
  exactly if it has an output callback, and does not watch a descriptor without callbacks.
\<close>

lemma loop_watches_callbacks:
  assumes "epoll_laws K interest" and "epoll_frame K interest" and "Init K new_loop k = (True, l, k1)"
    and "exec_ops K xs (l, k1) = Inr (l', k')" and "fd \<noteq> removeEvent l'" and "fd \<noteq> stopEvent l'"
  shows "case interest k' (epollHandle l') fd of
      None \<Rightarrow> find_keeper l' fd EPOLLIN = None \<and> find_keeper l' fd EPOLLOUT = None
    | Some ev \<Rightarrow> (ev AND EPOLLIN \<noteq> 0 \<longleftrightarrow> find_keeper l' fd EPOLLIN \<noteq> None)
        \<and> (ev AND EPOLLOUT \<noteq> 0 \<longleftrightarrow> find_keeper l' fd EPOLLOUT \<noteq> None)
        \<and> (find_keeper l' fd EPOLLIN \<noteq> None \<or> find_keeper l' fd EPOLLOUT \<noteq> None)"
proof -
  have "watch_inv interest (l', k')"
    using watch_inv_ops [OF assms(1) watch_inv_Init [OF assms(1-3)] assms(4)] by simp
  with assms(5,6) show ?thesis by (simp add: watch_inv_def watch_ok_meaning)
qed

text \<open>What simplification needs to run the loop's operations on the concrete kernel.\<close>

lemmas sim_loop_defs = RegisterAction_def DeregisterAction_def DeregisterFd_def drop_callback_def UtilizeCallback_def
  find_keeper_def EpollCtl_def Init_def sim_kernel_def sim0_def sim_alloc_def sim_epoll_ctl_def epoll_cmd_defs Let_def
  new_loop_def EPOLLIN_def EPOLLOUT_def EPOLLHUP_def EPOLLERR_def al_emplace_def

theorem loop_watches_callbacks_witness:
  "\<exists>l k1 l' k'. Init sim_kernel new_loop sim0 = (True, l, k1)
     \<and> exec_ops sim_kernel [OpRegister 0 INPUT True None, OpRegister 0 OUTPUT False None, OpDeregister 1] (l, k1) = Inr (l', k')
     \<and> (case sim_interest k' 0 of None \<Rightarrow> False | Some ev \<Rightarrow> ev AND EPOLLIN = 0 \<and> ev AND EPOLLOUT \<noteq> 0)"
proof -
  let ?ops = "[OpRegister 0 INPUT True None, OpRegister 0 OUTPUT False None, OpDeregister 1]"
  have "\<exists>l k1 l' k'. Init sim_kernel new_loop sim0 = (True, l, k1) \<and> exec_ops sim_kernel ?ops (l, k1) = Inr (l', k')
     \<and> removeEvent l' = 4 \<and> stopEvent l' = 5 \<and> find_keeper l' 0 EPOLLIN = None \<and> find_keeper l' 0 EPOLLOUT \<noteq> None"
    by (simp del: map_of_table add: sim_loop_defs)
  then obtain l k1 l' k' where run: "Init sim_kernel new_loop sim0 = (True, l, k1)" "exec_ops sim_kernel ?ops (l, k1) = Inr (l', k')"
    and l': "removeEvent l' = 4" "stopEvent l' = 5" "find_keeper l' 0 EPOLLIN = None" "find_keeper l' 0 EPOLLOUT \<noteq> None"
    by blast
  from loop_watches_callbacks [OF sim_epoll_laws sim_epoll_frame run, of 0] l' run show ?thesis
    by (auto split: option.splits)
qed

lemma tokens_exact_op:
  assumes "tokens_exact l" and "nextToken l < -1" and "exec_op K x (l, k) = Inr (l', k')"
    and "\<And>fd. x \<noteq> OpDeregisterFd fd"
  shows "tokens_exact l'" and "unat (nextToken l') \<le> Suc (unat (nextToken l))"
proof -
  have le: "unat (nextToken l + 1) \<le> Suc (unat (nextToken l))"
  proof -
    have "unat (nextToken l + 1) = (unat (nextToken l) + unat (1 :: u64)) mod 2 ^ LENGTH(64)"
      by (rule unat_word_ariths(1))
    also have "\<dots> \<le> unat (nextToken l) + unat (1 :: u64)" by (rule mod_less_eq_dividend)
    finally show ?thesis by simp
  qed
  from assms(3) show "tokens_exact l'"
  proof (cases rule: exec_op_cases)
    case (registered fd dir cb afd t)
    show ?thesis by (rule tokens_exact_register [OF assms(1,2) registered(2)])
  next
    case (replaced t cb)
    show ?thesis by (rule tokens_exact_replace [OF assms(1) replaced(2)])
  next
    case (deregistered t r)
    show ?thesis by (rule tokens_exact_deregister [OF assms(1) deregistered(2)])
  next
    case (dropped fd r)
    with assms(4) [of fd] show ?thesis by simp
  qed (simp_all add: assms(1))
  from assms(3) show "unat (nextToken l') \<le> Suc (unat (nextToken l))"
  proof (cases rule: exec_op_cases)
    case (registered fd dir cb afd t)
    from RegisterAction_True(4) [OF registered(2)] le show ?thesis by simp
  next
    case (replaced t cb)
    from replaced(2) show ?thesis by (rule ReplaceAction_True) simp
  next
    case (deregistered t r)
    from DeregisterAction_table(3) [OF deregistered(2)] show ?thesis by simp
  next
    case (dropped fd r)
    with assms(4) [of fd] show ?thesis by simp
  qed simp_all
qed

text \<open>
  C28: as long as descriptors are not dropped wholesale and fewer than \<open>2 ^ 64\<close> callbacks
  are registered, every cancellation token owns exactly one live callback and every callback
  has exactly one token.
\<close>

theorem tokens_own_callbacks:
  assumes "tokens_exact l" and "list_all (\<lambda>x. \<not> (\<exists>fd. x = OpDeregisterFd fd)) xs"
    and "unat (nextToken l) + length xs < 2 ^ 64" and "exec_ops K xs (l, k) = Inr (l', k')"
  shows "tokens_exact l'"
  using assms
proof (induction xs arbitrary: l k)
  case (Cons x xs)
  from Cons.prems(4) obtain l1 k1 where x: "exec_op K x (l, k) = Inr (l1, k1)"
    and xs: "exec_ops K xs (l1, k1) = Inr (l', k')" by (auto simp: chain_eq_Inr)
  have "unat (nextToken l) < unat (-1 :: u64)" using Cons.prems(3) by (simp add: unsigned_minus_1_eq_mask mask_eq_exp_minus_1)
  then have room: "nextToken l < -1" by (simp add: word_less_nat_alt)
  from Cons.prems(2) have no: "\<And>fd. x \<noteq> OpDeregisterFd fd" by auto
  note step = tokens_exact_op [OF Cons.prems(1) room x no]
  show ?case
    by (rule Cons.IH [OF step(1) _ _ xs]) (use Cons.prems step(2) in auto)
qed simp

theorem tokens_own_callbacks_witness:
  "\<exists>l' k'. exec_ops sim_kernel [OpRegister 2 INPUT True None, OpDeregister 1] (new_loop, sim0) = Inr (l', k')
     \<and> tokens_exact l'"
proof -
  let ?xs = "[OpRegister 2 INPUT True None, OpDeregister 1]"
  have "\<exists>l' k'. exec_ops sim_kernel ?xs (new_loop, sim0) = Inr (l', k')"
    by (simp del: map_of_table add: sim_loop_defs)
  then obtain l' k' where run: "exec_ops sim_kernel ?xs (new_loop, sim0) = Inr (l', k')" by blast
  have "unat (nextToken (new_loop :: bool epoll_loop)) + length ?xs < 2 ^ 64" by (simp add: new_loop_def)
  from tokens_own_callbacks [OF tokens_exact_new_loop _ this run] run show ?thesis by simp
qed

text \<open>
  C35: \<open>DeregisterFd\<close> forgets the callbacks of a descriptor but not their tokens. When the
  descriptor number is reused, cancelling the old token removes the new owner's callback,
  and the new owner's token is left without one.
\<close>

theorem stale_token_cancels_new_owner:
  assumes "cancelMap l t = Some (fd, dir)" and "cancelMap l (nextToken l) = None"
    and "DeregisterFd K fd l k = (b, l1, k1)"
    and "RegisterAction K fd dir cb 0 afd l1 k2 = Inr ((True, t'), l2, k3)"
    and "DeregisterAction K t l2 k4 = (r, l3, k5)"
  shows "t' \<noteq> t \<and> find_keeper l2 fd (dir_bits dir) = Some \<lparr>ck_callback = cb, ck_keepLink = afd\<rparr>
    \<and> find_keeper l3 fd (dir_bits dir) = None \<and> cancelMap l3 t' = Some (fd, dir)"
  using stale_token [OF assms] by blast

theorem stale_token_cancels_new_owner_witness:
  "\<exists>(l :: bool epoll_loop) l1 k1 l2 k3 l3 r k5 t'.
     DeregisterFd sim_kernel 2 l sim0 = (True, l1, k1)
     \<and> RegisterAction sim_kernel 2 INPUT False 0 None l1 k1 = Inr ((True, t'), l2, k3)
     \<and> DeregisterAction sim_kernel 1 l2 k3 = (r, l3, k5) \<and> t' \<noteq> 1 \<and> find_keeper l3 2 EPOLLIN = None"
proof -
  let ?l = "new_loop\<lparr>fdToCallback := [((2, EPOLLIN), \<lparr>ck_callback = True, ck_keepLink = None\<rparr>)],
    cancelMap := [1 \<mapsto> (2, INPUT)], nextToken := 2\<rparr>"
  have "\<exists>l1 k1 l2 k3 t'. DeregisterFd sim_kernel 2 ?l sim0 = (True, l1, k1)
      \<and> RegisterAction sim_kernel 2 INPUT False 0 None l1 k1 = Inr ((True, t'), l2, k3)"
    by (simp del: map_of_table add: sim_loop_defs)
  then obtain l1 k1 l2 k3 t' where 1: "DeregisterFd sim_kernel 2 ?l sim0 = (True, l1, k1)"
    and 2: "RegisterAction sim_kernel 2 INPUT False 0 None l1 k1 = Inr ((True, t'), l2, k3)" by blast
  obtain r l3 k5 where 3: "DeregisterAction sim_kernel 1 l2 k3 = (r, l3, k5)" by (metis prod_cases3)
  have "cancelMap ?l 1 = Some (2, INPUT)" "cancelMap ?l (nextToken ?l) = None" by simp_all
  from stale_token_cancels_new_owner [OF this 1 2 3] have "t' \<noteq> 1" "find_keeper l3 2 EPOLLIN = None" by simp_all
  with 1 2 3 show ?thesis by blast
qed

text \<open>
  No operation of the loop destroys a callback: one that leaves the table, or is
  replaced in it, waits in the removal queue, so the callback that is running stays alive
  until the loop handles its removal event.
\<close>

lemma no_callback_destroyed:
  assumes "exec_ops K xs (l, k) = Inr (l', k')"
    and "find_keeper l fd ev = Some c \<or> ck_callback c \<in> set (removeQueue l)"
  shows "(\<exists>fd' ev' c'. find_keeper l' fd' ev' = Some c' \<and> ck_callback c' = ck_callback c)
    \<or> ck_callback c \<in> set (removeQueue l')"
  using owned_ops [OF assms(1), of "ck_callback c"] assms(2) by (auto simp: owned_def)

lemma no_callback_destroyed_witness:
  "\<exists>(l :: bool epoll_loop) l' k'. exec_ops sim_kernel [OpDeregisterFd 2] (l, sim0) = Inr (l', k')
     \<and> find_keeper l 2 EPOLLIN = Some \<lparr>ck_callback = True, ck_keepLink = None\<rparr>
     \<and> find_keeper l' 2 EPOLLIN = None \<and> True \<in> set (removeQueue l')"
proof -
  define l :: "bool epoll_loop" where "l = new_loop\<lparr>fdToCallback := [((2, EPOLLIN), \<lparr>ck_callback = True, ck_keepLink = None\<rparr>)]\<rparr>"
  obtain b l' k' where d: "DeregisterFd sim_kernel 2 l sim0 = (b, l', k')" by (metis prod_cases3)
  then have run: "exec_ops sim_kernel [OpDeregisterFd 2] (l, sim0) = Inr (l', k')" by simp
  have l: "find_keeper l 2 EPOLLIN = Some \<lparr>ck_callback = True, ck_keepLink = None\<rparr>"
    by (simp del: map_of_table add: l_def find_keeper_def)
  have "find_keeper l' fd ev = None" for fd ev
    using DeregisterFd_table(1) [OF d, of fd ev] by (auto simp del: map_of_table simp add: l_def find_keeper_def)
  with no_callback_destroyed [OF run disjI1, OF l] run l show ?thesis by auto
qed

text \<open>
  A registration that succeeds and is then cancelled by its token leaves the callbacks
  and the owners of the other tokens as they were.
\<close>

lemma register_then_deregister:
  assumes "loop_reg K afd a c s = Some (t, s')" and "loop_room s"
  shows "loop_look (loop_dereg K t s') = loop_look s \<and> loop_owner (loop_dereg K t s') = loop_owner s"
  using ep.reg_dereg [OF assms] by blast

lemma register_then_deregister_witness:
  "\<exists>t s'. loop_reg sim_kernel None (2, INPUT) True (new_loop, sim0) = Some (t, s')
     \<and> loop_look (loop_dereg sim_kernel t s') (2, INPUT) = None"
proof -
  have "\<exists>t s'. loop_reg sim_kernel None (2, INPUT) True (new_loop, sim0) = Some (t, s')"
    by (simp del: map_of_table add: sim_loop_defs loop_reg_def)
  then obtain t s' where r: "loop_reg sim_kernel None (2, INPUT) True (new_loop, sim0) = Some (t, s')" by blast
  have "loop_room (new_loop :: bool epoll_loop, sim0)" by (simp add: loop_room_def new_loop_def)
  from register_then_deregister [OF r this]
  have "loop_look (loop_dereg sim_kernel t s') (2, INPUT) = loop_look (new_loop :: bool epoll_loop, sim0) (2, INPUT)"
    by simp
  also have "\<dots> = None" by (simp del: map_of_table add: loop_look_def find_keeper_def new_loop_def)
  finally show ?thesis using r by blast
qed

end
