(* ===== verification/AsyncFd.thy ===== *)
theory AsyncFd
  imports LoopInv
begin

text \<open>
  \<open>include/async_fd.h\<close>: reading and writing one length-prefixed message on a
  non-blocking descriptor, driven by the event loop.

  Every lambda of the sources is a constructor with the variables it captures: the resolve
  functions \<open>ConnectionManager\<close> passes in (\<open>recv_resolve\<close>, \<open>send_resolve\<close>), the
  resolve functions \<open>RecvMessage\<close> and \<open>SendMessage\<close> pass to \<open>ProcData\<close>
  (\<open>stage\<close>), the callback \<open>ProcData\<close> registers (\<open>proc_cb\<close>) and the other callbacks
  of the event loop (\<open>callback\<close>). \<open>AsyncFd\<close> objects live in a heap, because several
  of them may share a descriptor and a callback holds a reference to its object.

  Calling a resolve function is always the last thing the code does, so an operation
  returns the call it ends with, if any (\<open>user_call\<close>), and the caller performs it.
\<close>

section \<open>Closures\<close>

datatype io_func = SendFunctor bool | RecvFunctor

datatype recv_resolve = IncomingHello | OutgoingAnswer peer_id | ReadNext

datatype send_resolve = IncomingAnswerSent peer_id | OutgoingNotifySent peer_id | SendNext

datatype stage =
    RecvLen recv_resolve
  | RecvBody recv_resolve
  | SendLen bool message send_resolve
  | SendBody send_resolve

record proc_cb =
  pc_self :: afd_ref
  pc_func :: io_func
  pc_left :: u64
  pc_size :: u64
  pc_data :: "byte list"
  pc_resolve :: stage

datatype callback =
    AcceptCb
  | BroadcastCb
  | TimerCb
  | NetlinkCb
  | PeerLostCb descr
  | ProcCb proc_cb

datatype user_call =
    RecvResolved recv_resolve "message io_result"
  | SendResolved send_resolve "unit io_result"

section \<open>The objects\<close>

record async_fd =
  afd_fd :: descr
  afd_token :: token

record 'k io =
  io_loop :: "callback epoll_loop"
  io_kern :: 'k
  io_afds :: "afd_ref \<Rightarrow> async_fd"
  io_next :: afd_ref

definition set_loop :: "callback epoll_loop \<Rightarrow> 'k \<Rightarrow> 'k io \<Rightarrow> 'k io" where
  "set_loop l k w = w\<lparr>io_loop := l, io_kern := k\<rparr>"

definition set_token :: "afd_ref \<Rightarrow> token \<Rightarrow> 'k io \<Rightarrow> 'k io" where
  "set_token a t w = w\<lparr>io_afds := (io_afds w)(a := (io_afds w a)\<lparr>afd_token := t\<rparr>)\<rparr>"

definition Create :: "descr \<Rightarrow> 'k io \<Rightarrow> afd_ref \<times> 'k io" where
  "Create fd w =
     (io_next w, w\<lparr>io_afds := (io_afds w)(io_next w := \<lparr>afd_fd = fd, afd_token = 0\<rparr>), io_next := io_next w + 1\<rparr>)"

definition Get :: "afd_ref \<Rightarrow> 'k io \<Rightarrow> descr" where
  "Get a w = afd_fd (io_afds w a)"

definition Deregister :: "'k kernel \<Rightarrow> afd_ref \<Rightarrow> 'k io \<Rightarrow> 'k io" where
  "Deregister K a w =
     (if afd_token (io_afds w a) = 0 then w
      else let (_, l, k) = DeregisterAction K (afd_token (io_afds w a)) (io_loop w) (io_kern w)
           in set_token a 0 (set_loop l k w))"

definition Release :: "'k kernel \<Rightarrow> afd_ref \<Rightarrow> 'k io \<Rightarrow> descr \<times> 'k io" where
  "Release K a w =
     (let w = (if afd_token (io_afds w a) \<noteq> 0 then Deregister K a w else w);
          fd = afd_fd (io_afds w a)
      in (fd, w\<lparr>io_afds := (io_afds w)(a := (io_afds w a)\<lparr>afd_fd := -1\<rparr>)\<rparr>))"

section \<open>ProcData: registering the callback\<close>

fun func_dir :: "io_func \<Rightarrow> io_direction" where
  "func_dir (SendFunctor _) = OUTPUT"
| "func_dir RecvFunctor = INPUT"

text \<open>\<open>Some e\<close>: the call ended with \<open>resolve(Err(e))\<close>.\<close>

definition ProcData ::
  "'k kernel \<Rightarrow> afd_ref \<Rightarrow> io_func \<Rightarrow> byte list \<Rightarrow> u64 \<Rightarrow> stage \<Rightarrow> 'k io \<Rightarrow> fault + io_error option \<times> 'k io" where
  "ProcData K a func data sz resolve w =
     (let cb = ProcCb \<lparr>pc_self = a, pc_func = func, pc_left = sz, pc_size = sz, pc_data = data,
                       pc_resolve = resolve\<rparr>;
          token = afd_token (io_afds w a)
      in if token = 0
         then chain (RegisterAction K (Get a w) (func_dir func) cb token (Some a) (io_loop w) (io_kern w))
                (\<lambda>((ok, t), l, k).
                   let w = set_token a t (set_loop l k w)
                   in Inr (if ok then None else Some IoFailed, w))
         else chain (ReplaceAction K token cb (io_loop w) (io_kern w))
                (\<lambda>(ok, l, k). Inr (if ok then None else Some IoFailed, set_loop l k w)))"

text \<open>The error branch the four stages share: deregister, then resolve with the error.\<close>

fun stage_call :: "stage \<Rightarrow> io_error \<Rightarrow> user_call" where
  "stage_call (RecvLen r) e = RecvResolved r (Err e)"
| "stage_call (RecvBody r) e = RecvResolved r (Err e)"
| "stage_call (SendLen _ _ s) e = SendResolved s (Err e)"
| "stage_call (SendBody s) e = SendResolved s (Err e)"

definition stage_error :: "'k kernel \<Rightarrow> afd_ref \<Rightarrow> stage \<Rightarrow> io_error \<Rightarrow> 'k io \<Rightarrow> user_call option \<times> 'k io" where
  "stage_error K a st e w = (Some (stage_call st e), Deregister K a w)"

text \<open>A call of \<open>ProcData\<close> together with the resolve call it may end with.\<close>

definition start_stage ::
  "'k kernel \<Rightarrow> afd_ref \<Rightarrow> io_func \<Rightarrow> byte list \<Rightarrow> u64 \<Rightarrow> stage \<Rightarrow> 'k io \<Rightarrow> fault + user_call option \<times> 'k io" where
  "start_stage K a func data sz st w =
     chain (ProcData K a func data sz st w) (\<lambda>(r, w).
       Inr (case r of None \<Rightarrow> (None, w) | Some e \<Rightarrow> stage_error K a st e w))"

text \<open>The success branch of each stage, with the bytes of the finished buffer.\<close>

fun stage_ok ::
  "'k kernel \<Rightarrow> afd_ref \<Rightarrow> stage \<Rightarrow> byte list \<Rightarrow> 'k io \<Rightarrow> fault + user_call option \<times> 'k io" where
  "stage_ok K a (RecvLen r) buf w =
     (case of_le32 buf of
        None \<Rightarrow> Inl BufferOverrun
      | Some msg_len \<Rightarrow>
          if \<not> msg_len > 0 then Inl AssertFailure
          else start_stage K a RecvFunctor (replicate (unat msg_len) 0) (ucast msg_len) (RecvBody r) w)"
| "stage_ok K a (RecvBody r) buf w = Inr (Some (RecvResolved r (Ok buf)), Deregister K a w)"
| "stage_ok K a (SendLen urgent sdata s) buf w =
     start_stage K a (SendFunctor urgent) sdata (of_nat (length sdata)) (SendBody s) w"
| "stage_ok K a (SendBody s) buf w = Inr (Some (SendResolved s (Ok ())), Deregister K a w)"

definition RecvMessage ::
  "'k kernel \<Rightarrow> afd_ref \<Rightarrow> recv_resolve \<Rightarrow> 'k io \<Rightarrow> fault + bool \<times> user_call option \<times> 'k io" where
  "RecvMessage K a r w =
     (if afd_token (io_afds w a) \<noteq> 0 then Inr (False, None, w)
      else chain (start_stage K a RecvFunctor (replicate 4 0) 4 (RecvLen r) w) (\<lambda>(c, w). Inr (True, c, w)))"

definition SendMessage ::
  "'k kernel \<Rightarrow> afd_ref \<Rightarrow> message \<Rightarrow> send_resolve \<Rightarrow> bool \<Rightarrow> 'k io
     \<Rightarrow> fault + bool \<times> user_call option \<times> 'k io" where
  "SendMessage K a data s urgent w =
     (if afd_token (io_afds w a) \<noteq> 0 then Inr (False, None, w)
      else let msg_len = of_nat (length data) :: u32
           in if \<not> msg_len > 0 then Inl AssertFailure
              else chain (start_stage K a (SendFunctor urgent) (le32 msg_len) 4 (SendLen urgent data s) w)
                     (\<lambda>(c, w). Inr (True, c, w)))"

section \<open>ProcData: the callback\<close>

definition MSG_OOB :: u32 where "MSG_OOB = 0x1"
definition MSG_NOSIGNAL :: u32 where "MSG_NOSIGNAL = 0x4000"

definition send_flags :: "bool \<Rightarrow> u32" where
  "send_flags urgent = MSG_NOSIGNAL OR (if urgent then MSG_OOB else 0)"

text \<open>
  The closure runs in place: its \<open>left_size\<close> and its buffer are updated in the table entry
  it was found at.
\<close>

definition store_proc :: "descr \<times> u32 \<Rightarrow> proc_cb \<Rightarrow> 'k io \<Rightarrow> 'k io" where
  "store_proc key p w =
     (case map_of (fdToCallback (io_loop w)) key of
        None \<Rightarrow> w
      | Some c \<Rightarrow> w\<lparr>io_loop := (io_loop w)\<lparr>fdToCallback :=
                      al_assign key (c\<lparr>ck_callback := ProcCb p\<rparr>) (fdToCallback (io_loop w))\<rparr>\<rparr>)"

text \<open>\<open>left_size -= length\<close> and what follows it.\<close>

definition proc_advance ::
  "'k kernel \<Rightarrow> descr \<times> u32 \<Rightarrow> proc_cb \<Rightarrow> int \<Rightarrow> byte list \<Rightarrow> 'k io \<Rightarrow> fault + user_call option \<times> 'k io" where
  "proc_advance K key p len data w =
     (let p = p\<lparr>pc_left := pc_left p - of_int len, pc_data := data\<rparr>;
          w = store_proc key p w
      in if pc_left p = 0 then stage_ok K (pc_self p) (pc_resolve p) (pc_data p) w
         else Inr (None, w))"

text \<open>
  \<open>data + (size - left_size)\<close> is the place the next bytes go to or come from. If
  \<open>left_size\<close> is larger than \<open>size\<close> it lies before the buffer.
\<close>

definition run_proc ::
  "'k kernel \<Rightarrow> descr \<times> u32 \<Rightarrow> proc_cb \<Rightarrow> unit io_result \<Rightarrow> 'k io \<Rightarrow> fault + user_call option \<times> 'k io" where
  "run_proc K key p res w =
     (let a = pc_self p; fd = Get a w; off = unat (pc_size p - pc_left p) in
      case res of
        Err e \<Rightarrow> Inr (stage_error K a (pc_resolve p) e w)
      | Ok _ \<Rightarrow>
          if pc_left p > pc_size p then Inl BufferOverrun
          else case pc_func p of
            RecvFunctor \<Rightarrow>
              let (r, k) = k_recv K fd (pc_left p) (io_kern w); w = w\<lparr>io_kern := k\<rparr> in
              (case r of
                 RecvFailed errno \<Rightarrow>
                   if errno \<noteq> EAGAIN then Inr (stage_error K a (pc_resolve p) IoFailed w)
                   else proc_advance K key p (-1) (pc_data p) w
               | Received bs \<Rightarrow>
                   if length bs = 0 \<and> pc_left p \<noteq> 0
                   then Inr (stage_error K a (pc_resolve p) IoFailed w)
                   else proc_advance K key p (int (length bs))
                          (take off (pc_data p) @ bs @ drop (off + length bs) (pc_data p)) w)
          | SendFunctor urgent \<Rightarrow>
              let (len, k) = k_send K fd (drop off (pc_data p)) (send_flags urgent) (io_kern w);
                  w = w\<lparr>io_kern := k\<rparr> in
              if len < 0 then Inr (stage_error K a (pc_resolve p) IoFailed w)
              else proc_advance K key p len (pc_data p) w)"

section \<open>Destroying closures\<close>

fun refers :: "afd_ref \<Rightarrow> callback \<Rightarrow> bool" where
  "refers a (ProcCb p) \<longleftrightarrow> pc_self p = a"
| "refers a _ \<longleftrightarrow> False"

definition referenced :: "afd_ref \<Rightarrow> callback epoll_loop \<Rightarrow> bool" where
  "referenced a l \<longleftrightarrow>
     list_ex (\<lambda>(_, c). refers a (ck_callback c) \<or> ck_keepLink c = Some a) (fdToCallback l)
     \<or> list_ex (refers a) (removeQueue l)"

text \<open>
  Destroying a closure drops its reference to the object; when it was the last one, the
  destructor \<open>~AsyncFd\<close> runs, which is \<open>Release\<close>.
\<close>

definition destroy_callback :: "'k kernel \<Rightarrow> callback \<Rightarrow> 'k io \<Rightarrow> 'k io" where
  "destroy_callback K cb w =
     (case cb of
        ProcCb p \<Rightarrow> if referenced (pc_self p) (io_loop w) then w else snd (Release K (pc_self p) w)
      | _ \<Rightarrow> w)"

text \<open>
  The branch of \<open>Run\<close> for the removal event: pop and destroy until the queue is empty.
  A destructor may push another callback, but then it has taken an entry out of the table.
\<close>

definition drain_size :: "'k io \<Rightarrow> nat" where
  "drain_size w = length (removeQueue (io_loop w)) + length (fdToCallback (io_loop w))"

lemma length_al_erase: "map_of xs k \<noteq> None \<Longrightarrow> length (al_erase k xs) < length xs"
proof (induction k xs rule: al_erase.induct)
  case (2 k j v xs)
  have "length (al_erase k xs) \<le> length xs"
    by (induction k xs rule: al_erase.induct) auto
  with 2 show ?case by (auto split: if_splits)
qed simp

lemma DeregisterAction_sizes:
  assumes "DeregisterAction K t l k = (b, l', k')"
  shows "length (removeQueue l') + length (fdToCallback l') \<le> length (removeQueue l) + length (fdToCallback l)"
proof (cases "\<exists>fd dir c. cancelMap l t = Some (fd, dir) \<and> find_keeper l fd (dir_bits dir) = Some c")
  case True
  then obtain fd dir c where c: "cancelMap l t = Some (fd, dir)" "find_keeper l fd (dir_bits dir) = Some c"
    by blast
  then have "length (al_erase (fd, dir_bits dir) (fdToCallback l)) < length (fdToCallback l)"
    by (intro length_al_erase) simp
  moreover from assms c have "length (removeQueue l') = Suc (length (removeQueue l))"
    "fdToCallback l' = al_erase (fd, dir_bits dir) (fdToCallback l)"
    by (auto simp: DeregisterAction_def UtilizeCallback_def Let_def split: if_splits prod.splits)
  ultimately show ?thesis by simp
next
  case False
  with assms show ?thesis by (auto simp: DeregisterAction_def split: option.splits)
qed

lemma drain_size_Release: "drain_size (snd (Release K a w)) \<le> drain_size w"
proof -
  obtain b l' k' where d: "DeregisterAction K (afd_token (io_afds w a)) (io_loop w) (io_kern w) = (b, l', k')"
    by (cases "DeregisterAction K (afd_token (io_afds w a)) (io_loop w) (io_kern w)")
  from DeregisterAction_sizes [OF this] show ?thesis
    by (simp add: Release_def Deregister_def Let_def drain_size_def set_token_def set_loop_def d)
qed

lemma drain_size_destroy: "drain_size (destroy_callback K cb w) \<le> drain_size w"
  by (simp add: destroy_callback_def drain_size_Release split: callback.splits)

function drain :: "'k kernel \<Rightarrow> 'k io \<Rightarrow> 'k io" where
  "drain K w =
     (case removeQueue (io_loop w) of
        [] \<Rightarrow> w
      | c # q \<Rightarrow> drain K (destroy_callback K c (w\<lparr>io_loop := (io_loop w)\<lparr>removeQueue := q\<rparr>\<rparr>)))"
  by pat_completeness auto
termination
proof (relation "measure (\<lambda>(K, w). drain_size w)")
  fix K :: "'k kernel" and w :: "'k io" and c and q :: "callback list"
  assume "removeQueue (io_loop w) = c # q"
  then have "drain_size (w\<lparr>io_loop := (io_loop w)\<lparr>removeQueue := q\<rparr>\<rparr>) < drain_size w"
    by (simp add: drain_size_def)
  with drain_size_destroy [of K c "w\<lparr>io_loop := (io_loop w)\<lparr>removeQueue := q\<rparr>\<rparr>"]
  show "((K, destroy_callback K c (w\<lparr>io_loop := (io_loop w)\<lparr>removeQueue := q\<rparr>\<rparr>)), (K, w))
      \<in> measure (\<lambda>(K, w). drain_size w)" by simp
qed simp

declare drain.simps [simp del]

section \<open>Armed and idle objects\<close>

text \<open>
  An object is armed with a closure when its token owns the table entry that holds it;
  it is idle when it has no token.
\<close>

definition armed :: "'k io \<Rightarrow> afd_ref \<Rightarrow> descr \<Rightarrow> io_direction \<Rightarrow> proc_cb \<Rightarrow> bool" where
  "armed w a fd dir p \<longleftrightarrow>
     pc_self p = a \<and> Get a w = fd \<and> afd_token (io_afds w a) \<noteq> 0
     \<and> cancelMap (io_loop w) (afd_token (io_afds w a)) = Some (fd, dir)
     \<and> (\<exists>c. find_keeper (io_loop w) fd (dir_bits dir) = Some c \<and> ck_callback c = ProcCb p)"

definition idle :: "'k io \<Rightarrow> afd_ref \<Rightarrow> descr \<Rightarrow> io_direction \<Rightarrow> bool" where
  "idle w a fd dir \<longleftrightarrow>
     afd_token (io_afds w a) = 0 \<and> find_keeper (io_loop w) fd (dir_bits dir) = None \<and> Get a w = fd"

lemma set_io_simps [simp]:
  "io_loop (set_loop l k w) = l" "io_kern (set_loop l k w) = k" "io_afds (set_loop l k w) = io_afds w"
  "io_next (set_loop l k w) = io_next w"
  "io_loop (set_token a t w) = io_loop w" "io_kern (set_token a t w) = io_kern w"
  "io_next (set_token a t w) = io_next w"
  "io_afds (set_token a t w) b = (if b = a then (io_afds w a)\<lparr>afd_token := t\<rparr> else io_afds w b)"
  by (auto simp: set_loop_def set_token_def)

lemma Get_simps [simp]:
  "Get b (set_loop l k w) = Get b w" "Get b (set_token a t w) = Get b w" "Get b (w\<lparr>io_kern := k\<rparr>) = Get b w"
  "Get b (w\<lparr>io_loop := l\<rparr>) = Get b w"
  by (simp_all add: Get_def)

lemma Deregister_idle:
  assumes "armed w a fd dir p"
  shows "idle (Deregister K a w) a fd dir" and "Get b (Deregister K a w) = Get b w"
proof -
  obtain r l k where d: "DeregisterAction K (afd_token (io_afds w a)) (io_loop w) (io_kern w) = (r, l, k)"
    by (cases "DeregisterAction K (afd_token (io_afds w a)) (io_loop w) (io_kern w)")
  from assms have w': "Deregister K a w = set_token a 0 (set_loop l k w)"
    by (simp add: Deregister_def d armed_def Let_def)
  show "idle (Deregister K a w) a fd dir"
    using assms DeregisterAction_table(1) [OF d] by (simp add: w' idle_def armed_def)
  show "Get b (Deregister K a w) = Get b w" by (simp add: w')
qed

lemma Deregister_idle_again: "afd_token (io_afds w a) = 0 \<Longrightarrow> Deregister K a w = w"
  by (simp add: Deregister_def)

lemma armed_store:
  assumes "armed w a fd dir p" and "pc_self p' = a"
  shows "armed (store_proc (fd, dir_bits dir) p' w) a fd dir p'"
    and "io_kern (store_proc (fd, dir_bits dir) p' w) = io_kern w"
proof -
  from assms obtain c where c: "find_keeper (io_loop w) fd (dir_bits dir) = Some c"
    by (auto simp: armed_def)
  with assms show "armed (store_proc (fd, dir_bits dir) p' w) a fd dir p'"
    by (auto simp: armed_def store_proc_def)
  from c show "io_kern (store_proc (fd, dir_bits dir) p' w) = io_kern w" by (simp add: store_proc_def)
qed

lemma start_stage_armed:
  assumes "armed w a fd dir p"
  obtains w' where "start_stage K a func data sz st w = Inr (None, w')"
    and "armed w' a fd dir \<lparr>pc_self = a, pc_func = func, pc_left = sz, pc_size = sz, pc_data = data, pc_resolve = st\<rparr>"
    and "io_kern w' = k_write K (removeEvent (io_loop w)) (io_kern w)"
proof -
  let ?t = "afd_token (io_afds w a)"
  let ?p = "\<lparr>pc_self = a, pc_func = func, pc_left = sz, pc_size = sz, pc_data = data, pc_resolve = st\<rparr>"
  from assms have t: "?t \<noteq> 0" "cancelMap (io_loop w) ?t = Some (fd, dir)"
    by (auto simp: armed_def)
  from assms obtain c where c: "find_keeper (io_loop w) fd (dir_bits dir) = Some c" by (auto simp: armed_def)
  from t c obtain l k where r: "ReplaceAction K ?t (ProcCb ?p) (io_loop w) (io_kern w) = Inr (True, l, k)"
    by (auto simp: ReplaceAction_def UtilizeCallback_def word_gt_0)
  have "start_stage K a func data sz st w = Inr (None, set_loop l k w)"
    using t r by (simp add: start_stage_def ProcData_def Let_def)
  moreover have "armed (set_loop l k w) a fd dir ?p"
    using assms find_keeper_replaced [OF r t(2)] c r t
    by (auto simp: armed_def elim!: ReplaceAction_True)
  moreover have "io_kern (set_loop l k w) = k_write K (removeEvent (io_loop w)) (io_kern w)"
    using r by (auto elim!: ReplaceAction_True)
  ultimately show thesis by (rule that)
qed

text \<open>
  Starting on an idle object registers it, or ends with the error the resolve function is
  called with; in both cases the other direction of the descriptor is untouched.
\<close>

lemma start_stage_idle:
  assumes "afd_token (io_afds w a) = 0" and "cancelMap (io_loop w) (nextToken (io_loop w)) = None"
    and "nextToken (io_loop w) \<noteq> 0"
  obtains (started) w' where "start_stage K a func data sz st w = Inr (None, w')"
      "armed w' a (Get a w) (func_dir func)
        \<lparr>pc_self = a, pc_func = func, pc_left = sz, pc_size = sz, pc_data = data, pc_resolve = st\<rparr>"
  | (failed) w' where "start_stage K a func data sz st w = Inr (Some (stage_call st IoFailed), w')"
      "io_loop w' = io_loop w" "afd_token (io_afds w' a) = 0"
proof -
  let ?p = "\<lparr>pc_self = a, pc_func = func, pc_left = sz, pc_size = sz, pc_data = data, pc_resolve = st\<rparr>"
  obtain ok t l k where r: "RegisterAction K (Get a w) (func_dir func) (ProcCb ?p) 0 (Some a) (io_loop w) (io_kern w)
      = Inr ((ok, t), l, k)"
    using RegisterAction_no_fault [of 0] by (metis prod_cases4 surj_pair)
  have s: "start_stage K a func data sz st w =
      Inr (if ok then (None, set_token a t (set_loop l k w))
           else stage_error K a st IoFailed (set_token a t (set_loop l k w)))"
    using assms(1) r by (simp add: start_stage_def ProcData_def Let_def)
  show thesis
  proof (cases ok)
    case True
    with r have r': "RegisterAction K (Get a w) (func_dir func) (ProcCb ?p) 0 (Some a) (io_loop w) (io_kern w)
      = Inr ((True, t), l, k)" by simp
    note reg = RegisterAction_True [OF r']
    show thesis
    proof (rule started)
      show "start_stage K a func data sz st w = Inr (None, set_token a t (set_loop l k w))"
        using s True by simp
      show "armed (set_token a t (set_loop l k w)) a (Get a w) (func_dir func) ?p"
        using assms reg by (simp add: armed_def find_keeper_registered [OF r'])
    qed
  next
    case False
    with r have r': "RegisterAction K (Get a w) (func_dir func) (ProcCb ?p) 0 (Some a) (io_loop w) (io_kern w)
      = Inr ((False, t), l, k)" by simp
    note reg = RegisterAction_False [OF r']
    show thesis
      by (rule failed [of "set_token a t (set_loop l k w)"])
        (use s False reg in \<open>auto simp: stage_error_def Deregister_def\<close>)
  qed
qed

lemma quiet_Deregister: "quiet K obs \<Longrightarrow> obs (io_kern (Deregister K a w)) = obs (io_kern w)"
  by (auto simp: Deregister_def Let_def dest: quiet_DeregisterAction split: prod.splits)

lemma quiet_start_stage:
  assumes "quiet K obs" and "start_stage K a func data sz st w = Inr (c, w')"
  shows "obs (io_kern w') = obs (io_kern w)"
  using assms(2)
  by (auto simp: start_stage_def ProcData_def stage_error_def Let_def chain_eq_Inr
        quiet_Deregister [OF assms(1)]
      dest!: quiet_RegisterAction [OF assms(1)] quiet_ReplaceAction [OF assms(1)]
      split: if_splits option.splits prod.splits)

section \<open>Which object has which descriptor\<close>

lemma Get_Deregister [simp]: "Get b (Deregister K a w) = Get b w"
  by (simp add: Deregister_def Let_def split: prod.split)

lemma Get_start_stage: "start_stage K a func data sz st w = Inr (c, w') \<Longrightarrow> Get b w' = Get b w"
  by (auto simp: start_stage_def ProcData_def stage_error_def Let_def chain_eq_Inr
      split: if_splits option.splits prod.splits)

lemma Get_RecvMessage: "RecvMessage K a r w = Inr (ok, c, w') \<Longrightarrow> Get b w' = Get b w"
  by (auto simp: RecvMessage_def chain_eq_Inr Get_start_stage split: if_splits)

lemma Get_SendMessage: "SendMessage K a m s u w = Inr (ok, c, w') \<Longrightarrow> Get b w' = Get b w"
  by (auto simp: SendMessage_def chain_eq_Inr Let_def Get_start_stage split: if_splits)

lemma Create_simps [simp]:
  "fst (Create fd w) = io_next w" "Get (io_next w) (snd (Create fd w)) = fd"
  "io_loop (snd (Create fd w)) = io_loop w" "io_kern (snd (Create fd w)) = io_kern w"
  "afd_token (io_afds (snd (Create fd w)) (io_next w)) = 0" "io_next (snd (Create fd w)) = Suc (io_next w)"
  "b \<noteq> io_next w \<Longrightarrow> io_afds (snd (Create fd w)) b = io_afds w b"
  by (simp_all add: Create_def Get_def)

lemma Release_fd [simp]: "fst (Release K a w) = Get a w"
proof -
  have "afd_fd (io_afds (Deregister K a w) a) = afd_fd (io_afds w a)"
    using Get_Deregister [of a K a w] by (simp add: Get_def)
  then show ?thesis by (simp add: Release_def Get_def Let_def)
qed

text \<open>A resolve call made at once carries an error.\<close>

lemma start_stage_call: "start_stage K a func data sz st w = Inr (Some c, w') \<Longrightarrow> c = stage_call st IoFailed"
  by (auto simp: start_stage_def ProcData_def stage_error_def Let_def chain_eq_Inr
      split: if_splits option.splits prod.splits)

lemma RecvMessage_call: "RecvMessage K a r w = Inr (ok, Some c, w') \<Longrightarrow> c = RecvResolved r (Err IoFailed)"
  by (auto simp: RecvMessage_def chain_eq_Inr dest: start_stage_call split: if_splits)

lemma SendMessage_call: "SendMessage K a m s u w = Inr (ok, Some c, w') \<Longrightarrow> c = SendResolved s (Err IoFailed)"
  by (auto simp: SendMessage_def chain_eq_Inr Let_def dest: start_stage_call split: if_splits)

section \<open>The removal event\<close>

text \<open>
  Handling the removal event ends, whatever the destructors of the queued callbacks add
  to the queue, and leaves the queue empty.
\<close>

lemma drain_empties_queue: "removeQueue (io_loop (drain K w)) = []"
proof (induction K w rule: drain.induct)
  case (1 K w)
  show ?case
    by (subst drain.simps) (use 1 in \<open>auto split: list.split\<close>)
qed

end
