(* ===== verification/Framing.thy ===== *)
theory Framing
  imports AsyncFd
begin

text \<open>
  What the two machines of \<open>AsyncFd\<close> do to the byte stream of a connection: however the
  kernel cuts the stream, \<open>RecvMessage\<close> takes exactly one frame off it and
  \<open>SendMessage\<close> puts exactly one frame on it. A frame is the length as four bytes in host
  order, then the message.
\<close>

definition frame :: "message \<Rightarrow> byte list" where
  "frame m = le32 (of_nat (length m)) @ m"

section \<open>The stream laws of the kernel\<close>

text \<open>
  \<open>stream k fd\<close> is what the peer has sent on \<open>fd\<close> and the program has not read;
  \<open>recv(2)\<close> takes a prefix of it of at most the length asked for, a failing call takes
  nothing, and \<open>epoll_ctl\<close> and \<open>write\<close> on an event counter do not read from it.
\<close>

definition recv_laws :: "'k kernel \<Rightarrow> ('k \<Rightarrow> descr \<Rightarrow> byte list) \<Rightarrow> bool" where
  "recv_laws K stream \<longleftrightarrow>
     (\<forall>fd n k bs k'. k_recv K fd n k = (Received bs, k') \<longrightarrow>
        stream k fd = bs @ stream k' fd \<and> length bs \<le> unat n) \<and>
     (\<forall>fd n k e k'. k_recv K fd n k = (RecvFailed e, k') \<longrightarrow> stream k' fd = stream k fd) \<and>
     (\<forall>f k fd. stream (k_write K f k) fd = stream k fd) \<and>
     (\<forall>ep cmd f arg k fd. stream (snd (k_epoll_ctl K ep cmd f arg k)) fd = stream k fd)"

text \<open>A descriptor with unread bytes is readable, and reading it then makes progress.\<close>

definition recv_live :: "'k kernel \<Rightarrow> ('k \<Rightarrow> descr \<Rightarrow> byte list) \<Rightarrow> bool" where
  "recv_live K stream \<longleftrightarrow>
     (\<forall>fd n k. stream k fd \<noteq> [] \<longrightarrow> n \<noteq> 0 \<longrightarrow> (\<exists>bs k'. k_recv K fd n k = (Received bs, k') \<and> bs \<noteq> []))"

text \<open>
  \<open>wire k fd\<close> is what has been accepted for sending on \<open>fd\<close>; \<open>send(2)\<close> accepts a
  prefix of what it is given, or fails and accepts nothing.
\<close>

definition send_laws :: "'k kernel \<Rightarrow> ('k \<Rightarrow> descr \<Rightarrow> byte list) \<Rightarrow> bool" where
  "send_laws K wire \<longleftrightarrow>
     (\<forall>fd bs fl k r k'. k_send K fd bs fl k = (r, k') \<longrightarrow>
        r \<le> int (length bs) \<and> wire k' fd = wire k fd @ take (nat r) bs) \<and>
     (\<forall>f k fd. wire (k_write K f k) fd = wire k fd) \<and>
     (\<forall>ep cmd f arg k fd. wire (snd (k_epoll_ctl K ep cmd f arg k)) fd = wire k fd)"

definition send_live :: "'k kernel \<Rightarrow> bool" where
  "send_live K \<longleftrightarrow> (\<forall>fd bs fl k. bs \<noteq> [] \<longrightarrow> fst (k_send K fd bs fl k) > 0)"

lemma recv_lawsD:
  assumes "recv_laws K stream"
  shows "k_recv K fd n k = (Received bs, k') \<Longrightarrow> stream k fd = bs @ stream k' fd"
    and "k_recv K fd n k = (Received bs, k') \<Longrightarrow> length bs \<le> unat n"
    and "stream (k_write K f k) fd = stream k fd"
    and "stream (snd (k_epoll_ctl K ep cmd f arg k)) fd = stream k fd"
  using assms unfolding recv_laws_def by blast+

lemma send_lawsD:
  assumes "send_laws K wire"
  shows "k_send K fd bs fl k = (r, k') \<Longrightarrow> r \<le> int (length bs)"
    and "k_send K fd bs fl k = (r, k') \<Longrightarrow> wire k' fd = wire k fd @ take (nat r) bs"
    and "wire (k_write K f k) fd = wire k fd"
    and "wire (snd (k_epoll_ctl K ep cmd f arg k)) fd = wire k fd"
  using assms unfolding send_laws_def by blast+

lemma recv_laws_quiet: "recv_laws K stream \<Longrightarrow> quiet K (\<lambda>k. stream k fd)"
  by (simp add: quiet_def recv_laws_def)

lemma send_laws_quiet: "send_laws K wire \<Longrightarrow> quiet K (\<lambda>k. wire k fd)"
  by (simp add: quiet_def send_laws_def)

lemma sim_recv_laws: "recv_laws sim_kernel (\<lambda>k fd. concat (sim_input k fd))"
proof -
  have drop: "concat (dropWhile (\<lambda>c. c = []) cs) = concat cs" for cs :: "byte list list"
    by (induction cs) auto
  have "concat (sim_input k fd) = bs @ concat (sim_input k' fd) \<and> length bs \<le> unat n"
    if "sim_recv fd n k = (Received bs, k')" for fd n k bs k'
    using that drop [of "sim_input k fd"]
    by (auto simp: sim_recv_def simp flip: append_assoc split: list.splits if_splits)
  moreover have "concat (sim_input k' fd) = concat (sim_input k fd)"
    if "sim_recv fd n k = (RecvFailed e, k')" for fd n k e k'
    using that by (auto simp: sim_recv_def split: list.splits if_splits)
  moreover have "sim_input (snd (sim_epoll_ctl ep cmd f arg k)) = sim_input k" for ep cmd f arg k
    by (auto simp: sim_epoll_ctl_def split: option.splits)
  ultimately show ?thesis by (simp add: recv_laws_def sim_kernel_def)
qed

lemma sim_recv_live: "recv_live sim_kernel (\<lambda>k fd. concat (sim_input k fd))"
proof -
  have "\<exists>bs k'. sim_recv fd n k = (Received bs, k') \<and> bs \<noteq> []"
    if "concat (sim_input k fd) \<noteq> []" "n \<noteq> 0" for fd n k
  proof -
    from that(1) obtain c cs where c: "dropWhile (\<lambda>c. c = []) (sim_input k fd) = c # cs"
      by (cases "dropWhile (\<lambda>c. c = []) (sim_input k fd)") auto
    then have "c \<noteq> []" by (metis (mono_tags) hd_dropWhile list.distinct(1) list.sel(1))
    moreover from that(2) have "unat n \<noteq> 0" by (simp add: unat_eq_zero)
    ultimately show ?thesis by (auto simp: sim_recv_def c)
  qed
  then show ?thesis by (simp add: recv_live_def sim_kernel_def)
qed

section \<open>Arithmetic of the progress counter\<close>

lemma unat_advance: "n \<le> unat (left :: u64) \<Longrightarrow> unat (left - of_int (int n)) = unat left - n"
proof -
  assume n: "n \<le> unat left"
  then have "n < 2 ^ 64" using unsigned_less [of left, where ?'a = nat] by simp
  then have "unat (of_nat n :: u64) = n" by (simp add: unat_of_nat)
  with n show ?thesis by (simp add: unat_sub word_le_nat_alt)
qed

lemma unat_u64_of_u32: "unat (ucast (n :: u32) :: u64) = unat n"
proof -
  have "unat n < 2 ^ 32" using unsigned_less [of n, where ?'a = nat] by simp
  then show ?thesis by (simp add: unsigned_ucast_eq take_bit_nat_eq_self)
qed

lemma unat_offset: "left \<le> sz \<Longrightarrow> unat (sz - left) = unat sz - unat (left :: u64)"
  by (simp add: unat_sub word_le_nat_alt)

definition got :: "proc_cb \<Rightarrow> byte list" where
  "got p = take (unat (pc_size p) - unat (pc_left p)) (pc_data p)"

definition advanced :: "proc_cb \<Rightarrow> byte list \<Rightarrow> proc_cb" where
  "advanced p bs =
     (let off = unat (pc_size p - pc_left p)
      in p\<lparr>pc_left := pc_left p - of_int (int (length bs)),
           pc_data := take off (pc_data p) @ bs @ drop (off + length bs) (pc_data p)\<rparr>)"

lemma advanced_sel [simp]:
  "pc_self (advanced p bs) = pc_self p" "pc_func (advanced p bs) = pc_func p"
  "pc_size (advanced p bs) = pc_size p" "pc_resolve (advanced p bs) = pc_resolve p"
  "pc_left (advanced p bs) = pc_left p - of_int (int (length bs))"
  by (simp_all add: advanced_def Let_def)

lemma advanced_progress:
  assumes "pc_left p \<le> pc_size p" and "length (pc_data p) = unat (pc_size p)" and "length bs \<le> unat (pc_left p)"
  shows "got (advanced p bs) = got p @ bs" and "length (pc_data (advanced p bs)) = unat (pc_size p)"
    and "unat (pc_left (advanced p bs)) = unat (pc_left p) - length bs"
    and "pc_left (advanced p bs) \<le> pc_size p"
proof -
  have le: "unat (pc_left p) \<le> unat (pc_size p)" using assms(1) by (simp add: word_le_nat_alt)
  have off: "unat (pc_size p - pc_left p) = unat (pc_size p) - unat (pc_left p)"
    by (rule unat_offset) (rule assms(1))
  show left: "unat (pc_left (advanced p bs)) = unat (pc_left p) - length bs"
    using unat_advance [OF assms(3)] by simp
  show len: "length (pc_data (advanced p bs)) = unat (pc_size p)"
    using assms le by (simp add: advanced_def off Let_def)
  show "pc_left (advanced p bs) \<le> pc_size p" using left le by (simp add: word_le_nat_alt)
  have "unat (pc_size p) - unat (pc_left (advanced p bs)) = (unat (pc_size p) - unat (pc_left p)) + length bs"
    using left le assms(3) by simp
  then show "got (advanced p bs) = got p @ bs"
    using assms le by (simp add: got_def advanced_def off Let_def)
qed

lemma got_full: "pc_left p = 0 \<Longrightarrow> length (pc_data p) = unat (pc_size p) \<Longrightarrow> got p = pc_data p"
  by (simp add: got_def)

lemma got_none: "pc_left p = pc_size p \<Longrightarrow> got p = []"
  by (simp add: got_def)

section \<open>Receiving\<close>

text \<open>
  The closure of a receiving object, and the stream \<open>S\<close> counted from the start of the
  frame: what the closure holds and what is still unread make up \<open>S\<close>.
\<close>

definition recv_state :: "('k \<Rightarrow> descr \<Rightarrow> byte list) \<Rightarrow> byte list \<Rightarrow> recv_resolve \<Rightarrow> proc_cb \<Rightarrow> descr \<Rightarrow> 'k \<Rightarrow> bool" where
  "recv_state stream S r p fd k \<longleftrightarrow>
     pc_func p = RecvFunctor \<and> pc_left p \<noteq> 0 \<and> pc_left p \<le> pc_size p \<and> length (pc_data p) = unat (pc_size p) \<and>
     (pc_resolve p = RecvLen r \<and> pc_size p = 4 \<and> S = got p @ stream k fd
      \<or> pc_resolve p = RecvBody r \<and> unat (pc_size p) < 2 ^ 32
        \<and> S = le32 (of_nat (unat (pc_size p))) @ got p @ stream k fd)"

lemma run_proc_recv:
  assumes "pc_func p = RecvFunctor" and "pc_left p \<le> pc_size p"
    and "k_recv K (Get (pc_self p) w) (pc_left p) (io_kern w) = (Received bs, k)" and "bs \<noteq> []"
  shows "run_proc K key p (Ok ()) w =
    (let w' = store_proc key (advanced p bs) (w\<lparr>io_kern := k\<rparr>)
     in if pc_left (advanced p bs) = 0
        then stage_ok K (pc_self p) (pc_resolve p) (pc_data (advanced p bs)) w' else Inr (None, w'))"
proof -
  from assms(2) have "\<not> pc_size p < pc_left p" by simp
  then have "run_proc K key p (Ok ()) w =
      proc_advance K key p (int (length bs)) (pc_data (advanced p bs)) (w\<lparr>io_kern := k\<rparr>)"
    using assms by (simp add: run_proc_def advanced_def Let_def)
  moreover have "p\<lparr>pc_left := pc_left p - of_int (int (length bs)), pc_data := pc_data (advanced p bs)\<rparr> = advanced p bs"
    by (simp add: advanced_def Let_def)
  ultimately show ?thesis by (simp only: proc_advance_def Let_def advanced_sel)
qed

lemma recv_step:
  assumes laws: "recv_laws K stream" and armed: "armed w a fd INPUT p"
    and st: "recv_state stream S r p fd (io_kern w)"
    and recv: "k_recv K fd (pc_left p) (io_kern w) = (Received bs, k1)" and "bs \<noteq> []"
  obtains (more) w' p' where "run_proc K (fd, EPOLLIN) p (Ok ()) w = Inr (None, w')"
      "armed w' a fd INPUT p'" "recv_state stream S r p' fd (io_kern w')"
      "stream (io_kern w') fd = stream k1 fd"
  | (finished) w' m where "run_proc K (fd, EPOLLIN) p (Ok ()) w = Inr (Some (RecvResolved r (Ok m)), w')"
      "idle w' a fd INPUT" "S = frame m @ stream k1 fd" "m \<noteq> []" "length m < 2 ^ 32"
      "stream (io_kern w') fd = stream k1 fd"
  | (empty) "run_proc K (fd, EPOLLIN) p (Ok ()) w = Inl AssertFailure" "take 4 S = le32 0"
proof -
  let ?q = "advanced p bs" and ?w = "store_proc (fd, EPOLLIN) (advanced p bs) (w\<lparr>io_kern := k1\<rparr>)"
  from armed have self: "pc_self p = a" "Get a w = fd" by (auto simp: armed_def)
  from st have sz: "pc_func p = RecvFunctor" "pc_left p \<le> pc_size p" "length (pc_data p) = unat (pc_size p)"
    by (auto simp: recv_state_def)
  have len: "length bs \<le> unat (pc_left p)" by (rule recv_lawsD(2) [OF laws recv])
  note adv = advanced_progress [OF sz(2,3) len]
  have stream: "stream (io_kern w) fd = bs @ stream k1 fd" by (rule recv_lawsD(1) [OF laws recv])
  have run: "run_proc K (fd, EPOLLIN) p (Ok ()) w =
    (if pc_left ?q = 0 then stage_ok K a (pc_resolve p) (pc_data ?q) ?w else Inr (None, ?w))"
    using run_proc_recv [OF sz(1,2) _ \<open>bs \<noteq> []\<close>, of K w k1] recv self by (simp add: Let_def)
  have "armed (w\<lparr>io_kern := k1\<rparr>) a fd INPUT p" using armed by (simp add: armed_def Get_def)
  from armed_store [OF this, of ?q] have arm: "armed ?w a fd INPUT ?q" and kern: "io_kern ?w = k1"
    using self by simp_all
  show thesis
  proof (cases "pc_left ?q = 0")
    case False
    show thesis
    proof (rule more [where w' = ?w and p' = ?q])
      show "run_proc K (fd, EPOLLIN) p (Ok ()) w = Inr (None, ?w)" using run False by simp
      show "recv_state stream S r ?q fd (io_kern ?w)"
        using st False adv stream by (simp add: recv_state_def kern)
    qed (use arm kern in auto)
  next
    case True
    then have full: "pc_data ?q = got p @ bs" using got_full [of ?q] adv by simp
    from st consider (len) "pc_resolve p = RecvLen r" "pc_size p = 4" "S = got p @ bs @ stream k1 fd"
      | (body) "pc_resolve p = RecvBody r" "unat (pc_size p) < 2 ^ 32"
        "S = le32 (of_nat (unat (pc_size p))) @ got p @ bs @ stream k1 fd"
      by (auto simp: recv_state_def stream)
    then show thesis
    proof cases
      case body
      let ?m = "got p @ bs"
      have m: "length ?m = unat (pc_size p)" using adv(2) full by simp
      show thesis
      proof (rule finished [where w' = "Deregister K a ?w" and m = ?m])
        show "run_proc K (fd, EPOLLIN) p (Ok ()) w = Inr (Some (RecvResolved r (Ok ?m)), Deregister K a ?w)"
          using run True body full by simp
        show "idle (Deregister K a ?w) a fd INPUT" by (rule Deregister_idle [OF arm])
        show "S = frame ?m @ stream k1 fd" using body(3) m by (simp add: frame_def)
        show "?m \<noteq> []" using \<open>bs \<noteq> []\<close> by simp
        show "length ?m < 2 ^ 32" using body(2) m by simp
        show "stream (io_kern (Deregister K a ?w)) fd = stream k1 fd"
          using kern quiet_Deregister [OF recv_laws_quiet [OF laws]] by simp
      qed
    next
      case len
      have "length (got p @ bs) = 4" using adv(2) full len(2) by simp
      then obtain n where n: "of_le32 (got p @ bs) = Some n" using of_le32_total by blast
      then have le: "le32 n = got p @ bs" by (rule le32_of_le32)
      show thesis
      proof (cases "n = 0")
        case True
        have "S = le32 n @ stream k1 fd" using len(3) le by simp
        then have "take 4 S = le32 0" using True by simp
        moreover have "run_proc K (fd, EPOLLIN) p (Ok ()) w = Inl AssertFailure"
          using run \<open>pc_left ?q = 0\<close> len(1) full n True by simp
        ultimately show thesis by (intro empty)
      next
        case False
        then have pos: "0 < n" by (simp add: word_gt_0)
        from start_stage_armed [OF arm, of K RecvFunctor "replicate (unat n) 0" "ucast n" "RecvBody r"]
        obtain w' where w': "start_stage K a RecvFunctor (replicate (unat n) 0) (ucast n) (RecvBody r) ?w = Inr (None, w')"
          and arm': "armed w' a fd INPUT \<lparr>pc_self = a, pc_func = RecvFunctor, pc_left = ucast n, pc_size = ucast n,
              pc_data = replicate (unat n) 0, pc_resolve = RecvBody r\<rparr>" (is "armed _ _ _ _ ?p'")
          and k': "io_kern w' = k_write K (removeEvent (io_loop ?w)) (io_kern ?w)" by metis
        have lt: "unat n < 2 ^ 32" using unsigned_less [of n, where ?'a = nat] by simp
        have un: "unat (ucast n :: u64) = unat n" by (rule unat_u64_of_u32)
        from False have "unat (ucast n :: u64) \<noteq> 0" by (simp only: un) (simp add: unat_eq_zero)
        then have nz: "(ucast n :: u64) \<noteq> 0" by auto
        show thesis
        proof (rule more [where w' = w' and p' = ?p'])
          show "run_proc K (fd, EPOLLIN) p (Ok ()) w = Inr (None, w')"
            using run True len full n pos w' by simp
          show "stream (io_kern w') fd = stream k1 fd" using k' kern recv_lawsD(3) [OF laws] by simp
          then show "recv_state stream S r ?p' fd (io_kern w')"
            using len(3) le un lt nz by (simp add: recv_state_def got_none)
        qed (rule arm')
      qed
    qed
  qed
qed

text \<open>
  \<open>n\<close> readiness events in a row for one entry of the table, stopping at the first resolve
  call.
\<close>

fun poll :: "nat \<Rightarrow> 'k kernel \<Rightarrow> descr \<times> u32 \<Rightarrow> 'k io \<Rightarrow> fault + user_call option \<times> 'k io" where
  "poll 0 K key w = Inr (None, w)"
| "poll (Suc n) K key w =
     (case map_of (fdToCallback (io_loop w)) key of
        None \<Rightarrow> Inr (None, w)
      | Some c \<Rightarrow>
          (case ck_callback c of
             ProcCb p \<Rightarrow> chain (run_proc K key p (Ok ()) w) (\<lambda>(u, w).
                            case u of None \<Rightarrow> poll n K key w | Some _ \<Rightarrow> Inr (u, w))
           | _ \<Rightarrow> Inr (None, w)))"

lemma poll_armed:
  "armed w a fd dir p \<Longrightarrow>
     poll (Suc n) K (fd, dir_bits dir) w =
       chain (run_proc K (fd, dir_bits dir) p (Ok ()) w) (\<lambda>(u, w).
         case u of None \<Rightarrow> poll n K (fd, dir_bits dir) w | Some _ \<Rightarrow> Inr (u, w))"
  by (auto simp: armed_def)

text \<open>A stream that starts with a frame determines it.\<close>

lemma length_frame [simp]: "length (frame m) = 4 + length m"
  by (simp add: frame_def)

lemma frame_prefix_length:
  "length m < 2 ^ 32 \<Longrightarrow> frame m @ rest = le32 (of_nat n) @ xs \<Longrightarrow> n < 2 ^ 32 \<Longrightarrow> n = length m \<and> xs = m @ rest"
proof -
  assume a: "length m < 2 ^ 32" "frame m @ rest = le32 (of_nat n) @ xs" "n < 2 ^ 32"
  from a(2) have "le32 (of_nat (length m)) = le32 (of_nat n)" and xs: "xs = m @ rest"
    by (auto simp: frame_def append_eq_append_conv)
  then have "(of_nat (length m) :: u32) = of_nat n" by (simp add: len32.enc_inject)
  then have "unat (of_nat (length m) :: u32) = unat (of_nat n :: u32)" by simp
  then have "length m = n" using a(1,3) by (simp add: unat_of_nat)
  with xs show ?thesis by simp
qed

lemma frame_inject:
  assumes "frame m @ rest = frame m' @ rest'" and "length m < 2 ^ 32" and "length m' < 2 ^ 32"
  shows "m = m'" and "rest = rest'"
proof -
  from assms(1) have "frame m @ rest = le32 (of_nat (length m')) @ m' @ rest'" by (simp only: frame_def append_assoc)
  from frame_prefix_length [OF assms(2) this assms(3)] have "length m' = length m" "m' @ rest' = m @ rest"
    by blast+
  then show "m = m'" "rest = rest'" by simp_all
qed

text \<open>While the frame is not complete, some of it is still unread.\<close>

lemma recv_state_unread:
  assumes "recv_state stream (frame m @ rest) r p fd k" and "length m < 2 ^ 32"
  shows "length rest < length (stream k fd)"
proof -
  from assms(1) have "pc_left p \<noteq> 0" "unat (pc_left p) \<le> unat (pc_size p)" "length (pc_data p) = unat (pc_size p)"
    by (simp_all add: recv_state_def word_le_nat_alt)
  moreover from this(1) have "unat (pc_left p) \<noteq> 0" by (simp add: unat_eq_zero)
  ultimately have g: "length (got p) < unat (pc_size p)" by (simp add: got_def)
  from assms(1) consider "pc_size p = 4" "frame m @ rest = got p @ stream k fd"
    | "unat (pc_size p) < 2 ^ 32" "frame m @ rest = le32 (of_nat (unat (pc_size p))) @ got p @ stream k fd"
    unfolding recv_state_def by blast
  then show ?thesis
  proof cases
    case 1
    from 1(2) have "4 + length m + length rest = length (got p) + length (stream k fd)"
      by (metis length_append length_frame)
    with g 1(1) show ?thesis by simp
  next
    case 2
    from frame_prefix_length [OF assms(2) 2(2,1)] have "unat (pc_size p) = length m"
      and "got p @ stream k fd = m @ rest" by simp_all
    then have "length (got p) + length (stream k fd) = length m + length rest" by (metis length_append)
    with g \<open>unat (pc_size p) = length m\<close> show ?thesis by simp
  qed
qed

lemma poll_receives:
  assumes laws: "recv_laws K stream" and live: "recv_live K stream"
    and m: "m \<noteq> []" "length m < 2 ^ 32"
  shows "armed w a fd INPUT p \<Longrightarrow> recv_state stream (frame m @ rest) r p fd (io_kern w) \<Longrightarrow>
     length (stream (io_kern w) fd) \<le> n + length rest \<Longrightarrow>
     \<exists>w'. poll n K (fd, EPOLLIN) w = Inr (Some (RecvResolved r (Ok m)), w')
        \<and> idle w' a fd INPUT \<and> stream (io_kern w') fd = rest"
proof (induction n arbitrary: w p)
  case 0
  then show ?case using recv_state_unread [OF 0(2) m(2)] by simp
next
  case (Suc n)
  note unread = recv_state_unread [OF Suc.prems(2) m(2)]
  from Suc.prems(2) have "pc_left p \<noteq> 0" by (simp add: recv_state_def)
  with unread live obtain bs k1 where recv: "k_recv K fd (pc_left p) (io_kern w) = (Received bs, k1)" "bs \<noteq> []"
    unfolding recv_live_def by (metis gr_implies_not0 length_0_conv)
  have shrink: "length (stream k1 fd) < length (stream (io_kern w) fd)"
    using recv_lawsD(1) [OF laws recv(1)] recv(2) by simp
  note poll = poll_armed [OF Suc.prems(1), of n K, simplified]
  from laws Suc.prems(1,2) recv show ?case
  proof (cases rule: recv_step)
    case (more w' p')
    with shrink Suc.prems(3) have "length (stream (io_kern w') fd) \<le> n + length rest" by simp
    from Suc.IH [OF more(2,3) this] show ?thesis by (simp add: poll more(1))
  next
    case (finished w' m')
    from frame_inject [OF finished(3) m(2) finished(5)] have "m' = m" "stream k1 fd = rest" by simp_all
    with finished show ?thesis by (simp add: poll)
  next
    case empty
    have "take 4 (frame m @ rest) = le32 (of_nat (length m))" by (simp add: frame_def)
    with empty(2) have "(of_nat (length m) :: u32) = 0" by (simp add: len32.enc_inject)
    then have "unat (of_nat (length m) :: u32) = 0" by simp
    with m show ?thesis by (simp add: unat_of_nat)
  qed
qed

section \<open>Sending\<close>

text \<open>
  The closure of a sending object, and the bytes \<open>W\<close> the wire will have carried when the
  message is out: what is already there, the unsent part of the buffer and, while the length
  is being sent, the message.
\<close>

fun still_to_send :: "stage \<Rightarrow> byte list" where
  "still_to_send (SendLen _ sdata _) = sdata"
| "still_to_send _ = []"

fun sends_for :: "send_resolve \<Rightarrow> stage \<Rightarrow> bool" where
  "sends_for s (SendLen _ sdata s') \<longleftrightarrow> s' = s \<and> sdata \<noteq> [] \<and> length sdata < 2 ^ 32"
| "sends_for s (SendBody s') \<longleftrightarrow> s' = s"
| "sends_for s _ \<longleftrightarrow> False"

definition unsent :: "proc_cb \<Rightarrow> byte list" where
  "unsent p = drop (unat (pc_size p) - unat (pc_left p)) (pc_data p)"

definition send_state :: "('k \<Rightarrow> descr \<Rightarrow> byte list) \<Rightarrow> byte list \<Rightarrow> send_resolve \<Rightarrow> proc_cb \<Rightarrow> descr \<Rightarrow> 'k \<Rightarrow> bool" where
  "send_state wire W s p fd k \<longleftrightarrow>
     (\<exists>u. pc_func p = SendFunctor u) \<and> pc_left p \<noteq> 0 \<and> pc_left p \<le> pc_size p
     \<and> length (pc_data p) = unat (pc_size p) \<and> sends_for s (pc_resolve p)
     \<and> W = wire k fd @ unsent p @ still_to_send (pc_resolve p)"

lemma send_state_left:
  "send_state wire W s p fd k \<Longrightarrow> length (wire k fd) < length W"
proof -
  assume st: "send_state wire W s p fd k"
  then have "pc_left p \<noteq> 0" "unat (pc_left p) \<le> unat (pc_size p)" "length (pc_data p) = unat (pc_size p)"
    by (simp_all add: send_state_def word_le_nat_alt)
  moreover from this(1) have "unat (pc_left p) \<noteq> 0" by (simp add: unat_eq_zero)
  ultimately have "0 < length (unsent p)" by (simp add: unsent_def)
  moreover from st have "length W = length (wire k fd) + length (unsent p) + length (still_to_send (pc_resolve p))"
    by (simp add: send_state_def)
  ultimately show ?thesis by simp
qed

lemma sent_progress:
  fixes p :: proc_cb
  defines "q n \<equiv> p\<lparr>pc_left := pc_left p - of_int (int n)\<rparr>"
  assumes "pc_left p \<le> pc_size p" and "length (pc_data p) = unat (pc_size p)" and "n \<le> unat (pc_left p)"
  shows "unsent (q n) = drop n (unsent p)" and "pc_left (q n) \<le> pc_size p"
    and "unat (pc_left (q n)) = unat (pc_left p) - n"
proof -
  have le: "unat (pc_left p) \<le> unat (pc_size p)" using assms(2) by (simp add: word_le_nat_alt)
  show left: "unat (pc_left (q n)) = unat (pc_left p) - n"
    using unat_advance [OF assms(4)] by (simp add: q_def)
  show "pc_left (q n) \<le> pc_size p" using left le by (simp add: word_le_nat_alt)
  have "unat (pc_size p) - unat (pc_left (q n)) = n + (unat (pc_size p) - unat (pc_left p))"
    using left le assms(4) by simp
  then show "unsent (q n) = drop n (unsent p)" by (simp add: unsent_def q_def)
qed

lemma run_proc_send:
  assumes "pc_func p = SendFunctor u" and "pc_left p \<le> pc_size p"
    and "k_send K (Get (pc_self p) w) (unsent p) (send_flags u) (io_kern w) = (r, k)" and "0 < r"
  shows "run_proc K key p (Ok ()) w =
    (let q = p\<lparr>pc_left := pc_left p - of_int r\<rparr>; w' = store_proc key q (w\<lparr>io_kern := k\<rparr>)
     in if pc_left q = 0 then stage_ok K (pc_self p) (pc_resolve p) (pc_data p) w' else Inr (None, w'))"
proof -
  from assms(2) have "\<not> pc_size p < pc_left p" by simp
  moreover have "unsent p = drop (unat (pc_size p - pc_left p)) (pc_data p)"
    by (simp add: unsent_def unat_offset [OF assms(2)])
  ultimately have "run_proc K key p (Ok ()) w = proc_advance K key p r (pc_data p) (w\<lparr>io_kern := k\<rparr>)"
    using assms by (simp add: run_proc_def Let_def)
  then show ?thesis by (simp add: proc_advance_def Let_def)
qed

lemma send_step:
  assumes laws: "send_laws K wire" and armed: "armed w a fd OUTPUT p"
    and st: "send_state wire W s p fd (io_kern w)" and func: "pc_func p = SendFunctor u"
    and send: "k_send K fd (unsent p) (send_flags u) (io_kern w) = (r, k1)" and "0 < r"
  obtains (more) w' p' where "run_proc K (fd, EPOLLOUT) p (Ok ()) w = Inr (None, w')"
      "armed w' a fd OUTPUT p'" "send_state wire W s p' fd (io_kern w')"
      "wire (io_kern w') fd = wire (io_kern w) fd @ take (nat r) (unsent p)"
  | (finished) w' where "run_proc K (fd, EPOLLOUT) p (Ok ()) w = Inr (Some (SendResolved s (Ok ())), w')"
      "idle w' a fd OUTPUT" "wire (io_kern w') fd = W"
proof -
  let ?n = "nat r"
  let ?q = "p\<lparr>pc_left := pc_left p - of_int (int ?n)\<rparr>"
  let ?w = "store_proc (fd, EPOLLOUT) ?q (w\<lparr>io_kern := k1\<rparr>)"
  from armed have self: "pc_self p = a" "Get a w = fd" by (auto simp: armed_def)
  from st have sz: "pc_left p \<le> pc_size p" "length (pc_data p) = unat (pc_size p)"
    by (auto simp: send_state_def)
  have r: "of_int (int ?n) = (of_int r :: u64)" using \<open>0 < r\<close> by simp
  from sz have "length (unsent p) = unat (pc_left p)"
    by (simp add: unsent_def word_le_nat_alt)
  moreover have "?n \<le> length (unsent p)" using send_lawsD(1) [OF laws send] by linarith
  ultimately have len: "?n \<le> unat (pc_left p)" by (simp only:)
  note adv = sent_progress [OF sz len]
  have wire: "wire k1 fd = wire (io_kern w) fd @ take ?n (unsent p)" by (rule send_lawsD(2) [OF laws send])
  have run: "run_proc K (fd, EPOLLOUT) p (Ok ()) w =
    (if pc_left ?q = 0 then stage_ok K a (pc_resolve p) (pc_data p) ?w else Inr (None, ?w))"
    using run_proc_send [OF func sz(1) _ \<open>0 < r\<close>, of K w k1] send self r by (simp add: Let_def)
  have "armed (w\<lparr>io_kern := k1\<rparr>) a fd OUTPUT p" using armed by (simp add: armed_def Get_def)
  from armed_store [OF this, of ?q] have arm: "armed ?w a fd OUTPUT ?q" and kern: "io_kern ?w = k1"
    using self by simp_all
  have W: "W = wire k1 fd @ unsent ?q @ still_to_send (pc_resolve p)"
    using st adv(1) wire by (simp add: send_state_def)
  show thesis
  proof (cases "pc_left ?q = 0")
    case False
    show thesis
    proof (rule more [where w' = ?w and p' = ?q])
      show "run_proc K (fd, EPOLLOUT) p (Ok ()) w = Inr (None, ?w)" using run False by simp
      show "send_state wire W s ?q fd (io_kern ?w)"
        unfolding kern using st False adv(2) W func sz(2) by (simp add: send_state_def)
    qed (use arm kern wire in auto)
  next
    case True
    from True have "unsent ?q = []" using sz by (simp add: unsent_def)
    with W have W': "W = wire k1 fd @ still_to_send (pc_resolve p)" by simp
    from st consider (body) "pc_resolve p = SendBody s"
      | (len) u' sdata where "pc_resolve p = SendLen u' sdata s" "sdata \<noteq> []" "length sdata < 2 ^ 32"
      by (cases "pc_resolve p") (auto simp: send_state_def)
    then show thesis
    proof cases
      case body
      show thesis
      proof (rule finished [where w' = "Deregister K a ?w"])
        show "run_proc K (fd, EPOLLOUT) p (Ok ()) w = Inr (Some (SendResolved s (Ok ())), Deregister K a ?w)"
          using run True body by simp
        show "idle (Deregister K a ?w) a fd OUTPUT" by (rule Deregister_idle [OF arm])
        show "wire (io_kern (Deregister K a ?w)) fd = W"
          using kern W' body quiet_Deregister [OF send_laws_quiet [OF laws]] by simp
      qed
    next
      case len
      from start_stage_armed [OF arm, of K "SendFunctor u'" sdata "of_nat (length sdata)" "SendBody s"]
      obtain w' where w': "start_stage K a (SendFunctor u') sdata (of_nat (length sdata)) (SendBody s) ?w = Inr (None, w')"
        and arm': "armed w' a fd OUTPUT \<lparr>pc_self = a, pc_func = SendFunctor u', pc_left = of_nat (length sdata),
            pc_size = of_nat (length sdata), pc_data = sdata, pc_resolve = SendBody s\<rparr>" (is "armed _ _ _ _ ?p'")
        by metis
      have kern': "wire (io_kern w') fd = wire k1 fd"
        using quiet_start_stage [OF send_laws_quiet [OF laws] w'] kern by simp
      have un: "unat (of_nat (length sdata) :: u64) = length sdata" using len(3) by (simp add: unat_of_nat)
      then have nz: "(of_nat (length sdata) :: u64) \<noteq> 0" using len(2) by (metis length_0_conv unsigned_0)
      show thesis
      proof (rule more [where w' = w' and p' = ?p'])
        show "run_proc K (fd, EPOLLOUT) p (Ok ()) w = Inr (None, w')" using run True len w' by simp
        show "wire (io_kern w') fd = wire (io_kern w) fd @ take (nat r) (unsent p)" using kern' wire by simp
        show "send_state wire W s ?p' fd (io_kern w')"
          using W' len un nz by (simp add: send_state_def kern' unsent_def)
      qed (rule arm')
    qed
  qed
qed

lemma poll_sends:
  assumes laws: "send_laws K wire" and live: "send_live K"
  shows "armed w a fd OUTPUT p \<Longrightarrow> send_state wire W s p fd (io_kern w) \<Longrightarrow>
     length W \<le> n + length (wire (io_kern w) fd) \<Longrightarrow>
     \<exists>w'. poll n K (fd, EPOLLOUT) w = Inr (Some (SendResolved s (Ok ())), w')
        \<and> idle w' a fd OUTPUT \<and> wire (io_kern w') fd = W"
proof (induction n arbitrary: w p)
  case 0
  then show ?case using send_state_left [OF 0(2)] by simp
next
  case (Suc n)
  from Suc.prems(2) obtain u where func: "pc_func p = SendFunctor u" by (auto simp: send_state_def)
  have "unsent p \<noteq> []"
  proof -
    from Suc.prems(2) have "pc_left p \<noteq> 0" "unat (pc_left p) \<le> unat (pc_size p)"
      "length (pc_data p) = unat (pc_size p)" by (simp_all add: send_state_def word_le_nat_alt)
    moreover from this(1) have "unat (pc_left p) \<noteq> 0" by (simp add: unat_eq_zero)
    ultimately show ?thesis by (simp add: unsent_def)
  qed
  with live obtain r k1 where send: "k_send K fd (unsent p) (send_flags u) (io_kern w) = (r, k1)" "0 < r"
    unfolding send_live_def by (metis prod.collapse)
  from send(2) \<open>unsent p \<noteq> []\<close> have grow: "0 < length (take (nat r) (unsent p))" by simp
  note poll = poll_armed [OF Suc.prems(1), of n K, simplified]
  from laws Suc.prems(1,2) func send show ?case
  proof (cases rule: send_step)
    case (more w' p')
    from more(4) have "length (wire (io_kern w') fd) = length (wire (io_kern w) fd) + length (take (nat r) (unsent p))"
      by (metis length_append)
    with grow Suc.prems(3) have "length W \<le> n + length (wire (io_kern w') fd)" by linarith
    from Suc.IH [OF more(2,3) this] show ?thesis by (simp add: poll more(1))
  next
    case (finished w')
    then show ?thesis by (simp add: poll)
  qed
qed

section \<open>The two operations\<close>

text \<open>
  An object with no token can start an operation when the loop's next token is not taken
  (\<open>tokens_exact\<close> of \<open>LoopInv\<close> gives this until the 64-bit counter wraps).
\<close>

definition can_start :: "'k io \<Rightarrow> afd_ref \<Rightarrow> bool" where
  "can_start w a \<longleftrightarrow>
     afd_token (io_afds w a) = 0 \<and> nextToken (io_loop w) \<noteq> 0 \<and> cancelMap (io_loop w) (nextToken (io_loop w)) = None"

lemma start_stage_started:
  assumes "can_start w a" and "start_stage K a func data sz st w = Inr (None, w')"
  shows "armed w' a (Get a w) (func_dir func)
    \<lparr>pc_self = a, pc_func = func, pc_left = sz, pc_size = sz, pc_data = data, pc_resolve = st\<rparr>"
proof -
  from assms(1) have c: "afd_token (io_afds w a) = 0" "cancelMap (io_loop w) (nextToken (io_loop w)) = None"
    "nextToken (io_loop w) \<noteq> 0" by (simp_all add: can_start_def)
  show ?thesis by (rule start_stage_idle [OF c, of K func data sz st]) (use assms(2) in auto)
qed

lemma RecvMessage_started:
  assumes "can_start w a" and "RecvMessage K a r w = Inr (True, None, w1)" and "recv_laws K stream"
  shows "\<exists>p. armed w1 a (Get a w) INPUT p \<and> recv_state stream (stream (io_kern w) (Get a w)) r p (Get a w) (io_kern w1)"
proof -
  from assms(1,2) have s: "start_stage K a RecvFunctor (replicate 4 0) 4 (RecvLen r) w = Inr (None, w1)"
    by (auto simp: RecvMessage_def can_start_def chain_eq_Inr)
  from start_stage_started [OF assms(1) s] quiet_start_stage [OF recv_laws_quiet [OF assms(3)] s]
  show ?thesis by (auto simp: recv_state_def got_def)
qed

lemma SendMessage_started:
  assumes "can_start w a" and "SendMessage K a m s urgent w = Inr (True, None, w1)" and "send_laws K wire"
    and "m \<noteq> []" and "length m < 2 ^ 32"
  shows "\<exists>p. armed w1 a (Get a w) OUTPUT p
    \<and> send_state wire (wire (io_kern w) (Get a w) @ frame m) s p (Get a w) (io_kern w1)"
proof -
  from assms(1,2) have s: "start_stage K a (SendFunctor urgent) (le32 (of_nat (length m))) 4 (SendLen urgent m s) w
      = Inr (None, w1)"
    by (auto simp: SendMessage_def can_start_def chain_eq_Inr Let_def split: if_splits)
  from start_stage_started [OF assms(1) s] quiet_start_stage [OF send_laws_quiet [OF assms(3)] s] assms(4,5)
  show ?thesis by (auto simp: send_state_def unsent_def frame_def)
qed

section \<open>The laws on the concrete kernel\<close>

definition sim_wire :: "sim \<Rightarrow> descr \<Rightarrow> byte list" where
  "sim_wire k fd = concat (map snd (filter (\<lambda>x. fst x = fd) (sim_sent k)))"

lemma sim_send_laws: "send_laws sim_kernel sim_wire"
  by (auto simp: send_laws_def sim_kernel_def sim_wire_def sim_epoll_ctl_def split: option.splits)

lemma sim_send_live: "send_live sim_kernel"
  by (simp add: send_live_def sim_kernel_def)

text \<open>An initialised loop, one idle object on descriptor 6, and input waiting there in chunks.\<close>

definition sim_io :: "byte list list \<Rightarrow> sim io" where
  "sim_io input =
     \<lparr>io_loop = new_loop\<lparr>epollHandle := 3, removeEvent := 4, stopEvent := 5\<rparr>,
      io_kern = sim0\<lparr>sim_open := [6, 5, 4, 3, 2, 1, 0], sim_input := (\<lambda>_. [])(6 := input)\<rparr>,
      io_afds = (\<lambda>_. \<lparr>afd_fd = 6, afd_token = 0\<rparr>), io_next = 1\<rparr>"

lemma sim_io_start: "can_start (sim_io input) 0" "Get 0 (sim_io input) = 6"
  by (simp_all add: can_start_def sim_io_def new_loop_def Get_def)

lemmas sim_run_defs = start_stage_def ProcData_def RegisterAction_def find_keeper_def EpollCtl_def sim_kernel_def
  sim_epoll_ctl_def epoll_cmd_defs Let_def sim_io_def new_loop_def Get_def sim0_def EPOLLIN_def EPOLLOUT_def
  EPOLLHUP_def EPOLLERR_def

lemma sim_recv_starts: "\<exists>w1. RecvMessage sim_kernel 0 r (sim_io input) = Inr (True, None, w1)"
  by (simp add: RecvMessage_def sim_run_defs)

lemma sim_send_starts:
  "m \<noteq> [] \<Longrightarrow> length m < 2 ^ 32 \<Longrightarrow> \<exists>w1. SendMessage sim_kernel 0 m s urgent (sim_io input) = Inr (True, None, w1)"
proof -
  assume "m \<noteq> []" "length m < 2 ^ 32"
  then have "unat (of_nat (length m) :: u32) \<noteq> 0" by (simp add: unat_of_nat)
  then have "(of_nat (length m) :: u32) > 0" by (metis unat_eq_zero word_gt_0)
  then show ?thesis by (simp add: SendMessage_def sim_run_defs)
qed

section \<open>One message, one frame\<close>

text \<open>
  C24: however the kernel cuts the incoming stream, a started \<open>RecvMessage\<close> resolves
  with exactly the message of the first frame of the stream, after at most as many
  readiness events as the frame has bytes; the rest of the stream is left unread and the
  object is free for the next operation.
\<close>

theorem RecvMessage_takes_one_frame:
  assumes "recv_laws K stream" and "recv_live K stream" and "can_start w a"
    and "RecvMessage K a r w = Inr (True, None, w1)"
    and "stream (io_kern w) (Get a w) = frame m @ rest" and "m \<noteq> []" and "length m < 2 ^ 32"
  shows "\<exists>w2. poll (length (frame m)) K (Get a w, EPOLLIN) w1 = Inr (Some (RecvResolved r (Ok m)), w2)
    \<and> idle w2 a (Get a w) INPUT \<and> stream (io_kern w2) (Get a w) = rest"
proof -
  from RecvMessage_started [OF assms(3,4,1)] assms(5) obtain p where
    p: "armed w1 a (Get a w) INPUT p" "recv_state stream (frame m @ rest) r p (Get a w) (io_kern w1)" by auto
  from assms(4) have "afd_token (io_afds w a) = 0 \<and> stream (io_kern w1) (Get a w) = stream (io_kern w) (Get a w)"
    by (auto simp: RecvMessage_def chain_eq_Inr dest!: quiet_start_stage [OF recv_laws_quiet [OF assms(1)]]
        split: if_splits)
  with assms(5) have "length (stream (io_kern w1) (Get a w)) \<le> length (frame m) + length rest" by simp
  from poll_receives [OF assms(1,2,6,7) p this] show ?thesis by blast
qed

theorem RecvMessage_takes_one_frame_witness:
  "\<exists>w1 w2. RecvMessage sim_kernel 0 ReadNext (sim_io [[2, 0], [0, 0, 7], [9, 42]]) = Inr (True, None, w1)
     \<and> poll 6 sim_kernel (6, EPOLLIN) w1 = Inr (Some (RecvResolved ReadNext (Ok [7, 9])), w2)
     \<and> concat (sim_input (io_kern w2) 6) = [42]"
proof -
  let ?w = "sim_io [[2, 0], [0, 0, 7], [9, 42]]"
  obtain w1 where w1: "RecvMessage sim_kernel 0 ReadNext ?w = Inr (True, None, w1)"
    using sim_recv_starts by blast
  have "concat (sim_input (io_kern ?w) 6) = frame [7, 9] @ [42]"
    by (simp add: sim_io_def frame_def le32_def)
  with RecvMessage_takes_one_frame [OF sim_recv_laws sim_recv_live sim_io_start(1) w1, of "[7, 9]" "[42]"] w1
  show ?thesis by (auto simp: sim_io_start)
qed



end
