(* ===== verification/AsyncFaults.thy ===== *)
theory AsyncFaults
  imports Framing
begin

text \<open>
  The error side of \<open>include/async_fd.h\<close>: what an object is left as by every outcome of
  its callback, and the inputs on which the callback goes wrong (a read that fails with
  \<open>EAGAIN\<close>, an announced length of zero).
\<close>

section \<open>Concrete operations\<close>

lemma sim_recv_armed:
  obtains w1 p where "RecvMessage sim_kernel 0 r (sim_io input) = Inr (True, None, w1)" and "armed w1 0 6 INPUT p"
    and "pc_func p = RecvFunctor" "pc_left p = 4" "pc_size p = 4" "pc_data p = replicate 4 0"
    and "sim_input (io_kern w1) = (\<lambda>_. [])(6 := input)"
proof -
  obtain w1 where w1: "RecvMessage sim_kernel 0 r (sim_io input) = Inr (True, None, w1)"
    using sim_recv_starts by blast
  then have s: "start_stage sim_kernel 0 RecvFunctor (replicate 4 0) 4 (RecvLen r) (sim_io input) = Inr (None, w1)"
    by (auto simp: RecvMessage_def chain_eq_Inr split: if_splits)
  have "quiet sim_kernel sim_input"
    by (auto simp: quiet_def sim_kernel_def sim_epoll_ctl_def split: option.splits)
  from quiet_start_stage [OF this s] have inp: "sim_input (io_kern w1) = (\<lambda>_. [])(6 := input)"
    by (simp add: sim_io_def)
  from start_stage_started [OF sim_io_start(1) s, unfolded sim_io_start func_dir.simps]
  show thesis by (rule that [OF w1]) (simp_all add: inp)
qed

section \<open>Every outcome leaves the object armed or idle\<close>

lemma armed_kern [simp]: "armed (w\<lparr>io_kern := k\<rparr>) a fd dir p = armed w a fd dir p"
  by (simp add: armed_def Get_def)

lemma stage_error_idle:
  assumes "armed w a fd dir p" and "stage_error K a st e w = (c, w')"
  shows "idle w' a fd dir" and "c = Some (stage_call st e)"
  using assms Deregister_idle(1) [OF assms(1), of K] by (auto simp: stage_error_def)

definition settled :: "'k io \<Rightarrow> user_call option \<Rightarrow> afd_ref \<Rightarrow> descr \<Rightarrow> io_direction \<Rightarrow> bool" where
  "settled w c a fd dir \<longleftrightarrow> (if c = None then \<exists>p. armed w a fd dir p else idle w a fd dir)"

lemma start_stage_settled:
  "armed w a fd dir p \<Longrightarrow> start_stage K a f d n st w = Inr (c, w') \<Longrightarrow> settled w' c a fd dir"
  by (erule start_stage_armed [of w a fd dir p K f d n st]) (auto simp: settled_def)

lemma Deregister_settled: "armed w a fd dir p \<Longrightarrow> settled (Deregister K a w) (Some u) a fd dir"
  by (simp add: settled_def Deregister_idle(1))

lemma stage_ok_settled:
  assumes "armed w a fd dir p" and "stage_ok K a st buf w = Inr (c, w')"
  shows "settled w' c a fd dir"
  using assms(2)
  by (cases st)
    (auto intro: start_stage_settled [OF assms(1)] Deregister_settled [OF assms(1)]
      split: option.split_asm if_split_asm)

lemma proc_advance_settled:
  assumes "armed w (pc_self p) fd dir p" and "proc_advance K (fd, dir_bits dir) p len data w = Inr (c, w')"
  shows "settled w' c (pc_self p) fd dir"
proof -
  let ?q = "p\<lparr>pc_left := pc_left p - of_int len, pc_data := data\<rparr>"
  have arm: "armed (store_proc (fd, dir_bits dir) ?q w) (pc_self p) fd dir ?q"
    using armed_store(1) [OF assms(1), of ?q] by simp
  show ?thesis
  proof (cases "pc_left ?q = 0")
    case True
    with assms(2) show ?thesis
      by (intro stage_ok_settled [OF arm, of K "pc_resolve p" data]) (simp add: proc_advance_def Let_def)
  next
    case False
    with assms(2) arm show ?thesis by (auto simp: proc_advance_def Let_def settled_def)
  qed
qed

text \<open>
  C26: the callback of an operation in progress either leaves the operation in progress or
  ends it with one resolve call, and then the object holds no token and its table entry is
  gone; no outcome (success, end of stream, error event, failing system call) leaves a
  token without an entry or an entry without its object's token.
\<close>

theorem run_proc_settles:
  assumes "armed w a fd dir p" and "run_proc K (fd, dir_bits dir) p res w = Inr (c, w')"
  shows "if c = None then \<exists>p'. armed w' a fd dir p' else idle w' a fd dir"
proof -
  from assms(1) have self: "a = pc_self p" by (simp add: armed_def)
  have err: "settled w' c (pc_self p) fd dir" if "stage_error K (pc_self p) st e w1 = (c, w')"
    and "armed w1 (pc_self p) fd dir p" for st e w1
    using that Deregister_settled [OF that(2), of K] by (auto simp: stage_error_def)
  note adv = proc_advance_settled [rotated]
  from assms have "settled w' c (pc_self p) fd dir"
    unfolding self
    by (auto simp: run_proc_def Let_def split: io_result.split_asm io_func.split_asm recv_result.split_asm
        prod.split_asm if_split_asm intro: err adv)
  then show ?thesis by (simp add: settled_def self)
qed

theorem run_proc_settles_witness:
  "\<exists>(w :: sim io) p w'. armed w 0 6 INPUT p \<and> run_proc sim_kernel (6, EPOLLIN) p (Err Timeout) w =
     Inr (Some (stage_call (pc_resolve p) Timeout), w') \<and> idle w' 0 6 INPUT"
proof -
  obtain w :: "sim io" and p where p: "armed w 0 6 INPUT p" by (rule sim_recv_armed [of ReadNext "[]"]) blast
  obtain w' where r: "run_proc sim_kernel (6, dir_bits INPUT) p (Err Timeout) w =
     Inr (Some (stage_call (pc_resolve p) Timeout), w')"
    by (auto simp: run_proc_def stage_error_def Let_def)
  from run_proc_settles [OF p r] p r show ?thesis by auto
qed


section \<open>A read that would block\<close>

lemma unat_plus_one:
  assumes "unat (n :: u64) + 1 < 2 ^ 64"
  shows "unat (n + 1) = unat n + 1" and "n + 1 \<noteq> 0"
proof -
  from assms have "unat n + unat (1 :: u64) < 2 ^ LENGTH(64)" by simp
  then have "unat (n + 1) = unat n + unat (1 :: u64)" by (rule unat_add_lem [THEN iffD1])
  then show u: "unat (n + 1) = unat n + 1" by simp
  then show "n + 1 \<noteq> 0" by (metis add_is_0 one_neq_zero unsigned_0)
qed

lemma run_proc_eagain:
  assumes "armed w a fd INPUT p" and "pc_func p = RecvFunctor" and "pc_left p \<le> pc_size p" and "pc_left p + 1 \<noteq> 0"
    and "k_recv K fd (pc_left p) (io_kern w) = (RecvFailed EAGAIN, k1)"
  shows "run_proc K (fd, EPOLLIN) p (Ok ()) w =
    Inr (None, store_proc (fd, EPOLLIN) (p\<lparr>pc_left := pc_left p + 1\<rparr>) (w\<lparr>io_kern := k1\<rparr>))"
  using assms by (auto simp: run_proc_def proc_advance_def armed_def Let_def)

text \<open>
  C34: \<open>recv\<close> failing with \<open>EAGAIN\<close> is not skipped: control falls through to
  \<open>left_size -= length\<close> with \<open>length\<close> -1. If it happens before the first byte of
  a part, \<open>left_size\<close> exceeds the buffer and the next event reads to an address before
  the buffer.
\<close>

theorem recv_eagain_overruns:
  assumes "armed w a fd INPUT p" and "pc_func p = RecvFunctor" and "pc_left p = pc_size p"
    and "unat (pc_size p) < 2 ^ 32"
    and "k_recv K fd (pc_left p) (io_kern w) = (RecvFailed EAGAIN, k1)"
  shows "poll 2 K (fd, EPOLLIN) w = Inl BufferOverrun"
proof -
  let ?q = "p\<lparr>pc_left := pc_left p + 1\<rparr>"
  from assms(4) have "unat (pc_left p) + 1 < 2 ^ 64" by (simp add: assms(3))
  note u = unat_plus_one [OF this]
  have gt: "pc_size p < pc_left ?q" using u(1) by (simp add: word_less_nat_alt assms(3))
  have "pc_self ?q = a" using assms(1) by (simp add: armed_def)
  with assms(1) have arm: "armed (store_proc (fd, EPOLLIN) ?q (w\<lparr>io_kern := k1\<rparr>)) a fd INPUT ?q" (is "armed ?w' _ _ _ _")
    using armed_store(1) [of "w\<lparr>io_kern := k1\<rparr>" a fd INPUT p ?q] by simp
  have "run_proc K (fd, EPOLLIN) p (Ok ()) w = Inr (None, ?w')"
    by (rule run_proc_eagain) (use assms u(2) in auto)
  moreover have "run_proc K (fd, EPOLLIN) ?q (Ok ()) ?w' = Inl BufferOverrun"
    using gt by (simp add: run_proc_def Let_def)
  ultimately show ?thesis
    using poll_armed [OF assms(1), of 1 K] poll_armed [OF arm, of 0 K] by (simp add: numeral_2_eq_2)
qed

theorem recv_eagain_overruns_witness:
  "\<exists>w1. RecvMessage sim_kernel 0 ReadNext (sim_io []) = Inr (True, None, w1)
     \<and> poll 2 sim_kernel (6, EPOLLIN) w1 = Inl BufferOverrun"
proof -
  obtain w1 p where p: "RecvMessage sim_kernel 0 ReadNext (sim_io []) = Inr (True, None, w1)" "armed w1 0 6 INPUT p"
    "pc_func p = RecvFunctor" "pc_left p = 4" "pc_size p = 4" "sim_input (io_kern w1) = (\<lambda>_. [])(6 := [])"
    by (rule sim_recv_armed [of ReadNext "[]"]) blast
  from p(6) have "k_recv sim_kernel 6 (pc_left p) (io_kern w1) = (RecvFailed EAGAIN, io_kern w1)"
    by (simp add: sim_kernel_def sim_recv_def)
  from recv_eagain_overruns [OF p(2,3) _ _ this] p show ?thesis by simp
qed

text \<open>
  An \<open>EAGAIN\<close> in the middle of a part drops the last byte received: the next byte
  read overwrites it, and the part waits for one byte more than the peer sends.
\<close>

lemma recv_eagain_drops_byte:
  assumes "armed w a fd INPUT p" and "pc_func p = RecvFunctor" and "pc_left p < pc_size p"
    and "k_recv K fd (pc_left p) (io_kern w) = (RecvFailed EAGAIN, k1)"
  shows "\<exists>w' p'. run_proc K (fd, EPOLLIN) p (Ok ()) w = Inr (None, w') \<and> armed w' a fd INPUT p'
    \<and> got p' = take (unat (pc_size p) - unat (pc_left p) - 1) (got p) \<and> unat (pc_left p') = unat (pc_left p) + 1"
proof -
  let ?q = "p\<lparr>pc_left := pc_left p + 1\<rparr>"
  have "unat (pc_size p) < 2 ^ 64" using unsigned_less [of "pc_size p", where ?'a = nat] by simp
  with assms(3) have "unat (pc_left p) + 1 < 2 ^ 64" by (simp add: word_less_nat_alt)
  note u = unat_plus_one [OF this]
  have "pc_self ?q = a" using assms(1) by (simp add: armed_def)
  with assms(1) have arm: "armed (store_proc (fd, EPOLLIN) ?q (w\<lparr>io_kern := k1\<rparr>)) a fd INPUT ?q" (is "armed ?w' _ _ _ _")
    using armed_store(1) [of "w\<lparr>io_kern := k1\<rparr>" a fd INPUT p ?q] by simp
  have "run_proc K (fd, EPOLLIN) p (Ok ()) w = Inr (None, ?w')"
    by (rule run_proc_eagain) (use assms u(2) in auto)
  moreover have "got ?q = take (unat (pc_size p) - unat (pc_left p) - 1) (got p)"
    using u(1) by (simp add: got_def min_def)
  ultimately show ?thesis using arm u(1) by auto
qed

theorem recv_eagain_drops_byte_witness:
  "\<exists>w p w' p'. armed w 0 6 INPUT p \<and> got p = [0, 0]
     \<and> run_proc sim_kernel (6, EPOLLIN) p (Ok ()) w = Inr (None, w') \<and> armed w' 0 6 INPUT p' \<and> got p' = [0]"
proof -
  obtain w1 :: "sim io" and p where p: "armed w1 0 6 INPUT p" "pc_func p = RecvFunctor" "pc_left p = 4" "pc_size p = 4"
    "pc_data p = replicate 4 0" "sim_input (io_kern w1) = (\<lambda>_. [])(6 := [])"
    by (rule sim_recv_armed [of ReadNext "[]"]) blast
  let ?p = "p\<lparr>pc_left := 2\<rparr>" and ?w = "store_proc (6, EPOLLIN) (p\<lparr>pc_left := 2\<rparr>) w1"
  have "pc_self ?p = 0" using p(1) by (simp add: armed_def)
  from armed_store [OF p(1) this] have a: "armed ?w 0 6 INPUT ?p" "io_kern ?w = io_kern w1" by simp_all
  have "k_recv sim_kernel 6 (pc_left ?p) (io_kern ?w) = (RecvFailed EAGAIN, io_kern w1)"
    using p(6) a(2) by (simp add: sim_kernel_def sim_recv_def)
  from recv_eagain_drops_byte [OF a(1) _ _ this] p obtain w' p' where
    "run_proc sim_kernel (6, EPOLLIN) ?p (Ok ()) ?w = Inr (None, w')" "armed w' 0 6 INPUT p'"
    "got p' = take 1 (got ?p)" by auto
  moreover have "got ?p = [0, 0]" using p by (simp add: got_def) (simp add: numeral_eq_Suc)
  ultimately show ?thesis using a(1) by auto
qed

section \<open>An announced length of zero\<close>

lemma le32_zero_length:
  assumes "le32 (of_nat n) @ xs = le32 0 @ ys" and "n < 2 ^ 32"
  shows "n = 0" and "xs = ys"
proof -
  from assms(1) have "le32 (of_nat n) = le32 0" and xs: "xs = ys" by (auto simp: append_eq_append_conv)
  then have "(of_nat n :: u32) = 0" by (simp add: len32.enc_inject)
  then have "unat (of_nat n :: u32) = 0" by simp
  with assms(2) show "n = 0" by (simp add: unat_of_nat)
  show "xs = ys" by (rule xs)
qed

lemma recv_state_zero_unread:
  assumes "recv_state stream (le32 0 @ rest) r p fd k"
  shows "length rest < length (stream k fd)"
proof -
  from assms have left: "pc_left p \<noteq> 0" "unat (pc_left p) \<le> unat (pc_size p)" "length (pc_data p) = unat (pc_size p)"
    by (simp_all add: recv_state_def word_le_nat_alt)
  moreover from this(1) have "unat (pc_left p) \<noteq> 0" by (simp add: unat_eq_zero)
  ultimately have g: "length (got p) < unat (pc_size p)" by (simp add: got_def)
  from assms consider "pc_size p = 4" "le32 0 @ rest = got p @ stream k fd"
    | "unat (pc_size p) < 2 ^ 32" "le32 (of_nat (unat (pc_size p))) @ got p @ stream k fd = le32 0 @ rest"
    unfolding recv_state_def by metis
  then show ?thesis
  proof cases
    case 1
    from 1(2) have "4 + length rest = length (got p) + length (stream k fd)"
      by (metis length_append length_le32)
    with g 1(1) show ?thesis by simp
  next
    case 2
    from le32_zero_length(1) [OF 2(2,1)] left(1,2) show ?thesis by (simp add: unat_eq_zero)
  qed
qed

lemma poll_zero:
  assumes laws: "recv_laws K stream" and live: "recv_live K stream"
  shows "armed w a fd INPUT p \<Longrightarrow> recv_state stream (le32 0 @ rest) r p fd (io_kern w) \<Longrightarrow>
     length (stream (io_kern w) fd) \<le> n + length rest \<Longrightarrow> poll n K (fd, EPOLLIN) w = Inl AssertFailure"
proof (induction n arbitrary: w p)
  case 0
  then show ?case using recv_state_zero_unread [OF 0(2)] by simp
next
  case (Suc n)
  note unread = recv_state_zero_unread [OF Suc.prems(2)]
  from Suc.prems(2) have "pc_left p \<noteq> 0" by (simp add: recv_state_def)
  with unread live obtain bs k1 where recv: "k_recv K fd (pc_left p) (io_kern w) = (Received bs, k1)" "bs \<noteq> []"
    unfolding recv_live_def by (metis gr_implies_not0 length_0_conv)
  have shrink: "length (stream k1 fd) < length (stream (io_kern w) fd)"
    using recv_lawsD(1) [OF laws recv(1)] recv(2) by simp
  note poll = poll_armed [OF Suc.prems(1), of n K, simplified]
  from laws Suc.prems(1,2) recv show ?case
  proof (cases rule: recv_step)
    case (more w' p')
    with shrink Suc.prems(3) have "length (stream (io_kern w') fd) \<le> n + length rest" by simp
    from Suc.IH [OF more(2,3) this] show ?thesis by (simp add: poll more(1))
  next
    case (finished w' m')
    have "le32 (of_nat (length m')) @ m' @ stream k1 fd = le32 0 @ rest" using finished(3) by (simp add: frame_def)
    from le32_zero_length(1) [OF this finished(5)] finished(4) show ?thesis by simp
  next
    case empty
    then show ?thesis by (simp add: poll)
  qed
qed

text \<open>
  A peer that announces a message of length zero makes \<open>assert(msg_len > 0)\<close> fail:
  the process aborts, whatever the connection's state.
\<close>

lemma zero_length_aborts:
  assumes "recv_laws K stream" and "recv_live K stream" and "can_start w a"
    and "RecvMessage K a r w = Inr (True, None, w1)"
    and "stream (io_kern w) (Get a w) = le32 0 @ rest"
  shows "poll 4 K (Get a w, EPOLLIN) w1 = Inl AssertFailure"
proof -
  from RecvMessage_started [OF assms(3,4,1)] assms(5) obtain p where
    p: "armed w1 a (Get a w) INPUT p" "recv_state stream (le32 0 @ rest) r p (Get a w) (io_kern w1)" by auto
  from assms(4) have "stream (io_kern w1) (Get a w) = stream (io_kern w) (Get a w)"
    by (auto simp: RecvMessage_def chain_eq_Inr dest!: quiet_start_stage [OF recv_laws_quiet [OF assms(1)]]
        split: if_splits)
  with assms(5) have "length (stream (io_kern w1) (Get a w)) \<le> 4 + length rest" by simp
  from poll_zero [OF assms(1,2) p this] show ?thesis .
qed

lemma zero_length_aborts_witness:
  "\<exists>w1. RecvMessage sim_kernel 0 ReadNext (sim_io [[0], [0, 0, 0, 5]]) = Inr (True, None, w1)
     \<and> poll 4 sim_kernel (6, EPOLLIN) w1 = Inl AssertFailure"
proof -
  let ?w = "sim_io [[0], [0, 0, 0, 5]]"
  obtain w1 where w1: "RecvMessage sim_kernel 0 ReadNext ?w = Inr (True, None, w1)"
    using sim_recv_starts by blast
  have "concat (sim_input (io_kern ?w) 6) = le32 0 @ [5]" by (simp add: sim_io_def le32_def)
  with zero_length_aborts [OF sim_recv_laws sim_recv_live sim_io_start(1) w1, of "[5]"] w1
  show ?thesis by (auto simp: sim_io_start)
qed

end
