(* ===== verification/Sockets.thy ===== *)
theory Sockets
  imports EpollLoop
begin

text \<open>
  The functions of \<open>include/ip_utils.h\<close> that make system calls: creating the sockets and
  timers, sending and reading broadcasts, accepting a client. Constants have their values
  on Linux. Every operation returns what the C++ function returns, with -1 or \<open>None\<close> for a
  failure, and the new kernel state.
\<close>

definition UDP_PORT :: int where "UDP_PORT = 22855"
definition TCP_LISTEN_PORT :: int where "TCP_LISTEN_PORT = 22855"
definition BUFFER_LEN :: nat where "BUFFER_LEN = 1024"
definition BROADCAST_DELAY :: int where "BROADCAST_DELAY = 1"
definition LOST_PEER_DELAY :: int where "LOST_PEER_DELAY = 10 * BROADCAST_DELAY"

definition AF_NETLINK :: int where "AF_NETLINK = 16"
definition SOCK_STREAM :: u32 where "SOCK_STREAM = 1"
definition SOCK_DGRAM :: u32 where "SOCK_DGRAM = 2"
definition SOCK_RAW :: u32 where "SOCK_RAW = 3"
definition SOCK_NONBLOCK :: u32 where "SOCK_NONBLOCK = 0x800"
definition IPPROTO_TCP :: int where "IPPROTO_TCP = 6"
definition IPPROTO_UDP :: int where "IPPROTO_UDP = 17"
definition NETLINK_ROUTE :: int where "NETLINK_ROUTE = 0"
definition RTMGRP_LINK :: u32 where "RTMGRP_LINK = 1"
definition SOL_SOCKET :: int where "SOL_SOCKET = 1"
definition SO_REUSEADDR :: u32 where "SO_REUSEADDR = 2"
definition SO_REUSEPORT :: u32 where "SO_REUSEPORT = 15"
definition SO_BROADCAST :: u32 where "SO_BROADCAST = 6"
definition SO_OOBINLINE :: u32 where "SO_OOBINLINE = 10"
definition TCP_NODELAY :: u32 where "TCP_NODELAY = 1"
definition INADDR_ANY :: u32 where "INADDR_ANY = 0"

definition local_address :: "int \<Rightarrow> sockaddr_in" where
  "local_address port = \<lparr>sin_family = AF_INET, sin_port = htons (of_int port), sin_addr = INADDR_ANY\<rparr>"

section \<open>Creating sockets\<close>

definition create_netlink_socket :: "'k kernel \<Rightarrow> 'k \<Rightarrow> int \<times> 'k" where
  "create_netlink_socket K k =
     (let (fd, k) = k_socket K AF_NETLINK (uint (SOCK_RAW OR SOCK_NONBLOCK)) NETLINK_ROUTE k
      in if fd < 0 then (-1, k) else
      let (r, k) = k_bind K fd (Netlink RTMGRP_LINK (k_getpid K k)) k
      in if r \<noteq> 0 then (-1, k_close K fd k) else (fd, k))"

definition create_broadcast_socket :: "'k kernel \<Rightarrow> int \<Rightarrow> 'k \<Rightarrow> int \<times> 'k" where
  "create_broadcast_socket K port k =
     (let (fd, k) = k_socket K (uint AF_INET) (uint (SOCK_DGRAM OR SOCK_NONBLOCK)) IPPROTO_UDP k
      in if fd = -1 then (-1, k) else
      let (r, k) = k_setsockopt K fd SOL_SOCKET (uint SO_BROADCAST) 1 k
      in if r \<noteq> 0 then (-1, k_close K fd k) else
      let (r, k) = k_bind K fd (Inet (local_address port)) k
      in if r = -1 then (-1, k_close K fd k) else (fd, k))"

definition create_tcp_socket :: "'k kernel \<Rightarrow> int \<Rightarrow> 'k \<Rightarrow> int \<times> 'k" where
  "create_tcp_socket K local_port k =
     (let (fd, k) = k_socket K (uint AF_INET) (uint (SOCK_STREAM OR SOCK_NONBLOCK)) IPPROTO_TCP k
      in if fd = -1 then (-1, k) else
      let (r, k) = (if local_port \<noteq> 0 then k_setsockopt K fd SOL_SOCKET (uint (SO_REUSEADDR OR SO_REUSEPORT)) 1 k
                    else (0, k))
      in if r \<noteq> 0 then (-1, k_close K fd k) else
      let (r, k) = k_setsockopt K fd IPPROTO_TCP (uint TCP_NODELAY) 1 k
      in if r < 0 then (-1, k_close K fd k) else
      let (r, k) = k_setsockopt K fd SOL_SOCKET (uint SO_OOBINLINE) 1 k
      in if r < 0 then (-1, k_close K fd k) else
      let (r, k) = k_bind K fd (Inet (local_address local_port)) k
      in if r = -1 then (-1, k_close K fd k) else (fd, k))"

section \<open>Timers\<close>

definition set_timer :: "'k kernel \<Rightarrow> descr \<Rightarrow> int \<Rightarrow> 'k \<Rightarrow> int \<times> 'k" where
  "set_timer K timer_fd sec k = k_timerfd_settime K timer_fd sec sec k"

definition create_timer :: "'k kernel \<Rightarrow> int \<Rightarrow> 'k \<Rightarrow> int \<times> 'k" where
  "create_timer K sec k =
     (let (timer_fd, k) = k_timerfd_create K k in (timer_fd, snd (set_timer K timer_fd sec k)))"

section \<open>Datagrams, clients and addresses\<close>

definition send_broadcast :: "'k kernel \<Rightarrow> descr \<Rightarrow> byte list \<Rightarrow> u32 \<Rightarrow> 'k \<Rightarrow> int \<times> 'k" where
  "send_broadcast K udp_fd msg addr k =
     k_sendto K udp_fd msg \<lparr>sin_family = AF_INET, sin_port = htons (of_int UDP_PORT), sin_addr = addr\<rparr> k"

definition read_broadcast :: "'k kernel \<Rightarrow> descr \<Rightarrow> 'k \<Rightarrow> (byte list \<times> u32) option \<times> 'k" where
  "read_broadcast K fd k =
     (case k_recvfrom K fd BUFFER_LEN k of
        (None, k) \<Rightarrow> (None, k)
      | (Some (buf, addr), k) \<Rightarrow> (Some (buf, sin_addr addr), k))"

text \<open>The loop of \<open>clear_netlink_socker\<close>, at most \<open>n\<close> rounds of it.\<close>

fun clear_netlink_socker :: "nat \<Rightarrow> 'k kernel \<Rightarrow> descr \<Rightarrow> 'k \<Rightarrow> fault + 'k" where
  "clear_netlink_socker 0 K fd k = Inl OutOfFuel"
| "clear_netlink_socker (Suc n) K fd k =
     (case k_recv K fd (of_nat BUFFER_LEN) k of
        (RecvFailed _, k) \<Rightarrow> Inr k
      | (Received bs, k) \<Rightarrow> if length bs < 1 then Inr k else clear_netlink_socker n K fd k)"

definition accept_client :: "'k kernel \<Rightarrow> descr \<Rightarrow> 'k \<Rightarrow> (sockaddr_in \<times> int) \<times> 'k" where
  "accept_client K fd k =
     (let ((client_fd, client_address), k) = k_accept K fd k;
          (flags, k) = k_getfl K fd k;
          flags = (if flags = -1 then 0 else flags);
          k = k_setfl K fd (of_int flags OR O_NONBLOCK) k
      in ((client_address, client_fd), k))"

definition get_fd_addr :: "'k kernel \<Rightarrow> descr \<Rightarrow> 'k \<Rightarrow> sockaddr_in option \<times> 'k" where
  "get_fd_addr K fd k =
     (let ((res, addr), k) = k_getpeername K fd k in (if res = 0 then Some addr else None, k))"

section \<open>Descriptors are not leaked\<close>

text \<open>
  \<open>opn k\<close> is the set of open descriptors. A call that creates a descriptor either fails
  with -1 or returns a new one, \<open>close(2)\<close> removes one, and the configuring calls leave
  the set alone.
\<close>

definition creating :: "('k \<Rightarrow> descr set) \<Rightarrow> int \<Rightarrow> 'k \<Rightarrow> 'k \<Rightarrow> bool" where
  "creating opn r k k' \<longleftrightarrow>
     (if r < 0 then r = -1 \<and> opn k' = opn k else r \<notin> opn k \<and> opn k' = insert r (opn k))"

definition fd_laws :: "'k kernel \<Rightarrow> ('k \<Rightarrow> descr set) \<Rightarrow> bool" where
  "fd_laws K opn \<longleftrightarrow>
     (\<forall>d t p k. creating opn (fst (k_socket K d t p k)) k (snd (k_socket K d t p k))) \<and>
     (\<forall>fd k. creating opn (fst (fst (k_accept K fd k))) k (snd (k_accept K fd k))) \<and>
     (\<forall>k. creating opn (fst (k_timerfd_create K k)) k (snd (k_timerfd_create K k))) \<and>
     (\<forall>k. creating opn (fst (k_epoll_create1 K k)) k (snd (k_epoll_create1 K k))) \<and>
     (\<forall>k. creating opn (fst (k_eventfd K k)) k (snd (k_eventfd K k))) \<and>
     (\<forall>fd k. opn (k_close K fd k) = opn k - {fd}) \<and>
     (\<forall>fd l n v k. opn (snd (k_setsockopt K fd l n v k)) = opn k) \<and>
     (\<forall>fd a k. opn (snd (k_bind K fd a k)) = opn k) \<and>
     (\<forall>fd n k. opn (snd (k_listen K fd n k)) = opn k) \<and>
     (\<forall>fd k. opn (snd (k_getfl K fd k)) = opn k) \<and>
     (\<forall>fd fl k. opn (k_setfl K fd fl k) = opn k) \<and>
     (\<forall>fd i v k. opn (snd (k_timerfd_settime K fd i v k)) = opn k) \<and>
     (\<forall>ep c fd a k. opn (snd (k_epoll_ctl K ep c fd a k)) = opn k) \<and>
     (\<forall>fd k. opn (k_read K fd k) = opn k) \<and>
     (\<forall>fd k. opn (k_write K fd k) = opn k) \<and>
     (\<forall>k. opn (snd (k_getifaddrs K k)) = opn k) \<and>
     (\<forall>fd k. opn (snd (k_getpeername K fd k)) = opn k) \<and>
     (\<forall>fd a k. opn (snd (k_connect K fd a k)) = opn k) \<and>
     (\<forall>fd bs fl k. opn (snd (k_send K fd bs fl k)) = opn k) \<and>
     (\<forall>fd n k. opn (snd (k_recv K fd n k)) = opn k) \<and>
     (\<forall>fd bs a k. opn (snd (k_sendto K fd bs a k)) = opn k) \<and>
     (\<forall>fd n k. opn (snd (k_recvfrom K fd n k)) = opn k)"

lemma fd_laws_create:
  assumes "fd_laws K opn"
  shows "creating opn (fst (k_socket K d t p k)) k (snd (k_socket K d t p k))"
    and "creating opn (fst (fst (k_accept K fd k))) k (snd (k_accept K fd k))"
    and "creating opn (fst (k_timerfd_create K k)) k (snd (k_timerfd_create K k))"
    and "creating opn (fst (k_epoll_create1 K k)) k (snd (k_epoll_create1 K k))"
    and "creating opn (fst (k_eventfd K k)) k (snd (k_eventfd K k))"
  using assms by (simp_all add: fd_laws_def)

lemma fd_laws_keep:
  assumes "fd_laws K opn"
  shows "opn (k_close K fd k) = opn k - {fd}"
    and "opn (snd (k_setsockopt K fd l n v k)) = opn k"
    and "opn (snd (k_bind K fd bnd k)) = opn k"
    and "opn (snd (k_listen K fd b k)) = opn k"
    and "opn (snd (k_getfl K fd k)) = opn k"
    and "opn (k_setfl K fd fl k) = opn k"
    and "opn (snd (k_timerfd_settime K fd i w k)) = opn k"
    and "opn (snd (k_epoll_ctl K ep c fd arg k)) = opn k"
    and "opn (k_read K fd k) = opn k"
    and "opn (k_write K fd k) = opn k"
    and "opn (snd (k_getifaddrs K k)) = opn k"
    and "opn (snd (k_getpeername K fd k)) = opn k"
    and "opn (snd (k_connect K fd sa k)) = opn k"
    and "opn (snd (k_send K fd bs fl k)) = opn k"
    and "opn (snd (k_recv K fd u k)) = opn k"
    and "opn (snd (k_sendto K fd bs sa k)) = opn k"
    and "opn (snd (k_recvfrom K fd m k)) = opn k"
  using assms by (simp_all add: fd_laws_def)

lemma fd_laws_quiet: "fd_laws K opn \<Longrightarrow> quiet K opn"
  by (simp add: quiet_def fd_laws_def)

lemma create_tcp_no_leak:
  assumes "fd_laws K opn" and "create_tcp_socket K port k = (fd, k')"
  shows "if fd = -1 then opn k' = opn k else fd \<notin> opn k \<and> opn k' = insert fd (opn k)"
proof -
  note keep = fd_laws_keep [OF assms(1)]
  obtain fd0 k1 where 1: "k_socket K (uint AF_INET) (uint (SOCK_STREAM OR SOCK_NONBLOCK)) IPPROTO_TCP k = (fd0, k1)"
    by force
  obtain r2 k2 where 2: "(if port \<noteq> 0 then k_setsockopt K fd0 SOL_SOCKET (uint (SO_REUSEADDR OR SO_REUSEPORT)) 1 k1
      else (0, k1)) = (r2, k2)" by force
  obtain r3 k3 where 3: "k_setsockopt K fd0 IPPROTO_TCP (uint TCP_NODELAY) 1 k2 = (r3, k3)" by force
  obtain r4 k4 where 4: "k_setsockopt K fd0 SOL_SOCKET (uint SO_OOBINLINE) 1 k3 = (r4, k4)" by force
  obtain r5 k5 where 5: "k_bind K fd0 (Inet (local_address port)) k4 = (r5, k5)" by force
  have run: "(fd, k') = (if fd0 = -1 then (-1, k1) else if r2 \<noteq> 0 then (-1, k_close K fd0 k2)
      else if r3 < 0 then (-1, k_close K fd0 k3) else if r4 < 0 then (-1, k_close K fd0 k4)
      else if r5 = -1 then (-1, k_close K fd0 k5) else (fd0, k5))"
    using assms(2) by (simp add: create_tcp_socket_def 1 2 3 4 5 Let_def split: if_splits)
  have "opn k2 = opn k1" using 2 keep(2) by (cases "port = 0") (simp, metis snd_conv)
  moreover have "opn k3 = opn k2" using keep(2) 3 by (metis snd_conv)
  moreover have "opn k4 = opn k3" using keep(2) 4 by (metis snd_conv)
  moreover have "opn k5 = opn k4" using keep(3) 5 by (metis snd_conv)
  ultimately have o: "opn k2 = opn k1" "opn k3 = opn k1" "opn k4 = opn k1" "opn k5 = opn k1" by simp_all
  from fd_laws_create(1) [OF assms(1)] 1 have c: "creating opn fd0 k k1" by (metis fst_conv snd_conv)
  show ?thesis
  proof (cases "fd0 = -1")
    case True
    with run c show ?thesis by (simp add: creating_def)
  next
    case False
    with c have n: "fd0 \<notin> opn k" "opn k1 = insert fd0 (opn k)" by (auto simp: creating_def split: if_splits)
    with False run show ?thesis by (simp add: keep(1) o split: if_splits)
  qed
qed

lemma create_broadcast_no_leak:
  assumes "fd_laws K opn" and "create_broadcast_socket K port k = (fd, k')"
  shows "if fd = -1 then opn k' = opn k else fd \<notin> opn k \<and> opn k' = insert fd (opn k)"
proof -
  note keep = fd_laws_keep [OF assms(1)]
  obtain fd0 k1 where 1: "k_socket K (uint AF_INET) (uint (SOCK_DGRAM OR SOCK_NONBLOCK)) IPPROTO_UDP k = (fd0, k1)"
    by force
  obtain r2 k2 where 2: "k_setsockopt K fd0 SOL_SOCKET (uint SO_BROADCAST) 1 k1 = (r2, k2)" by force
  obtain r3 k3 where 3: "k_bind K fd0 (Inet (local_address port)) k2 = (r3, k3)" by force
  have run: "(fd, k') = (if fd0 = -1 then (-1, k1) else if r2 \<noteq> 0 then (-1, k_close K fd0 k2)
      else if r3 = -1 then (-1, k_close K fd0 k3) else (fd0, k3))"
    using assms(2) by (simp add: create_broadcast_socket_def 1 2 3 Let_def split: if_splits)
  have "opn k2 = opn k1" using keep(2) 2 by (metis snd_conv)
  moreover have "opn k3 = opn k2" using keep(3) 3 by (metis snd_conv)
  ultimately have o: "opn k2 = opn k1" "opn k3 = opn k1" by simp_all
  from fd_laws_create(1) [OF assms(1)] 1 have c: "creating opn fd0 k k1" by (metis fst_conv snd_conv)
  show ?thesis
  proof (cases "fd0 = -1")
    case True
    with run c show ?thesis by (simp add: creating_def)
  next
    case False
    with c have n: "fd0 \<notin> opn k" "opn k1 = insert fd0 (opn k)" by (auto simp: creating_def split: if_splits)
    with False run show ?thesis by (simp add: keep(1) o split: if_splits)
  qed
qed

lemma create_netlink_no_leak:
  assumes "fd_laws K opn" and "create_netlink_socket K k = (fd, k')"
  shows "if fd = -1 then opn k' = opn k else fd \<notin> opn k \<and> opn k' = insert fd (opn k)"
proof -
  note keep = fd_laws_keep [OF assms(1)]
  obtain fd0 k1 where 1: "k_socket K AF_NETLINK (uint (SOCK_RAW OR SOCK_NONBLOCK)) NETLINK_ROUTE k = (fd0, k1)"
    by force
  obtain r2 k2 where 2: "k_bind K fd0 (Netlink RTMGRP_LINK (k_getpid K k1)) k1 = (r2, k2)" by force
  have run: "(fd, k') = (if fd0 < 0 then (-1, k1) else if r2 \<noteq> 0 then (-1, k_close K fd0 k2) else (fd0, k2))"
    using assms(2) by (simp add: create_netlink_socket_def 1 2 Let_def split: if_splits)
  have o: "opn k2 = opn k1" using keep(3) 2 by (metis snd_conv)
  from fd_laws_create(1) [OF assms(1)] 1 have c: "creating opn fd0 k k1" by (metis fst_conv snd_conv)
  show ?thesis
  proof (cases "fd0 < 0")
    case True
    with run c show ?thesis by (simp add: creating_def)
  next
    case False
    with c have n: "fd0 \<notin> opn k" "opn k1 = insert fd0 (opn k)" by (auto simp: creating_def)
    from False have "fd0 \<noteq> -1" by simp
    with n False run show ?thesis by (simp add: keep(1) o split: if_splits)
  qed
qed

lemma lowest_free_taken: "lowest_free n fd opened \<in> set opened \<Longrightarrow> {fd..fd + int n} \<subseteq> set opened"
proof (induction n arbitrary: fd)
  case (Suc n)
  then have "fd \<in> set opened" and "lowest_free n (fd + 1) opened \<in> set opened"
    by (auto split: if_splits)
  from Suc.IH [OF this(2)] this(1) show ?case
    by (auto simp: subset_iff) (smt (verit) atLeastAtMost_iff)
qed simp

lemma lowest_free_fresh: "lowest_free (length opened) fd opened \<notin> set opened"
proof
  assume "lowest_free (length opened) fd opened \<in> set opened"
  then have "{fd..fd + int (length opened)} \<subseteq> set opened" by (rule lowest_free_taken)
  then have "card {fd..fd + int (length opened)} \<le> card (set opened)" by (rule card_mono [rotated]) simp
  also have "\<dots> \<le> length opened" by (rule card_length)
  finally show False by simp
qed

lemma lowest_free_ge: "fd \<le> lowest_free n fd opened"
proof (induction n arbitrary: fd)
  case (Suc n)
  have "fd + 1 \<le> lowest_free n (fd + 1) opened" by (rule Suc.IH)
  then show ?case by simp
qed simp

lemma sim_alloc_creating: "creating (\<lambda>k. set (sim_open k)) (fst (sim_alloc k)) k (snd (sim_alloc k))"
  using lowest_free_fresh [of "sim_open k" 0] lowest_free_ge [of 0 "length (sim_open k)" "sim_open k"]
  by (auto simp: creating_def sim_alloc_def Let_def)

lemma sim_fd_laws: "fd_laws sim_kernel (\<lambda>k. set (sim_open k))"
proof -
  have "sim_open (snd (sim_recv fd n k)) = sim_open k" for fd n k
    by (auto simp: sim_recv_def split: list.splits)
  moreover have "sim_open (snd (sim_recvfrom fd n k)) = sim_open k" for fd n k
    by (auto simp: sim_recvfrom_def split: list.splits)
  moreover have "sim_open (snd (sim_epoll_ctl ep c fd a k)) = sim_open k" for ep c fd a k
    by (auto simp: sim_epoll_ctl_def split: option.splits)
  ultimately show ?thesis
    using sim_alloc_creating by (auto simp: fd_laws_def sim_kernel_def creating_def Let_def case_prod_beta)
qed

text \<open>
  C30: the three socket constructors are transactional in the open descriptors: a call that
  returns -1 leaves the set of open descriptors as it was, whichever step failed, and a
  call that succeeds adds exactly the descriptor it returns.
\<close>

theorem create_sockets_no_leak:
  assumes "fd_laws K opn"
    and "create_tcp_socket K port k = (fd, k') \<or> create_broadcast_socket K port k = (fd, k')
         \<or> create_netlink_socket K k = (fd, k')"
  shows "if fd = -1 then opn k' = opn k else fd \<notin> opn k \<and> opn k' = insert fd (opn k)"
proof -
  have tcp: ?thesis if c: "create_tcp_socket K port k = (fd, k')" by (rule create_tcp_no_leak [OF assms(1) c])
  have udp: ?thesis if c: "create_broadcast_socket K port k = (fd, k')" by (rule create_broadcast_no_leak [OF assms(1) c])
  have nl: ?thesis if c: "create_netlink_socket K k = (fd, k')" by (rule create_netlink_no_leak [OF assms(1) c])
  from assms(2) tcp udp nl show ?thesis by blast
qed

theorem create_sockets_no_leak_witness:
  "\<exists>fd k'. create_tcp_socket sim_kernel 22855 sim0 = (fd, k') \<and> fd = 3 \<and> set (sim_open k') = {0, 1, 2, 3}"
proof -
  obtain fd k' where c: "create_tcp_socket sim_kernel 22855 sim0 = (fd, k')" by force
  then have "fd = 3"
    by (simp add: create_tcp_socket_def sim_kernel_def sim_alloc_def sim0_def Let_def numeral_eq_Suc)
  with create_sockets_no_leak [OF sim_fd_laws disjI1, OF c] c show ?thesis by (auto simp: sim0_def)
qed

section \<open>The accepted client stays blocking\<close>

text \<open>
  \<open>nb k\<close> is the set of descriptors with \<open>O_NONBLOCK\<close>. \<open>accept(2)\<close> on Linux does not
  inherit it, and \<open>fcntl(F_SETFL)\<close> changes it for its own descriptor only.
\<close>

definition nonblock_laws :: "'k kernel \<Rightarrow> ('k \<Rightarrow> descr set) \<Rightarrow> bool" where
  "nonblock_laws K nb \<longleftrightarrow>
     (\<forall>fd k. fst (fst (k_accept K fd k)) \<notin> nb (snd (k_accept K fd k))) \<and>
     (\<forall>fd k. nb (snd (k_getfl K fd k)) = nb k) \<and>
     (\<forall>fd fl k. nb (k_setfl K fd fl k) = (if fl AND O_NONBLOCK \<noteq> 0 then insert fd (nb k) else nb k - {fd}))"

text \<open>
  \<open>accept_client\<close> sets \<open>O_NONBLOCK\<close> on the listening socket instead of the client's:
  the descriptor it returns is in blocking mode.
\<close>

lemma accept_client_leaves_blocking:
  assumes "nonblock_laws K nb" and "accept_client K fd k = ((a, client_fd), k')" and "client_fd \<noteq> fd"
  shows "client_fd \<notin> nb k' \<and> fd \<in> nb k'"
proof -
  have "(fl OR O_NONBLOCK) AND O_NONBLOCK = O_NONBLOCK" for fl :: u32
    by (rule bit_eqI) (auto simp: bit_and_iff bit_or_iff)
  moreover have "O_NONBLOCK \<noteq> 0" by (simp add: O_NONBLOCK_def)
  ultimately show ?thesis
    using assms by (auto simp: accept_client_def nonblock_laws_def Let_def case_prod_beta)
qed

lemma sim_nonblock_laws: "nonblock_laws sim_kernel (\<lambda>k. set (sim_nonblocking k))"
  by (auto simp: nonblock_laws_def sim_kernel_def sim_alloc_def Let_def)

theorem accept_client_leaves_blocking_witness:
  "\<exists>a k'. accept_client sim_kernel 2 sim0 = ((a, 3), k') \<and> 3 \<notin> set (sim_nonblocking k')"
proof -
  obtain a c k' where r: "accept_client sim_kernel 2 sim0 = ((a, c), k')" by (metis surj_pair)
  then have "c = 3"
    by (simp add: accept_client_def sim_kernel_def sim_alloc_def sim0_def Let_def numeral_eq_Suc)
  with accept_client_leaves_blocking [OF sim_nonblock_laws r] r show ?thesis by auto
qed

section \<open>The netlink loop ends\<close>

lemma clear_netlink_more:
  "clear_netlink_socker m K fd k = Inr k' \<Longrightarrow> m \<le> n \<Longrightarrow> clear_netlink_socker n K fd k = Inr k'"
proof (induction m arbitrary: n k)
  case (Suc m)
  then obtain n' where "n = Suc n'" "m \<le> n'" by (cases n) auto
  with Suc show ?case by (auto split: prod.splits recv_result.splits if_splits)
qed simp

text \<open>
  With at most \<open>pending\<close> datagrams queued on the descriptor, and each successful
  \<open>recv\<close> taking one, \<open>clear_netlink_socker\<close> ends within \<open>pending + 1\<close> rounds, and the
  number of rounds allowed beyond that does not matter.
\<close>

lemma clear_netlink_ends:
  assumes "\<And>k bs k'. k_recv K fd (of_nat BUFFER_LEN) k = (Received bs, k') \<Longrightarrow> bs \<noteq> [] \<Longrightarrow>
      (pending k' :: nat) < pending k"
  shows "pending k < n \<Longrightarrow>
    \<exists>k'. clear_netlink_socker n K fd k = Inr k' \<and> clear_netlink_socker (Suc (pending k)) K fd k = Inr k'"
proof (induction n arbitrary: k)
  case (Suc n)
  obtain r k1 where r: "k_recv K fd (of_nat BUFFER_LEN) k = (r, k1)" by force
  show ?case
  proof (cases r)
    case (RecvFailed e)
    with r show ?thesis by simp
  next
    case (Received bs)
    show ?thesis
    proof (cases "bs = []")
      case True
      with r Received show ?thesis by simp
    next
      case False
      with assms r Received have "pending k1 < pending k" by blast
      with Suc.prems have "pending k1 < n" by simp
      from Suc.IH [OF this] obtain k' where "clear_netlink_socker n K fd k1 = Inr k'"
        "clear_netlink_socker (Suc (pending k1)) K fd k1 = Inr k'" by blast
      with clear_netlink_more [of "Suc (pending k1)" K fd k1 k' "pending k"] \<open>pending k1 < pending k\<close> r Received False
      show ?thesis by simp
    qed
  qed
qed simp

lemma clear_netlink_ends_witness:
  "\<exists>k'. clear_netlink_socker 5 sim_kernel 3 (sim0\<lparr>sim_input := \<lambda>_. [[1], [2, 3]]\<rparr>) = Inr k'"
proof -
  have drop: "concat (dropWhile (\<lambda>c. c = []) cs) = concat cs" for cs :: "byte list list"
    by (induction cs) auto
  have *: "length (concat (sim_input k' 3)) < length (concat (sim_input k 3))"
    if r: "k_recv sim_kernel 3 (of_nat BUFFER_LEN) k = (Received bs, k')" and "bs \<noteq> []" for k bs k'
  proof -
    from r have "concat (sim_input k 3) = bs @ concat (sim_input k' 3)"
      using drop [of "sim_input k 3"]
      by (auto simp: sim_kernel_def sim_recv_def simp flip: append_assoc split: list.splits if_splits)
    with \<open>bs \<noteq> []\<close> show ?thesis by simp
  qed
  have "length (concat (sim_input (sim0\<lparr>sim_input := \<lambda>_. [[1], [2, 3]]\<rparr>) 3)) < 5" by simp
  from clear_netlink_ends [where pending = "\<lambda>k. length (concat (sim_input k 3))", OF _ this] *
  show ?thesis by blast
qed

end
