(* ===== verification/NodeState.thy ===== *)
theory NodeState
  imports AsyncFaults Sockets
begin

text \<open>
  The state of one process: the event loop, the kernel and the asynchronous descriptors
  (\<open>nd_io\<close>), the fields of \<open>ConnectionManager\<close> and of \<open>BroadcastManager\<close>, the
  transports registered with the manager, and the notifications the manager received so
  far. The sources guard the fields with mutexes; an operation of the model is one critical
  section or a sequence of them run without interruption.

  \<open>IpTransport\<close>'s upcalls \<open>OnLinkClosed\<close> etc. (\<open>src/ip_transport.cpp\<close>) are here as
  well; those that call back into the managers are in \<open>Transport\<close>.
\<close>

datatype notification =
    NewNeighbour transport_id peer_id
  | LostNeighbour transport_id peer_id
  | SessionOpened transport_id peer_id link_direction
  | SessionError transport_id peer_id error
  | SessionLost transport_id peer_id link_direction
  | MessageReceived transport_id peer_id message

type_synonym conn = "peer_id \<times> link_direction"

record 'k node =
  nd_io :: "'k io"
  listenFd :: descr
  activeConns :: "descr \<rightharpoonup> conn"
  connToFd :: "conn \<rightharpoonup> descr"
  sendQueues :: "descr \<rightharpoonup> message list"
  broadcastTimerFd :: descr
  broadcastFd :: descr
  netlinkFd :: descr
  fdToPeer :: "descr \<rightharpoonup> peer_id \<times> token"
  peerToFd :: "peer_id \<rightharpoonup> descr"
  peerToAddr :: "peer_id \<rightharpoonup> u32"
  addrToPeer :: "u32 \<rightharpoonup> peer_id"
  ifToPeer :: "(string \<times> peer_id) list"
  nd_self :: peer_id
  nd_transports :: "transport_id list"
  nd_trace :: "notification list"

text \<open>The members' default initialisers.\<close>

definition new_node :: "peer_id \<Rightarrow> 'k \<Rightarrow> 'k node" where
  "new_node self k =
     \<lparr>nd_io = \<lparr>io_loop = new_loop, io_kern = k, io_afds = (\<lambda>_. \<lparr>afd_fd = -1, afd_token = 0\<rparr>), io_next = 0\<rparr>,
      listenFd = -1, activeConns = Map.empty, connToFd = Map.empty, sendQueues = Map.empty,
      broadcastTimerFd = -1, broadcastFd = -1, netlinkFd = -1,
      fdToPeer = Map.empty, peerToFd = Map.empty, peerToAddr = Map.empty, addrToPeer = Map.empty, ifToPeer = [],
      nd_self = self, nd_transports = [], nd_trace = []\<rparr>"

section \<open>Running the operations of the lower layers\<close>

definition set_kern :: "'k \<Rightarrow> 'k node \<Rightarrow> 'k node" where
  "set_kern k w = w\<lparr>nd_io := (nd_io w)\<lparr>io_kern := k\<rparr>\<rparr>"

definition sys :: "('k \<Rightarrow> 'a \<times> 'k) \<Rightarrow> 'k node \<Rightarrow> 'a \<times> 'k node" where
  "sys f w = (let (r, k) = f (io_kern (nd_io w)) in (r, set_kern k w))"

definition on_loop ::
  "(callback epoll_loop \<Rightarrow> 'k \<Rightarrow> 'a \<times> callback epoll_loop \<times> 'k) \<Rightarrow> 'k node \<Rightarrow> 'a \<times> 'k node" where
  "on_loop f w = (let (r, l, k) = f (io_loop (nd_io w)) (io_kern (nd_io w)) in (r, w\<lparr>nd_io := set_loop l k (nd_io w)\<rparr>))"

definition on_io :: "('k io \<Rightarrow> 'a \<times> 'k io) \<Rightarrow> 'k node \<Rightarrow> 'a \<times> 'k node" where
  "on_io f w = (let (r, io) = f (nd_io w) in (r, w\<lparr>nd_io := io\<rparr>))"

text \<open>
  A call of \<open>AsyncFd::RecvMessage\<close> or \<open>SendMessage\<close>, with the resolve call it ends with;
  the callers ignore the \<open>bool\<close>.
\<close>

definition start_io ::
  "('k io \<Rightarrow> fault + bool \<times> user_call option \<times> 'k io) \<Rightarrow> 'k node \<Rightarrow> fault + user_call option \<times> 'k node" where
  "start_io f w = chain (f (nd_io w)) (\<lambda>(_, c, io). Inr (c, w\<lparr>nd_io := io\<rparr>))"

definition close_fd :: "'k kernel \<Rightarrow> descr \<Rightarrow> 'k node \<Rightarrow> 'k node" where
  "close_fd K fd w = set_kern (k_close K fd (io_kern (nd_io w))) w"

text \<open>\<open>loop_->RegisterAction(fd, IoDirection::INPUT, cb, token)\<close> with a token of 0.\<close>

definition register_input ::
  "'k kernel \<Rightarrow> descr \<Rightarrow> callback \<Rightarrow> 'k node \<Rightarrow> fault + (bool \<times> token) \<times> 'k node" where
  "register_input K fd cb w =
     chain (RegisterAction K fd INPUT cb 0 None (io_loop (nd_io w)) (io_kern (nd_io w)))
       (\<lambda>(r, l, k). Inr (r, w\<lparr>nd_io := set_loop l k (nd_io w)\<rparr>))"

section \<open>Notifications\<close>

definition GetTransportId :: transport_id where
  "GetTransportId = 1"

definition notify :: "notification \<Rightarrow> 'k node \<Rightarrow> 'k node" where
  "notify n w = w\<lparr>nd_trace := nd_trace w @ [n]\<rparr>"

definition OnNeighborLost :: "peer_id \<Rightarrow> 'k node \<Rightarrow> 'k node" where
  "OnNeighborLost peer = notify (LostNeighbour GetTransportId peer)"

definition OnLinkEstablishing :: "peer_id \<Rightarrow> link_direction \<Rightarrow> 'k node \<Rightarrow> 'k node" where
  "OnLinkEstablishing peer dir = notify (SessionOpened GetTransportId peer dir)"

definition OnLinkEstablishingError :: "peer_id \<Rightarrow> link_direction \<Rightarrow> open_session_error_kind \<Rightarrow> 'k node \<Rightarrow> 'k node" where
  "OnLinkEstablishingError peer dir kind = notify (SessionError GetTransportId peer (MakeError kind dir))"

definition OnLinkClosed :: "peer_id \<Rightarrow> link_direction \<Rightarrow> 'k node \<Rightarrow> 'k node" where
  "OnLinkClosed peer dir = notify (SessionLost GetTransportId peer dir)"

definition OnMessageReceived :: "peer_id \<Rightarrow> message \<Rightarrow> 'k node \<Rightarrow> 'k node" where
  "OnMessageReceived peer msg = notify (MessageReceived GetTransportId peer msg)"

lemmas upcall_defs = OnNeighborLost_def OnLinkEstablishing_def OnLinkEstablishingError_def OnLinkClosed_def
  OnMessageReceived_def

section \<open>What the helpers leave alone\<close>

text \<open>The fields of \<open>ConnectionManager\<close>, of \<open>BroadcastManager\<close>, and the trace.\<close>

definition conn_part :: "'k node \<Rightarrow> (descr \<rightharpoonup> conn) \<times> (conn \<rightharpoonup> descr) \<times> (descr \<rightharpoonup> message list)" where
  "conn_part w = (activeConns w, connToFd w, sendQueues w)"

definition peer_part ::
  "'k node \<Rightarrow> (descr \<rightharpoonup> peer_id \<times> token) \<times> (peer_id \<rightharpoonup> descr) \<times> (peer_id \<rightharpoonup> u32) \<times> (u32 \<rightharpoonup> peer_id) \<times> (string \<times> peer_id) list" where
  "peer_part w = (fdToPeer w, peerToFd w, peerToAddr w, addrToPeer w, ifToPeer w)"

lemma node_io_update [simp]:
  "conn_part (w\<lparr>nd_io := io\<rparr>) = conn_part w" "peer_part (w\<lparr>nd_io := io\<rparr>) = peer_part w"
  "conn_part (notify n w) = conn_part w" "peer_part (notify n w) = peer_part w"
  "nd_io (notify n w) = nd_io w" "nd_trace (notify n w) = nd_trace w @ [n]" "nd_self (notify n w) = nd_self w"
  "activeConns (notify n w) = activeConns w" "connToFd (notify n w) = connToFd w" "sendQueues (notify n w) = sendQueues w"
  "nd_transports (notify n w) = nd_transports w" "listenFd (notify n w) = listenFd w"
  by (simp_all add: conn_part_def peer_part_def notify_def)

lemma set_kern_simps [simp]:
  "nd_io (set_kern k w) = (nd_io w)\<lparr>io_kern := k\<rparr>" "nd_trace (set_kern k w) = nd_trace w"
  "conn_part (set_kern k w) = conn_part w" "peer_part (set_kern k w) = peer_part w"
  "activeConns (set_kern k w) = activeConns w" "connToFd (set_kern k w) = connToFd w"
  "sendQueues (set_kern k w) = sendQueues w" "nd_self (set_kern k w) = nd_self w"
  "nd_transports (set_kern k w) = nd_transports w" "listenFd (set_kern k w) = listenFd w"
  "fdToPeer (set_kern k w) = fdToPeer w" "peerToFd (set_kern k w) = peerToFd w"
  "peerToAddr (set_kern k w) = peerToAddr w" "addrToPeer (set_kern k w) = addrToPeer w"
  "ifToPeer (set_kern k w) = ifToPeer w" "broadcastFd (set_kern k w) = broadcastFd w"
  by (simp_all add: set_kern_def conn_part_def peer_part_def)

lemma close_fd_simps [simp]:
  "nd_trace (close_fd K fd w) = nd_trace w" "conn_part (close_fd K fd w) = conn_part w"
  "peer_part (close_fd K fd w) = peer_part w" "activeConns (close_fd K fd w) = activeConns w"
  "connToFd (close_fd K fd w) = connToFd w" "sendQueues (close_fd K fd w) = sendQueues w"
  "nd_self (close_fd K fd w) = nd_self w" "io_loop (nd_io (close_fd K fd w)) = io_loop (nd_io w)"
  "io_afds (nd_io (close_fd K fd w)) = io_afds (nd_io w)"
  "io_kern (nd_io (close_fd K fd w)) = k_close K fd (io_kern (nd_io w))"
  by (simp_all add: close_fd_def)

end
