(* ===== verification/Peers.thy ===== *)
theory Peers
  imports NodeState
begin

text \<open>
  \<open>src/ip_broadcast.cpp\<close>, the part that keeps track of visible peers: the hello
  broadcast, the tables of peers with a timer each, a peer's timer running out, and the
  lookups. \<open>ProcessHello\<close>'s last step calls back into \<open>ConnectionManager\<close>; all before
  it is \<open>track_peer\<close>, whose result says whether that step is reached, and the whole
  function is in \<open>Transport\<close>.
\<close>

section \<open>std::map ordered by string\<close>

fun str_less :: "string \<Rightarrow> string \<Rightarrow> bool" where
  "str_less [] ys \<longleftrightarrow> ys \<noteq> []"
| "str_less (x # xs) [] \<longleftrightarrow> False"
| "str_less (x # xs) (y # ys) \<longleftrightarrow>
     (of_char x :: nat) < of_char y \<or> x = y \<and> str_less xs ys"

fun sorted_assign :: "string \<Rightarrow> 'v \<Rightarrow> (string \<times> 'v) list \<Rightarrow> (string \<times> 'v) list" where
  "sorted_assign k v [] = [(k, v)]"
| "sorted_assign k v ((j, u) # xs) =
     (if k = j then (k, v) # xs
      else if str_less k j then (k, v) # (j, u) # xs
      else (j, u) # sorted_assign k v xs)"

lemma map_of_sorted_assign [simp]: "map_of (sorted_assign k v xs) = (map_of xs)(k \<mapsto> v)"
  by (induction k v xs rule: sorted_assign.induct) (auto simp: fun_upd_twist)

section \<open>Operations\<close>

fun send_hellos :: "'k kernel \<Rightarrow> descr \<Rightarrow> byte list \<Rightarrow> u32 list \<Rightarrow> 'k \<Rightarrow> 'k" where
  "send_hellos K fd msg [] k = k"
| "send_hellos K fd msg (addr # rest) k = send_hellos K fd msg rest (snd (send_broadcast K fd msg addr k))"

definition SendBroadcastHello :: "'k kernel \<Rightarrow> 'k node \<Rightarrow> 'k node" where
  "SendBroadcastHello K w =
     (let msg = make_hello (nd_self w) Notify;
          (ifs, w) = sys (k_getifaddrs K) w
      in set_kern (send_hellos K (broadcastFd w) (Serialize msg) (GetBroadcastAddresses ifs) (io_kern (nd_io w))) w)"

definition track_peer :: "'k kernel \<Rightarrow> u32 \<Rightarrow> hello_msg \<Rightarrow> 'k node \<Rightarrow> fault + bool \<times> 'k node" where
  "track_peer K sender msg w =
     (if hm_id msg = nd_self w then Inr (False, w)
      else
        let (tfd, m) = map_index 0 (hm_id msg) (peerToFd w);
            w = w\<lparr>peerToFd := m\<rparr>
        in if tfd \<noteq> 0 then Inr (False, snd (sys (set_timer K tfd LOST_PEER_DELAY) w))
        else
          let (tfd, w) = sys (create_timer K LOST_PEER_DELAY) w
          in if tfd = -1 then Inr (False, w)
          else chain (register_input K tfd (PeerLostCb tfd) w) (\<lambda>((ok, token), w).
            if \<not> ok then Inr (False, w)
            else
              let w = w\<lparr>peerToFd := (peerToFd w)(hm_id msg \<mapsto> tfd),
                        fdToPeer := map_emplace tfd (hm_id msg, token) (fdToPeer w),
                        peerToAddr := (peerToAddr w)(hm_id msg \<mapsto> sender),
                        addrToPeer := (addrToPeer w)(sender \<mapsto> hm_id msg)\<rparr>;
                  (ifs, w) = sys (k_getifaddrs K) w
              in case get_interface_by_ip ifs sender of
                   None \<Rightarrow> Inl NullString
                 | Some ifname \<Rightarrow> Inr (True, w\<lparr>ifToPeer := sorted_assign ifname (hm_id msg) (ifToPeer w)\<rparr>)))"

definition ProcessPeerLost :: "'k kernel \<Rightarrow> descr \<Rightarrow> 'k node \<Rightarrow> 'k node" where
  "ProcessPeerLost K fd w =
     (let w = set_kern (k_read K fd (io_kern (nd_io w))) w
      in case fdToPeer w fd of
           None \<Rightarrow> w
         | Some (peer, token) \<Rightarrow>
             let (addr, m) = map_index 0 peer (peerToAddr w);
                 w = w\<lparr>peerToAddr := m\<rparr>;
                 (_, w) = on_loop (DeregisterAction K token) w
             in OnNeighborLost peer
                  (w\<lparr>peerToFd := map_erase peer (peerToFd w), fdToPeer := map_erase fd (fdToPeer w),
                     peerToAddr := map_erase peer (peerToAddr w), addrToPeer := map_erase addr (addrToPeer w)\<rparr>))"

definition GetAddress :: "peer_id \<Rightarrow> 'k node \<Rightarrow> u32 option" where
  "GetAddress peer w = peerToAddr w peer"

definition GetPeer :: "u32 \<Rightarrow> 'k node \<Rightarrow> peer_id option" where
  "GetPeer addr w = addrToPeer w addr"

section \<open>The tables of peers\<close>

text \<open>
  A peer is tracked while it has a timer; \<open>timer\<close> is what \<open>peerToFd_[peer]\<close> reads, 0 for
  none. The invariant: a timer and its peer name each other, a peer has an address exactly
  while it is tracked, and the peer an address leads to has that address.
\<close>

definition timer :: "'k node \<Rightarrow> peer_id \<Rightarrow> descr" where
  "timer w p = (case peerToFd w p of None \<Rightarrow> 0 | Some fd \<Rightarrow> fd)"

definition peers_inv :: "'k node \<Rightarrow> bool" where
  "peers_inv w \<longleftrightarrow>
     (\<forall>p. timer w p \<noteq> 0 \<longrightarrow> map_option fst (fdToPeer w (timer w p)) = Some p) \<and>
     (\<forall>fd p t. fdToPeer w fd = Some (p, t) \<longrightarrow> timer w p = fd \<and> fd \<noteq> 0) \<and>
     (\<forall>p. peerToAddr w p = None \<longleftrightarrow> timer w p = 0) \<and>
     (\<forall>a p. addrToPeer w a = Some p \<longrightarrow> peerToAddr w p = Some a) \<and>
     timer w (nd_self w) = 0"

lemma timer_simps [simp]:
  "timer (w\<lparr>nd_io := io\<rparr>) = timer w" "timer (notify n w) = timer w" "timer (set_kern k w) = timer w"
  "timer (w\<lparr>ifToPeer := i\<rparr>) = timer w" "timer (w\<lparr>fdToPeer := f\<rparr>) = timer w"
  "timer (w\<lparr>peerToAddr := pa\<rparr>) = timer w" "timer (w\<lparr>addrToPeer := ap\<rparr>) = timer w"
  "timer (w\<lparr>peerToFd := (peerToFd w')(p \<mapsto> fd)\<rparr>) = (timer (w\<lparr>peerToFd := peerToFd w'\<rparr>))(p := fd)"
  "timer (w\<lparr>peerToFd := map_erase p (peerToFd w')\<rparr>) = (timer (w\<lparr>peerToFd := peerToFd w'\<rparr>))(p := 0)"
  by (auto simp: timer_def notify_def set_kern_def fun_eq_iff map_erase_def)

lemma timer_index: "map_index 0 p (peerToFd w) = (fd, m) \<Longrightarrow> fd = timer w p \<and> timer (w\<lparr>peerToFd := m\<rparr>) = timer w"
proof (cases "peerToFd w p")
  case None
  assume "map_index 0 p (peerToFd w) = (fd, m)"
  with None have "fd = 0" "m = (peerToFd w)(p \<mapsto> 0)" by simp_all
  with None show ?thesis by (simp add: timer_def fun_eq_iff)
next
  case (Some x)
  assume "map_index 0 p (peerToFd w) = (fd, m)"
  with Some have "fd = x" "m = peerToFd w" by simp_all
  with Some show ?thesis by (simp add: timer_def)
qed

lemma peers_inv_frame [simp]:
  "peers_inv (w\<lparr>nd_io := io\<rparr>) = peers_inv w" "peers_inv (notify n w) = peers_inv w"
  "peers_inv (set_kern k w) = peers_inv w" "peers_inv (w\<lparr>ifToPeer := m\<rparr>) = peers_inv w"
  by (simp_all add: peers_inv_def) (simp_all add: notify_def set_kern_def)

lemma peers_inv_index:
  assumes "peers_inv w" and "map_index 0 p (peerToFd w) = (fd, m)"
  shows "peers_inv (w\<lparr>peerToFd := m\<rparr>)"
  using assms(1) timer_index [OF assms(2)] by (simp add: peers_inv_def)

lemma peers_inv_add:
  assumes "peers_inv w" and "timer w p = 0" and "p \<noteq> nd_self w" and "fdToPeer w fd = None" and "fd \<noteq> 0"
  shows "peers_inv (w\<lparr>peerToFd := (peerToFd w)(p \<mapsto> fd), fdToPeer := map_emplace fd (p, t) (fdToPeer w),
    peerToAddr := (peerToAddr w)(p \<mapsto> a), addrToPeer := (addrToPeer w)(a \<mapsto> p)\<rparr>)" (is "peers_inv ?w")
proof -
  have t: "timer ?w = (timer w)(p := fd)" by (simp add: timer_def fun_eq_iff)
  note inv = assms(1) [unfolded peers_inv_def]
  have untracked: "fdToPeer w f \<noteq> Some (p, t')" for f t' using inv assms(2) by blast
  have unused: "timer w q \<noteq> fd" for q
  proof
    assume "timer w q = fd"
    with inv assms(5) have "map_option fst (fdToPeer w fd) = Some q" by metis
    with assms(4) show False by simp
  qed
  from inv assms(2) have "peerToAddr w p = None" by blast
  then have noaddr: "addrToPeer w b \<noteq> Some p" for b using inv by force
  show ?thesis
    unfolding peers_inv_def t
  proof (intro conjI allI impI)
    fix q assume "((timer w)(p := fd)) q \<noteq> 0"
    moreover have "timer w q \<noteq> 0 \<Longrightarrow> map_option fst (fdToPeer w (timer w q)) = Some q" using inv by blast
    ultimately show "map_option fst (fdToPeer ?w (((timer w)(p := fd)) q)) = Some q"
      using assms(4) unused [of q] by (cases "q = p") simp_all
  next
    fix f q t' assume "fdToPeer ?w f = Some (q, t')"
    then have "f = fd \<and> q = p \<or> f \<noteq> fd \<and> fdToPeer w f = Some (q, t')"
      using assms(4) by (auto split: if_splits)
    moreover have "fdToPeer w f = Some (q, t') \<Longrightarrow> q \<noteq> p" using untracked by blast
    ultimately show "((timer w)(p := fd)) q = f" "f \<noteq> 0" using inv assms(5) by auto
  next
    fix q show "(peerToAddr ?w q = None) = (((timer w)(p := fd)) q = 0)" using inv assms(5) by simp
  next
    fix b q assume "addrToPeer ?w b = Some q"
    then show "peerToAddr ?w q = Some b" using inv noaddr by (auto split: if_splits)
  next
    show "((timer w)(p := fd)) (nd_self ?w) = 0" using inv assms(3) by simp
  qed
qed

lemma peers_inv_remove:
  assumes "peers_inv w" and "fdToPeer w fd = Some (p, t)" and "peerToAddr w p = Some a"
  shows "peers_inv (w\<lparr>peerToFd := map_erase p (peerToFd w), fdToPeer := map_erase fd (fdToPeer w),
    peerToAddr := map_erase p (peerToAddr w), addrToPeer := map_erase a (addrToPeer w)\<rparr>)" (is "peers_inv ?w")
proof -
  have t: "timer ?w = (timer w)(p := 0)" by (simp add: timer_def fun_eq_iff map_erase_def)
  note inv = assms(1) [unfolded peers_inv_def]
  have own: "timer w p = fd" "fd \<noteq> 0" using inv assms(2) by blast+
  have other: "q = p" if "timer w q = fd" for q
  proof -
    from that own(2) inv have "map_option fst (fdToPeer w fd) = Some q" by metis
    with assms(2) show ?thesis by simp
  qed
  show ?thesis
    unfolding peers_inv_def t
  proof (intro conjI allI impI)
    fix q assume "((timer w)(p := 0)) q \<noteq> 0"
    then have q: "q \<noteq> p" "timer w q \<noteq> 0" by (auto split: if_splits)
    from inv q(2) have "map_option fst (fdToPeer w (timer w q)) = Some q" by blast
    moreover have "timer w q \<noteq> fd" using other q(1) by blast
    ultimately show "map_option fst (fdToPeer ?w (((timer w)(p := 0)) q)) = Some q"
      using q(1) by (simp add: map_erase_def)
  next
    fix f q t' assume "fdToPeer ?w f = Some (q, t')"
    then have f: "f \<noteq> fd" "fdToPeer w f = Some (q, t')" by (auto simp: map_erase_Some)
    with inv have "timer w q = f" "f \<noteq> 0" by blast+
    with f(1) own show "((timer w)(p := 0)) q = f" "f \<noteq> 0" by auto
  next
    fix q show "(peerToAddr ?w q = None) = (((timer w)(p := 0)) q = 0)" using inv by (simp add: map_erase_def)
  next
    fix b q assume "addrToPeer ?w b = Some q"
    then have b: "b \<noteq> a" "addrToPeer w b = Some q" by (auto simp: map_erase_Some)
    with inv have "peerToAddr w q = Some b" by blast
    with b(1) assms(3) show "peerToAddr ?w q = Some b" by (auto simp: map_erase_Some)
  next
    show "((timer w)(p := 0)) (nd_self ?w) = 0" using inv by simp
  qed
qed

section \<open>What track\_peer and ProcessPeerLost do to the tables\<close>

text \<open>
  The descriptors of the timers are open, and so is descriptor 0 (a process starts with it
  open and the program never closes it): a new timer is then none of them.
\<close>

definition timers_open :: "('k \<Rightarrow> descr set) \<Rightarrow> 'k node \<Rightarrow> bool" where
  "timers_open opn w \<longleftrightarrow> insert 0 (dom (fdToPeer w)) \<subseteq> opn (io_kern (nd_io w))"

lemma creatingD:
  assumes "creating opn r k k'"
  shows "if r = -1 then opn k' = opn k else r \<notin> opn k \<and> opn k' = insert r (opn k)"
proof (cases "r < 0")
  case True
  with assms show ?thesis unfolding creating_def by presburger
next
  case False
  then have "r \<noteq> -1" by simp
  with False assms show ?thesis unfolding creating_def by presburger
qed

lemma create_timer_fresh:
  assumes "fd_laws K opn" and "sys (create_timer K sec) w = (fd, w')"
  obtains k where "w' = set_kern k w"
    and "if fd = -1 then opn k = opn (io_kern (nd_io w))
         else fd \<notin> opn (io_kern (nd_io w)) \<and> opn k = insert fd (opn (io_kern (nd_io w)))"
proof -
  let ?k = "io_kern (nd_io w)"
  obtain fd0 k1 where c: "k_timerfd_create K ?k = (fd0, k1)" by force
  let ?k2 = "snd (set_timer K fd0 sec k1)"
  have r: "fd = fd0" "w' = set_kern ?k2 w"
    using assms(2) by (auto simp: sys_def create_timer_def c Let_def)
  have o: "opn ?k2 = opn k1"
    by (simp add: set_timer_def fd_laws_keep [OF assms(1)])
  have "creating opn fd0 ?k k1" using fd_laws_create(3) [OF assms(1), of ?k] unfolding c fst_conv snd_conv .
  from creatingD [OF this] show thesis
    by (intro that [of ?k2]) (simp_all only: r o)
qed

lemma register_input_total:
  obtains r l k where "RegisterAction K fd INPUT cb 0 None (io_loop (nd_io w)) (io_kern (nd_io w)) = Inr (r, l, k)"
    and "register_input K fd cb w = Inr (r, w\<lparr>nd_io := set_loop l k (nd_io w)\<rparr>)"
proof -
  from RegisterAction_no_fault [OF refl, of K fd INPUT cb None "io_loop (nd_io w)" "io_kern (nd_io w)"]
  obtain x where x: "RegisterAction K fd INPUT cb 0 None (io_loop (nd_io w)) (io_kern (nd_io w)) = Inr x" ..
  obtain r l k where "x = (r, l, k)" by (cases x)
  with x show thesis by (intro that [of r l k]) (simp_all add: register_input_def)
qed

lemma register_input_result:
  assumes "register_input K fd cb w = Inr (r, w')"
  obtains l k where "RegisterAction K fd INPUT cb 0 None (io_loop (nd_io w)) (io_kern (nd_io w)) = Inr (r, l, k)"
    and "w' = w\<lparr>nd_io := set_loop l k (nd_io w)\<rparr>"
  by (rule register_input_total [of K fd cb w]) (use assms that in simp)

lemma register_input_no_fault: "\<exists>r w'. register_input K fd cb w = Inr (r, w')"
  by (rule register_input_total [of K fd cb w]) blast

lemma quiet_register_input:
  assumes "quiet K obs" and "register_input K fd cb w = Inr (r, w')"
  shows "obs (io_kern (nd_io w')) = obs (io_kern (nd_io w))"
  by (rule register_input_result [OF assms(2)]) (auto dest: quiet_RegisterAction [OF assms(1)])

lemma track_peer_step:
  assumes "fd_laws K opn" and "peers_inv w" and "timers_open opn w" and "track_peer K a msg w = Inr (b, w')"
  shows "peers_inv w' \<and> timers_open opn w' \<and>
    (if b then hm_id msg \<noteq> nd_self w \<and> GetAddress (hm_id msg) w = None
            \<and> peerToAddr w' = (peerToAddr w)(hm_id msg \<mapsto> a) \<and> GetPeer a w' = Some (hm_id msg)
     else peerToAddr w' = peerToAddr w \<and> addrToPeer w' = addrToPeer w \<and> timer w' = timer w)"
proof (cases "hm_id msg = nd_self w")
  case True
  with assms show ?thesis by (simp add: track_peer_def)
next
  case other: False
  let ?p = "hm_id msg"
  obtain tfd m where ix: "map_index 0 ?p (peerToFd w) = (tfd, m)" by force
  let ?w1 = "w\<lparr>peerToFd := m\<rparr>"
  from timer_index [OF ix] have t1: "tfd = timer w ?p" "timer ?w1 = timer w" by simp_all
  have inv1: "peers_inv ?w1" by (rule peers_inv_index [OF assms(2) ix])
  show ?thesis
  proof (cases "tfd = 0")
    case False
    then have "w' = snd (sys (set_timer K tfd LOST_PEER_DELAY) ?w1)" "\<not> b"
      using assms(4) other by (auto simp: track_peer_def ix Let_def)
    then show ?thesis
      using inv1 t1 assms(3)
      by (simp add: sys_def set_timer_def timers_open_def case_prod_beta fd_laws_keep(7) [OF assms(1)])
  next
    case True
    obtain fd w2 where c: "sys (create_timer K LOST_PEER_DELAY) ?w1 = (fd, w2)" by force
    obtain k2 where w2: "w2 = set_kern k2 ?w1" and fresh: "if fd = -1 then opn k2 = opn (io_kern (nd_io w))
         else fd \<notin> opn (io_kern (nd_io w)) \<and> opn k2 = insert fd (opn (io_kern (nd_io w)))"
    proof -
      have io: "nd_io ?w1 = nd_io w" by simp
      obtain k2 where k2: "w2 = set_kern k2 ?w1" "if fd = -1 then opn k2 = opn (io_kern (nd_io ?w1))
         else fd \<notin> opn (io_kern (nd_io ?w1)) \<and> opn k2 = insert fd (opn (io_kern (nd_io ?w1)))"
        by (rule create_timer_fresh [OF assms(1) c])
      show thesis by (rule that [OF k2(1) k2(2) [unfolded io]])
    qed
    obtain ok t w3 where reg: "register_input K fd (PeerLostCb fd) w2 = Inr ((ok, t), w3)"
      using register_input_no_fault by (metis surj_pair)
    obtain io where w3: "w3 = w2\<lparr>nd_io := io\<rparr>" by (rule register_input_result [OF reg]) blast
    have opn3: "opn (io_kern (nd_io w3)) = opn (io_kern (nd_io w2))"
      by (rule quiet_register_input [OF fd_laws_quiet [OF assms(1)] reg])
    show ?thesis
    proof (cases "fd = -1 \<or> \<not> ok")
      case True
      then have "\<not> b" and w': "w' = (if fd = -1 then w2 else w3)"
        using assms(4) other \<open>tfd = 0\<close> by (cases "fd = -1"; auto simp: track_peer_def ix Let_def c reg)+
      then show ?thesis
        using inv1 t1 assms(3) opn3 fresh by (auto simp: timers_open_def w2 w3 split: if_splits)
    next
      case False
      then have fd: "fd \<notin> opn (io_kern (nd_io w))" "opn k2 = insert fd (opn (io_kern (nd_io w)))"
        using fresh by simp_all
      let ?w4 = "w3\<lparr>peerToFd := (peerToFd w3)(?p \<mapsto> fd), fdToPeer := map_emplace fd (?p, t) (fdToPeer w3),
          peerToAddr := (peerToAddr w3)(?p \<mapsto> a), addrToPeer := (addrToPeer w3)(a \<mapsto> ?p)\<rparr>"
      obtain ifs k where ifs: "k_getifaddrs K (io_kern (nd_io ?w4)) = (ifs, k)" by force
      then have "sys (k_getifaddrs K) ?w4 = (ifs, set_kern k ?w4)" by (simp add: sys_def)
      with assms(4) other \<open>tfd = 0\<close> False obtain i where b: "b"
        and w': "w' = (set_kern k ?w4)\<lparr>ifToPeer := i\<rparr>"
        by (auto simp: track_peer_def ix Let_def c reg split: option.split_asm)
      have w3': "w3 = w\<lparr>peerToFd := m, nd_io := io\<rparr>" by (simp add: w3 w2 set_kern_def)
      have "fdToPeer w fd = None" "fd \<noteq> 0" using fd(1) assms(3) by (auto simp: timers_open_def)
      with inv1 other \<open>tfd = 0\<close> t1 have "peers_inv ?w4" by (intro peers_inv_add) (auto simp: w3')
      then have inv: "peers_inv w'" by (simp add: w')
      have "opn k = opn (io_kern (nd_io w3))" using fd_laws_keep(11) [OF assms(1), of "io_kern (nd_io ?w4)"] ifs by simp
      then have "timers_open opn w'" using assms(3) fd(2) opn3 by (auto simp: w' timers_open_def w3 w2)
      moreover have "GetAddress ?p w = None"
        using assms(2) t1 \<open>tfd = 0\<close> by (simp add: GetAddress_def peers_inv_def)
      ultimately show ?thesis using b inv other by (simp add: w' w3' GetPeer_def set_kern_def)
    qed
  qed
qed

text \<open>
  A hello either adds its sender to the tables, with the address it came from, or
  leaves the tracked peers and their addresses as they are; it adds the sender exactly when
  the result asks for a notification. Either way the tables stay consistent, and our own
  hello is never tracked.
\<close>

lemma track_peer_tables:
  assumes "fd_laws K opn" and "peers_inv w" and "timers_open opn w" and "track_peer K a msg w = Inr (b, w')"
  shows "peers_inv w' \<and> timers_open opn w' \<and>
    (if b then hm_id msg \<noteq> nd_self w \<and> GetAddress (hm_id msg) w = None
            \<and> peerToAddr w' = (peerToAddr w)(hm_id msg \<mapsto> a) \<and> GetPeer a w' = Some (hm_id msg)
     else peerToAddr w' = peerToAddr w \<and> addrToPeer w' = addrToPeer w \<and> timer w' = timer w)"
  by (rule track_peer_step [OF assms])

lemma ProcessPeerLost_result:
  assumes "peers_inv w" and "fdToPeer w fd = Some (p, t)"
  obtains a b l k where "peerToAddr w p = Some a"
    and "DeregisterAction K t (io_loop (nd_io w)) (k_read K fd (io_kern (nd_io w))) = (b, l, k)"
    and "ProcessPeerLost K fd w = notify (LostNeighbour GetTransportId p)
      ((w\<lparr>nd_io := set_loop l k (nd_io w)\<rparr>)\<lparr>peerToFd := map_erase p (peerToFd w),
        fdToPeer := map_erase fd (fdToPeer w), peerToAddr := map_erase p (peerToAddr w),
        addrToPeer := map_erase a (addrToPeer w)\<rparr>)"
proof -
  have "timer w p \<noteq> 0" using assms unfolding peers_inv_def by blast
  then have "peerToAddr w p \<noteq> None" using assms(1) unfolding peers_inv_def by blast
  then obtain a where a: "peerToAddr w p = Some a" by blast
  obtain b l k where d: "DeregisterAction K t (io_loop (nd_io w)) (k_read K fd (io_kern (nd_io w))) = (b, l, k)"
    by (metis prod_cases3)
  show thesis
    by (rule that [OF a d])
      (simp add: ProcessPeerLost_def on_loop_def Let_def OnNeighborLost_def set_kern_def assms(2) a d set_loop_def)
qed

lemma ProcessPeerLost_step:
  assumes "peers_inv w" and "fdToPeer w fd = Some (p, t)"
  shows "peers_inv (ProcessPeerLost K fd w)
    \<and> timer (ProcessPeerLost K fd w) = (timer w)(p := 0)
    \<and> GetAddress p (ProcessPeerLost K fd w) = None \<and> fdToPeer (ProcessPeerLost K fd w) fd = None
    \<and> nd_trace (ProcessPeerLost K fd w) = nd_trace w @ [LostNeighbour GetTransportId p]"
proof (rule ProcessPeerLost_result [OF assms, of K])
  fix a l k
  assume a: "peerToAddr w p = Some a"
    and r: "ProcessPeerLost K fd w = notify (LostNeighbour GetTransportId p)
      ((w\<lparr>nd_io := set_loop l k (nd_io w)\<rparr>)\<lparr>peerToFd := map_erase p (peerToFd w),
        fdToPeer := map_erase fd (fdToPeer w), peerToAddr := map_erase p (peerToAddr w),
        addrToPeer := map_erase a (addrToPeer w)\<rparr>)" (is "_ = notify _ (?w1\<lparr>peerToFd := _, fdToPeer := _, peerToAddr := _, addrToPeer := _\<rparr>)")
  have "peers_inv ?w1" "fdToPeer ?w1 fd = Some (p, t)" "peerToAddr ?w1 p = Some a" using assms a by simp_all
  from peers_inv_remove [OF this] have "peers_inv (ProcessPeerLost K fd w)" unfolding r by simp
  moreover have "timer (ProcessPeerLost K fd w) = (timer w)(p := 0)" unfolding r by (simp add: timer_def fun_eq_iff map_erase_def notify_def)
  moreover have "GetAddress p (ProcessPeerLost K fd w) = None \<and> fdToPeer (ProcessPeerLost K fd w) fd = None
    \<and> nd_trace (ProcessPeerLost K fd w) = nd_trace w @ [LostNeighbour GetTransportId p]"
    unfolding r by (simp add: GetAddress_def notify_def)
  ultimately show ?thesis by simp
qed


text \<open>
  Nothing closes the timer of a lost peer: its descriptor is open after
  \<open>ProcessPeerLost\<close> if it was before, although no table refers to it any more, so every
  peer lost costs the process a descriptor.
\<close>

lemma ProcessPeerLost_leaks_timer:
  assumes "fd_laws K opn" and "peers_inv w" and "fdToPeer w fd = Some (p, t)" and "fd \<in> opn (io_kern (nd_io w))"
  shows "fd \<in> opn (io_kern (nd_io (ProcessPeerLost K fd w))) \<and> fdToPeer (ProcessPeerLost K fd w) fd = None"
proof (rule ProcessPeerLost_result [OF assms(2,3), of K])
  fix a b l k
  assume d: "DeregisterAction K t (io_loop (nd_io w)) (k_read K fd (io_kern (nd_io w))) = (b, l, k)"
    and r: "ProcessPeerLost K fd w = notify (LostNeighbour GetTransportId p)
      ((w\<lparr>nd_io := set_loop l k (nd_io w)\<rparr>)\<lparr>peerToFd := map_erase p (peerToFd w),
        fdToPeer := map_erase fd (fdToPeer w), peerToAddr := map_erase p (peerToAddr w),
        addrToPeer := map_erase a (addrToPeer w)\<rparr>)"
  have "opn k = opn (k_read K fd (io_kern (nd_io w)))" by (rule quiet_DeregisterAction [OF fd_laws_quiet [OF assms(1)] d])
  then show ?thesis using assms(4) unfolding r by (simp add: fd_laws_keep(9) [OF assms(1)]) (simp add: notify_def)
qed

section \<open>The properties on the concrete kernel\<close>

definition sim_if :: ifaddr where
  "sim_if = \<lparr>ifa_name = ''eth0'', ifa_flags = 0x3, ifa_addr = Some \<lparr>sin_family = 2, sin_port = 0, sin_addr = 0x0101A8C0\<rparr>,
     ifa_netmask = Some \<lparr>sin_family = 2, sin_port = 0, sin_addr = 0x00FFFFFF\<rparr>\<rparr>"

definition sim_node :: "sim node" where
  "sim_node = new_node (PeerId 0 0 0 0 0 1) (sim0\<lparr>sim_ifs := [sim_if]\<rparr>)"

text \<open>Peer 2 is tracked, its timer is descriptor 2.\<close>

definition sim_node_tracking :: "sim node" where
  "sim_node_tracking = sim_node\<lparr>peerToFd := [PeerId 0 0 0 0 0 2 \<mapsto> 2], fdToPeer := [2 \<mapsto> (PeerId 0 0 0 0 0 2, 1)],
     peerToAddr := [PeerId 0 0 0 0 0 2 \<mapsto> 7], addrToPeer := [7 \<mapsto> PeerId 0 0 0 0 0 2]\<rparr>"

lemma peers_inv_new_node: "peers_inv (new_node self k)"
  by (simp add: peers_inv_def new_node_def timer_def)

lemma peers_inv_sim: "peers_inv sim_node_tracking"
  by (auto simp: peers_inv_def sim_node_tracking_def sim_node_def new_node_def timer_def split: if_splits)

lemmas sim_node_defs = sim_loop_defs sim_node_def sim_if_def new_node_def sys_def set_kern_def
  create_timer_def set_timer_def register_input_def set_loop_def get_interface_by_ip_def AF_INET_def

theorem track_peer_tables_witness:
  "\<exists>w'. track_peer sim_kernel 0x0201A8C0 (make_hello (PeerId 0 0 0 0 0 2) Notify) sim_node = Inr (True, w')
     \<and> peers_inv w' \<and> GetPeer 0x0201A8C0 w' = Some (PeerId 0 0 0 0 0 2)"
proof -
  let ?m = "make_hello (PeerId 0 0 0 0 0 2) Notify"
  have "\<exists>w'. track_peer sim_kernel 0x0201A8C0 ?m sim_node = Inr (True, w')"
    by (simp del: map_of_table add: sim_node_defs track_peer_def)
  then obtain w' where r: "track_peer sim_kernel 0x0201A8C0 ?m sim_node = Inr (True, w')" by blast
  have "peers_inv sim_node" "timers_open (\<lambda>k. set (sim_open k)) sim_node"
    by (simp_all add: peers_inv_new_node sim_node_def) (simp add: timers_open_def new_node_def sim0_def)
  from track_peer_tables [OF sim_fd_laws this r] r show ?thesis by simp
qed


theorem ProcessPeerLost_leaks_timer_witness:
  "2 \<in> set (sim_open (io_kern (nd_io (ProcessPeerLost sim_kernel 2 sim_node_tracking))))"
proof -
  have "fdToPeer sim_node_tracking 2 = Some (PeerId 0 0 0 0 0 2, 1)"
    and "2 \<in> set (sim_open (io_kern (nd_io sim_node_tracking)))"
    by (simp_all add: sim_node_tracking_def sim_node_def new_node_def sim0_def)
  from ProcessPeerLost_leaks_timer [OF sim_fd_laws peers_inv_sim this] show ?thesis by simp
qed

end
