(* ===== verification/ConnManager.thy ===== *)
theory ConnManager
  imports Peers
begin

text \<open>
  \<open>src/ip_conn_manager.cpp\<close>: connections and the hello exchange on them, the queue of
  outgoing messages of each connection, the reading loop, and closing. A lambda passed to
  \<open>AsyncFd\<close> is the definition \<open>..._cb\<close>; it runs when the operation resolves, which may
  be at once if the callback cannot be registered, and then always with an error
  (\<open>RecvMessage_call\<close>, \<open>SendMessage_call\<close>).
\<close>

section \<open>Listening and closing\<close>

definition ConnectionManager_Start :: "'k kernel \<Rightarrow> 'k node \<Rightarrow> fault + bool \<times> 'k node" where
  "ConnectionManager_Start K w =
     (let (fd, w) = sys (create_tcp_socket K TCP_LISTEN_PORT) w; w = w\<lparr>listenFd := fd\<rparr>
      in if fd = -1 then Inr (False, w) else
      let (r, w) = sys (k_listen K (listenFd w) 1000) w
      in if r \<noteq> 0 then Inr (False, close_fd K (listenFd w) w)
      else chain (register_input K (listenFd w) AcceptCb w) (\<lambda>((ok, _), w).
        if \<not> ok then Inr (False, close_fd K (listenFd w) w) else Inr (True, w)))"

definition CloseFD :: "'k kernel \<Rightarrow> descr \<Rightarrow> 'k node \<Rightarrow> 'k node" where
  "CloseFD K fd w =
     (let (_, w) = on_loop (DeregisterFd K fd) w;
          w = close_fd K fd w
      in case activeConns w fd of
           None \<Rightarrow> w
         | Some conn \<Rightarrow>
             OnLinkClosed (fst conn) (snd conn)
               (w\<lparr>activeConns := map_erase fd (activeConns w), connToFd := map_erase conn (connToFd w),
                  sendQueues := map_erase fd (sendQueues w)\<rparr>))"

definition close_dir :: "'k kernel \<Rightarrow> peer_id \<Rightarrow> link_direction \<Rightarrow> link_direction \<Rightarrow> 'k node \<Rightarrow> 'k node" where
  "close_dir K peer dir one w =
     (if dir = ALL_DIR \<or> dir = one
      then case connToFd w (peer, one) of None \<Rightarrow> w | Some fd \<Rightarrow> CloseFD K fd w
      else w)"

definition CloseConn :: "'k kernel \<Rightarrow> peer_id \<Rightarrow> link_direction \<Rightarrow> 'k node \<Rightarrow> 'k node" where
  "CloseConn K peer dir w = close_dir K peer dir OUTGOING (close_dir K peer dir INCOMING w)"

section \<open>Reading\<close>

text \<open>The lambda of \<open>ReadMessage\<close> with an error.\<close>

definition read_err_cb :: "'k kernel \<Rightarrow> afd_ref \<Rightarrow> 'k node \<Rightarrow> 'k node" where
  "read_err_cb K a w =
     (case activeConns w (Get a (nd_io w)) of
        None \<Rightarrow> w
      | Some _ \<Rightarrow> let (fd, w) = on_io (Release K a) w in CloseFD K fd w)"

definition ReadMessage :: "'k kernel \<Rightarrow> descr \<Rightarrow> 'k node \<Rightarrow> fault + 'k node" where
  "ReadMessage K fd w =
     (let (a, w) = on_io (Create fd) w
      in chain (start_io (RecvMessage K a ReadNext) w) (\<lambda>(c, w).
           Inr (case c of None \<Rightarrow> w | Some _ \<Rightarrow> read_err_cb K a w)))"

definition read_cb :: "'k kernel \<Rightarrow> afd_ref \<Rightarrow> message io_result \<Rightarrow> 'k node \<Rightarrow> fault + 'k node" where
  "read_cb K a res w =
     (case activeConns w (Get a (nd_io w)) of
        None \<Rightarrow> Inr w
      | Some (peer, dir) \<Rightarrow>
          (case res of
             Err _ \<Rightarrow> Inr (read_err_cb K a w)
           | Ok msg \<Rightarrow>
               let w = OnMessageReceived peer msg w;
                   (fd, w) = on_io (Release K a) w
               in ReadMessage K fd w))"

section \<open>Sending\<close>

text \<open>
  The body of the lambda of \<open>SendMessageFd\<close> up to its last call. The result says how it
  ends: it returns early (\<open>None\<close>), or it pops the queue and the descriptor is released,
  with another message to send or not. \<open>pop_front\<close> on an empty deque is undefined.
\<close>

definition sent_pop :: "afd_ref \<Rightarrow> 'k node \<Rightarrow> fault + bool option \<times> 'k node" where
  "sent_pop a w =
     (let fd = Get a (nd_io w)
      in case activeConns w fd of
           None \<Rightarrow> Inr (None, w)
         | Some _ \<Rightarrow>
             (case sendQueues w fd of
                None \<Rightarrow> Inr (None, w)
              | Some [] \<Rightarrow> Inl EmptyContainer
              | Some (_ # q) \<Rightarrow> Inr (Some (q \<noteq> []), w\<lparr>sendQueues := (sendQueues w)(fd \<mapsto> q)\<rparr>)))"

text \<open>
  \<open>std::move\<close> of the first message leaves an empty vector in the queue, which holds its
  place until the message is sent.
\<close>

definition queue_len :: "descr \<Rightarrow> 'k node \<Rightarrow> nat" where
  "queue_len fd w = (case sendQueues w fd of None \<Rightarrow> 0 | Some q \<Rightarrow> length q)"

definition take_front :: "descr \<Rightarrow> 'k node \<Rightarrow> (message \<times> 'k node) option" where
  "take_front fd w =
     (case sendQueues w fd of
        None \<Rightarrow> None
      | Some [] \<Rightarrow> None
      | Some (m # q) \<Rightarrow> Some (m, w\<lparr>sendQueues := (sendQueues w)(fd \<mapsto> [] # q)\<rparr>))"

lemma chain_cong [fundef_cong]:
  "r = r' \<Longrightarrow> (\<And>x. r' = Inr x \<Longrightarrow> f x = g x) \<Longrightarrow> chain r f = chain r' g"
  by (auto simp: chain_def split: sum.splits)

lemma take_front_len: "take_front fd w = Some (m, w') \<Longrightarrow> queue_len f w' = queue_len f w"
  by (auto simp: take_front_def queue_len_def split: option.splits list.splits if_splits)

lemma sent_pop_len:
  "sent_pop a w = Inr (Some True, w') \<Longrightarrow>
     Suc (queue_len (Get a (nd_io w)) w') = queue_len (Get a (nd_io w)) w \<and> queue_len (Get a (nd_io w)) w' > 0
     \<and> nd_io w' = nd_io w"
  by (auto simp: sent_pop_def queue_len_def Let_def split: option.splits list.splits if_splits)

lemma take_front_io: "take_front fd w = Some (m, w') \<Longrightarrow> nd_io w' = nd_io w"
  by (auto simp: take_front_def split: option.splits list.splits)

lemma on_io_Create: "on_io (Create fd) w = (io_next (nd_io w), w\<lparr>nd_io := snd (Create fd (nd_io w))\<rparr>)"
  by (simp add: on_io_def Create_def)

lemma on_io_Release: "on_io (Release K a) w = (Get a (nd_io w), w\<lparr>nd_io := snd (Release K a (nd_io w))\<rparr>)"
  using Release_fd [of K a "nd_io w"] by (cases "Release K a (nd_io w)") (simp add: on_io_def)

lemma start_io_Send:
  "start_io (SendMessage K a m s u) w = Inr (c, w') \<Longrightarrow>
     w' = w\<lparr>nd_io := nd_io w'\<rparr> \<and> Get b (nd_io w') = Get b (nd_io w)"
  by (auto simp: start_io_def chain_eq_Inr Get_SendMessage)

lemma start_io_Recv:
  "start_io (RecvMessage K a r) w = Inr (c, w') \<Longrightarrow>
     w' = w\<lparr>nd_io := nd_io w'\<rparr> \<and> Get b (nd_io w') = Get b (nd_io w)"
  by (auto simp: start_io_def chain_eq_Inr Get_RecvMessage)

lemma queue_len_io [simp]: "queue_len fd (w\<lparr>nd_io := io\<rparr>) = queue_len fd w"
  by (simp add: queue_len_def)

function SendMessageFd :: "'k kernel \<Rightarrow> descr \<Rightarrow> 'k node \<Rightarrow> fault + 'k node"
  and sent_cb :: "'k kernel \<Rightarrow> afd_ref \<Rightarrow> 'k node \<Rightarrow> fault + 'k node" where
  "SendMessageFd K fd w =
     (let (a, w) = on_io (Create fd) w
      in case take_front fd w of
           None \<Rightarrow> Inr w
         | Some (message, w) \<Rightarrow>
             chain (start_io (SendMessage K a message SendNext True) w) (\<lambda>(c, w).
               case c of None \<Rightarrow> Inr w | Some _ \<Rightarrow> sent_cb K a w))"
| "sent_cb K a w =
     chain (sent_pop a w) (\<lambda>(r, w).
       case r of
         None \<Rightarrow> Inr w
       | Some rest \<Rightarrow>
           let (fd, w) = on_io (Release K a) w
           in if rest then SendMessageFd K fd w else Inr w)"
  by pat_completeness auto
termination
proof (relation "measure (\<lambda>x. case x of Inl (K, fd, w) \<Rightarrow> Suc (2 * queue_len fd w)
    | Inr (K, a, w) \<Rightarrow> 2 * queue_len (Get a (nd_io w)) w)")
  show "wf (measure (\<lambda>x :: 'k kernel \<times> descr \<times> 'k node + 'k kernel \<times> afd_ref \<times> 'k node.
      case x of Inl (K, fd, w) \<Rightarrow> Suc (2 * queue_len fd w)
    | Inr (K, a, w) \<Rightarrow> 2 * queue_len (Get a (nd_io w)) w))" by simp
next
  fix K :: "'k kernel" and fd :: descr and w w1 w2 w3 :: "'k node" and x y z m c p q p'
  assume 1: "x = on_io (Create fd) w" "(y, w1) = x" "take_front fd w1 = Some p" "(m, w2) = p"
    and 2: "start_io (SendMessage K y m SendNext True) w2 = Inr p'" "(q, w3) = p'" "q = Some c"
  from 1 have y: "y = io_next (nd_io w)" "w1 = w\<lparr>nd_io := snd (Create fd (nd_io w))\<rparr>" by (simp_all add: on_io_Create)
  from 2 start_io_Send have s: "w3 = w2\<lparr>nd_io := nd_io w3\<rparr>" "Get y (nd_io w3) = Get y (nd_io w2)" by blast+
  from 1 have t: "queue_len fd w2 = queue_len fd w1" "nd_io w2 = nd_io w1"
    using take_front_len take_front_io by metis+
  have "Get y (nd_io w3) = fd" using s(2) t(2) y by simp
  moreover have "queue_len fd w3 = queue_len fd w" using s(1) t(1) y(2) by (metis queue_len_io)
  ultimately show "(Inr (K, y, w3), Inl (K, fd, w)) \<in> measure (\<lambda>x. case x of Inl (K, fd, w) \<Rightarrow> Suc (2 * queue_len fd w)
    | Inr (K, a, w) \<Rightarrow> 2 * queue_len (Get a (nd_io w)) w)" by simp
next
  fix K :: "'k kernel" and a :: afd_ref and w w1 w2 :: "'k node" and p q b x fd
  assume 1: "sent_pop a w = Inr p" "(q, w1) = p" "q = Some b" "x = on_io (Release K a) w1" "(fd, w2) = x" b
  then have s: "sent_pop a w = Inr (Some True, w1)" by simp
  from 1 have "fd = Get a (nd_io w1)" "w2 = w1\<lparr>nd_io := snd (Release K a (nd_io w1))\<rparr>" by (simp_all add: on_io_Release)
  with sent_pop_len [OF s] show "(Inl (K, fd, w2), Inr (K, a, w)) \<in> measure (\<lambda>x. case x of Inl (K, fd, w) \<Rightarrow> Suc (2 * queue_len fd w)
    | Inr (K, a, w) \<Rightarrow> 2 * queue_len (Get a (nd_io w)) w)" by simp
qed

declare SendMessageFd.simps [simp del] sent_cb.simps [simp del]

text \<open>\<open>ConnectionManager::SendMessage\<close>. An outgoing connection is preferred.\<close>

definition conn_for :: "peer_id \<Rightarrow> 'k node \<Rightarrow> descr" where
  "conn_for peer w =
     (case connToFd w (peer, OUTGOING) of
        Some fd \<Rightarrow> fd
      | None \<Rightarrow> (case connToFd w (peer, INCOMING) of Some fd \<Rightarrow> fd | None \<Rightarrow> -1))"

definition conn_SendMessage :: "'k kernel \<Rightarrow> peer_id \<Rightarrow> message \<Rightarrow> 'k node \<Rightarrow> fault + 'k node" where
  "conn_SendMessage K peer msg w =
     (let fd = conn_for peer w
      in if fd = -1 then Inr w
      else case sendQueues w fd of
             None \<Rightarrow> Inr w
           | Some q \<Rightarrow>
               let w = w\<lparr>sendQueues := (sendQueues w)(fd \<mapsto> q @ [msg])\<rparr>
               in if length (q @ [msg]) > 1 then Inr w else SendMessageFd K fd w)"

section \<open>The hello exchange\<close>

text \<open>\<open>close(async_fd->Release())\<close>, the end of every failed exchange.\<close>

definition abandon :: "'k kernel \<Rightarrow> afd_ref \<Rightarrow> 'k node \<Rightarrow> 'k node" where
  "abandon K a w = (let (fd, w) = on_io (Release K a) w in close_fd K fd w)"

text \<open>The three insertions that make a connection active.\<close>

definition activate :: "descr \<Rightarrow> peer_id \<Rightarrow> link_direction \<Rightarrow> 'k node \<Rightarrow> 'k node" where
  "activate fd peer dir w =
     w\<lparr>activeConns := map_emplace fd (peer, dir) (activeConns w),
       connToFd := map_emplace (peer, dir) fd (connToFd w),
       sendQueues := map_emplace fd [] (sendQueues w)\<rparr>"

definition answer_sent_cb :: "'k kernel \<Rightarrow> peer_id \<Rightarrow> afd_ref \<Rightarrow> unit io_result \<Rightarrow> 'k node \<Rightarrow> fault + 'k node" where
  "answer_sent_cb K peer a res w =
     (case res of
        Err _ \<Rightarrow> Inr (abandon K a w)
      | Ok _ \<Rightarrow>
          let w = activate (Get a (nd_io w)) peer INCOMING w;
              w = OnLinkEstablishing peer INCOMING w;
              (fd, w) = on_io (Release K a) w
          in ReadMessage K fd w)"

definition incoming_hello_cb :: "'k kernel \<Rightarrow> afd_ref \<Rightarrow> message io_result \<Rightarrow> 'k node \<Rightarrow> fault + 'k node" where
  "incoming_hello_cb K a res w =
     (case res of
        Err _ \<Rightarrow> Inr (abandon K a w)
      | Ok msg \<Rightarrow>
          (case Deserialize msg of
             None \<Rightarrow> Inr (abandon K a w)
           | Some hello \<Rightarrow>
               if hm_type hello \<noteq> Notify then Inr (abandon K a w)
               else case sys (get_fd_addr K (Get a (nd_io w))) w of
                 (None, w) \<Rightarrow> Inr (abandon K a w)
               | (Some addr, w) \<Rightarrow>
                   let peer = hm_id hello
                   in chain (track_peer K (sin_addr addr) hello w) (\<lambda>(_, w).
                      chain (start_io (SendMessage K a (Serialize (make_hello (nd_self w) Answer))
                                         (IncomingAnswerSent peer) False) w) (\<lambda>(c, w).
                        case c of
                          Some (SendResolved _ res) \<Rightarrow> answer_sent_cb K peer a res w
                        | _ \<Rightarrow> Inr w))))"

definition IncomingHelloExchange :: "'k kernel \<Rightarrow> descr \<Rightarrow> 'k node \<Rightarrow> fault + 'k node" where
  "IncomingHelloExchange K fd w =
     (let (a, w) = on_io (Create fd) w
      in chain (start_io (RecvMessage K a IncomingHello) w) (\<lambda>(c, w).
           case c of
             Some (RecvResolved _ res) \<Rightarrow> incoming_hello_cb K a res w
           | _ \<Rightarrow> Inr w))"

definition AcceptConn :: "'k kernel \<Rightarrow> 'k node \<Rightarrow> fault + 'k node" where
  "AcceptConn K w =
     (let ((addr, client_fd), w) = sys (accept_client K (listenFd w)) w
      in if client_fd = -1 then Inr w else IncomingHelloExchange K client_fd w)"

definition outgoing_answer_cb :: "'k kernel \<Rightarrow> peer_id \<Rightarrow> afd_ref \<Rightarrow> message io_result \<Rightarrow> 'k node \<Rightarrow> fault + 'k node" where
  "outgoing_answer_cb K peer a res w =
     (case res of
        Err _ \<Rightarrow> Inr (abandon K a w)
      | Ok msg \<Rightarrow>
          (case Deserialize msg of
             None \<Rightarrow> Inr (abandon K a w)
           | Some hello \<Rightarrow>
               if hm_id hello \<noteq> peer \<or> hm_type hello \<noteq> Answer then Inr (abandon K a w)
               else
                 let w = activate (Get a (nd_io w)) peer OUTGOING w;
                     (fd, w) = on_io (Release K a) w
                 in chain (ReadMessage K fd w) (\<lambda>w. Inr (OnLinkEstablishing peer OUTGOING w))))"

definition notify_sent_cb :: "'k kernel \<Rightarrow> peer_id \<Rightarrow> afd_ref \<Rightarrow> unit io_result \<Rightarrow> 'k node \<Rightarrow> fault + 'k node" where
  "notify_sent_cb K peer a res w =
     (case res of
        Err _ \<Rightarrow> Inr (abandon K a (OnLinkEstablishingError peer OUTGOING ERROR w))
      | Ok _ \<Rightarrow>
          chain (start_io (RecvMessage K a (OutgoingAnswer peer)) w) (\<lambda>(c, w).
            case c of
              Some (RecvResolved _ res) \<Rightarrow> outgoing_answer_cb K peer a res w
            | _ \<Rightarrow> Inr w))"

definition OutgoingHelloExchange :: "'k kernel \<Rightarrow> descr \<Rightarrow> peer_id \<Rightarrow> 'k node \<Rightarrow> fault + 'k node" where
  "OutgoingHelloExchange K fd peer w =
     (let (a, w) = on_io (Create fd) w
      in chain (start_io (SendMessage K a (Serialize (make_hello (nd_self w) Notify)) (OutgoingNotifySent peer) False) w)
           (\<lambda>(c, w). case c of
              Some (SendResolved _ res) \<Rightarrow> notify_sent_cb K peer a res w
            | _ \<Rightarrow> Inr w))"

text \<open>A failed \<open>connect\<close> is reported, and the exchange is started nevertheless.\<close>

definition EstablishConnection :: "'k kernel \<Rightarrow> peer_id \<Rightarrow> 'k node \<Rightarrow> fault + 'k node" where
  "EstablishConnection K peer w =
     (if connToFd w (peer, OUTGOING) \<noteq> None
      then Inr (OnLinkEstablishingError peer OUTGOING SESSION_EXISTS w)
      else case GetAddress peer w of
             None \<Rightarrow> Inr (OnLinkEstablishingError peer OUTGOING NO_SUCH_PEER w)
           | Some addr \<Rightarrow>
               let (fd, w) = sys (create_tcp_socket K 0) w
               in if fd = -1 then Inr (OnLinkEstablishingError peer OUTGOING ERROR w)
               else
                 let endpoint = \<lparr>sin_family = AF_INET, sin_port = htons (of_int TCP_LISTEN_PORT), sin_addr = addr\<rparr>;
                     ((res, errno), w) = sys (k_connect K fd endpoint) w;
                     w = (if res < 0 \<and> errno \<noteq> EINPROGRESS then OnLinkEstablishingError peer OUTGOING ERROR w else w)
                 in OutgoingHelloExchange K fd peer w)"

section \<open>Performing a resolve call\<close>

definition perform :: "'k kernel \<Rightarrow> afd_ref \<Rightarrow> user_call \<Rightarrow> 'k node \<Rightarrow> fault + 'k node" where
  "perform K a c w =
     (case c of
        RecvResolved IncomingHello res \<Rightarrow> incoming_hello_cb K a res w
      | RecvResolved (OutgoingAnswer peer) res \<Rightarrow> outgoing_answer_cb K peer a res w
      | RecvResolved ReadNext res \<Rightarrow> read_cb K a res w
      | SendResolved (IncomingAnswerSent peer) res \<Rightarrow> answer_sent_cb K peer a res w
      | SendResolved (OutgoingNotifySent peer) res \<Rightarrow> notify_sent_cb K peer a res w
      | SendResolved SendNext res \<Rightarrow> sent_cb K a w)"

end
