(* ===== verification/Transport.thy ===== *)
theory Transport
  imports ConnManager
begin

text \<open>
  \<open>src/ip_transport.cpp\<close>, \<open>interface/transport_manager.h\<close>, \<open>main.cpp\<close> and the rest of
  \<open>src/ip_broadcast.cpp\<close>: the calls between the transport, its two managers and the
  transport manager. The only transport manager of the sources is the one of \<open>main.cpp\<close>: it
  answers a new neighbour by opening a session to it and ignores the other notifications.
\<close>

section \<open>Sessions\<close>

definition OpenSession :: "'k kernel \<Rightarrow> peer_id \<Rightarrow> 'k node \<Rightarrow> fault + 'k node" where
  "OpenSession K peer w = EstablishConnection K peer w"

definition transport_SendMessage :: "'k kernel \<Rightarrow> peer_id \<Rightarrow> message \<Rightarrow> 'k node \<Rightarrow> fault + 'k node" where
  "transport_SendMessage K peer message w = conn_SendMessage K peer message w"

definition CloseSession :: "'k kernel \<Rightarrow> peer_id \<Rightarrow> link_direction \<Rightarrow> 'k node \<Rightarrow> 'k node" where
  "CloseSession K peer dir w = CloseConn K peer dir w"

section \<open>The transport manager\<close>

text \<open>
  \<open>_transports\<close> maps the id of a registered transport to it; with one transport per node
  it is the list of the registered ids. \<open>at\<close> throws for an id that is not registered,
  and \<open>begin\<close> of an empty map must not be dereferenced.
\<close>

definition RegisterTransport :: "'k node \<Rightarrow> 'k node" where
  "RegisterTransport w = w\<lparr>nd_transports := GetTransportId # removeAll GetTransportId (nd_transports w)\<rparr>"

definition EraseTransport :: "'k node \<Rightarrow> 'k node" where
  "EraseTransport w = w\<lparr>nd_transports := removeAll GetTransportId (nd_transports w)\<rparr>"

definition mgr_OpenSession :: "'k kernel \<Rightarrow> transport_id \<Rightarrow> peer_id \<Rightarrow> 'k node \<Rightarrow> fault + 'k node" where
  "mgr_OpenSession K tid pid w = (if tid \<in> set (nd_transports w) then OpenSession K pid w else Inl OutOfRange)"

definition mgr_CloseSession ::
  "'k kernel \<Rightarrow> transport_id \<Rightarrow> peer_id \<Rightarrow> link_direction \<Rightarrow> 'k node \<Rightarrow> fault + 'k node" where
  "mgr_CloseSession K tid pid ldir w =
     (if tid \<in> set (nd_transports w) then Inr (CloseSession K pid ldir w) else Inl OutOfRange)"

definition mgr_SendMessage :: "'k kernel \<Rightarrow> transport_id \<Rightarrow> peer_id \<Rightarrow> message \<Rightarrow> 'k node \<Rightarrow> fault + 'k node" where
  "mgr_SendMessage K tid pid msg w =
     (if tid = TRANSPORT_ANY \<and> nd_transports w = [] then Inl EmptyContainer
      else let tid = (if tid = TRANSPORT_ANY then hd (nd_transports w) else tid)
           in if tid \<in> set (nd_transports w) then transport_SendMessage K pid msg w else Inl OutOfRange)"

definition NotifyNewNeighbour :: "'k kernel \<Rightarrow> transport_id \<Rightarrow> peer_id \<Rightarrow> 'k node \<Rightarrow> fault + 'k node" where
  "NotifyNewNeighbour K tid pid w = mgr_OpenSession K tid pid (notify (NewNeighbour tid pid) w)"

definition OnNeighborFound :: "'k kernel \<Rightarrow> peer_id \<Rightarrow> 'k node \<Rightarrow> fault + 'k node" where
  "OnNeighborFound K peer w = NotifyNewNeighbour K GetTransportId peer (SendBroadcastHello K w)"

section \<open>Hellos and network updates\<close>

definition ProcessHello :: "'k kernel \<Rightarrow> u32 \<Rightarrow> hello_msg \<Rightarrow> bool \<Rightarrow> 'k node \<Rightarrow> fault + 'k node" where
  "ProcessHello K sender msg needNotify w =
     chain (track_peer K sender msg w) (\<lambda>(added, w).
       if added \<and> needNotify then OnNeighborFound K (hm_id msg) w else Inr w)"

text \<open>The loop of \<open>ReceiveBroadcasts\<close>, at most \<open>n\<close> rounds of it.\<close>

fun ReceiveBroadcasts :: "nat \<Rightarrow> 'k kernel \<Rightarrow> 'k node \<Rightarrow> fault + 'k node" where
  "ReceiveBroadcasts 0 K w = Inl OutOfFuel"
| "ReceiveBroadcasts (Suc n) K w =
     (case sys (read_broadcast K (broadcastFd w)) w of
        (None, w) \<Rightarrow> Inr w
      | (Some (message, addr), w) \<Rightarrow>
          if length message \<noteq> sizeof_HelloMsg then ReceiveBroadcasts n K w
          else case hello_of_bytes message of
                 None \<Rightarrow> ReceiveBroadcasts n K w
               | Some msg \<Rightarrow>
                   if \<not> IsValid msg then ReceiveBroadcasts n K w
                   else chain (ProcessHello K addr msg True w) (\<lambda>w. ReceiveBroadcasts n K w))"

fun lost_interfaces :: "'k kernel \<Rightarrow> string set \<Rightarrow> (string \<times> peer_id) list \<Rightarrow> 'k node \<Rightarrow> string list \<times> 'k node" where
  "lost_interfaces K ifs [] w = ([], w)"
| "lost_interfaces K ifs ((ifname, pid) # rest) w =
     (if ifname \<notin> ifs
      then let w = OnNeighborLost pid (CloseSession K pid ALL_DIR w);
               (removed, w) = lost_interfaces K ifs rest w
           in (ifname # removed, w)
      else lost_interfaces K ifs rest w)"

definition ProcessNetworkUpdate :: "nat \<Rightarrow> 'k kernel \<Rightarrow> 'k node \<Rightarrow> fault + 'k node" where
  "ProcessNetworkUpdate n K w =
     chain (clear_netlink_socker n K (netlinkFd w) (io_kern (nd_io w))) (\<lambda>k.
       let w = set_kern k w;
           (ifs, w) = sys (k_getifaddrs K) w;
           (removed, w) = lost_interfaces K (get_interfaces ifs) (ifToPeer w) w;
           w = w\<lparr>ifToPeer := fold al_erase removed (ifToPeer w)\<rparr>
       in Inr (SendBroadcastHello K w))"

definition broadcast_timer_cb :: "'k kernel \<Rightarrow> 'k node \<Rightarrow> 'k node" where
  "broadcast_timer_cb K w =
     (let w = set_kern (k_read K (broadcastTimerFd w) (io_kern (nd_io w))) w;
          w = SendBroadcastHello K w
      in snd (sys (set_timer K (broadcastTimerFd w) 1) w))"

section \<open>Starting\<close>

text \<open>
  A failure after a descriptor was created undoes what was done before it, except that a
  failure to create the netlink socket undoes nothing.
\<close>

definition deregister_token :: "'k kernel \<Rightarrow> token \<Rightarrow> 'k node \<Rightarrow> 'k node" where
  "deregister_token K t w = snd (on_loop (DeregisterAction K t) w)"

definition BroadcastManager_Start :: "'k kernel \<Rightarrow> 'k node \<Rightarrow> fault + bool \<times> 'k node" where
  "BroadcastManager_Start K w =
     (let (fd, w) = sys (create_broadcast_socket K UDP_PORT) w; w = w\<lparr>broadcastFd := fd\<rparr>
      in if fd = -1 then Inr (False, w)
      else chain (register_input K (broadcastFd w) BroadcastCb w) (\<lambda>((ok, br_tok), w).
        if \<not> ok then Inr (False, close_fd K (broadcastFd w) w)
        else
          let (fd, w) = sys (create_timer K BROADCAST_DELAY) w; w = w\<lparr>broadcastTimerFd := fd\<rparr>
          in if fd = -1
             then Inr (False, close_fd K (broadcastFd w) (deregister_token K br_tok w))
          else chain (register_input K (broadcastTimerFd w) TimerCb w) (\<lambda>((ok, timer_tok), w).
            if \<not> ok
            then Inr (False, close_fd K (broadcastTimerFd w)
                   (close_fd K (broadcastFd w) (deregister_token K br_tok w)))
            else
              let (fd, w) = sys (create_netlink_socket K) w; w = w\<lparr>netlinkFd := fd\<rparr>
              in if fd = -1 then Inr (False, w)
              else chain (register_input K (netlinkFd w) NetlinkCb w) (\<lambda>((ok, nl_tok), w).
                if \<not> ok
                then Inr (False, close_fd K (broadcastFd w) (close_fd K (broadcastTimerFd w) (close_fd K (netlinkFd w)
                       (deregister_token K br_tok (deregister_token K timer_tok w)))))
                else Inr (True, SendBroadcastHello K w)))))"

definition IpTransport_Start :: "'k kernel \<Rightarrow> 'k node \<Rightarrow> fault + bool \<times> 'k node" where
  "IpTransport_Start K w =
     (let (ok, w) = on_loop (Init K) w
      in if \<not> ok then Inr (False, w)
      else chain (BroadcastManager_Start K w) (\<lambda>(ok, w).
        if \<not> ok then Inr (False, w)
        else chain (ConnectionManager_Start K w) (\<lambda>(ok, w).
          if \<not> ok then Inr (False, w) else Inr (True, SendBroadcastHello K w))))"

text \<open>The destructors of the transport and of \<open>BroadcastManager\<close>.\<close>

definition IpTransport_destroy :: "'k kernel \<Rightarrow> 'k node \<Rightarrow> 'k node" where
  "IpTransport_destroy K w =
     (let w = set_kern (Stop K (io_loop (nd_io w)) (io_kern (nd_io w))) w
      in close_fd K (broadcastFd w) (close_fd K (broadcastTimerFd w) w))"

text \<open>
  \<open>main\<close> up to the event loop, with its first argument after \<open>atoi\<close>. The result of
  \<open>Start\<close> is ignored.
\<close>

definition main_self :: "int \<Rightarrow> peer_id" where
  "main_self i = PeerId 0 0 0 0 0 (of_int i)"

definition main_init :: "'k kernel \<Rightarrow> int \<Rightarrow> 'k \<Rightarrow> fault + 'k node" where
  "main_init K i k =
     chain (IpTransport_Start K (RegisterTransport (new_node (main_self i) k))) (\<lambda>(_, w). Inr w)"

end
