(* ===== verification/Node.thy ===== *)
theory Node
  imports Transport
begin

text \<open>
  \<open>EpollLoop::RunCallback\<close> and \<open>EpollLoop::Run\<close> (\<open>src/epoll_loop.cpp\<close>) over the closures
  of the whole program, and the steps a running process takes: one event of the epoll
  thread, one command of the transport manager's thread, or a change of the kernel's state
  the process did not cause. \<open>n\<close> bounds the rounds of the two reading loops
  (\<open>ReceiveBroadcasts\<close>, \<open>clear_netlink_socker\<close>).
\<close>

definition run_keeper ::
  "nat \<Rightarrow> 'k kernel \<Rightarrow> descr \<times> u32 \<Rightarrow> callback \<Rightarrow> unit io_result \<Rightarrow> 'k node \<Rightarrow> fault + 'k node" where
  "run_keeper n K key cb res w =
     (case cb of
        AcceptCb \<Rightarrow> AcceptConn K w
      | BroadcastCb \<Rightarrow> ReceiveBroadcasts n K w
      | TimerCb \<Rightarrow> Inr (broadcast_timer_cb K w)
      | NetlinkCb \<Rightarrow> ProcessNetworkUpdate n K w
      | PeerLostCb fd \<Rightarrow> Inr (ProcessPeerLost K fd w)
      | ProcCb p \<Rightarrow>
          chain (run_proc K key p res (nd_io w)) (\<lambda>(c, io).
            let w = w\<lparr>nd_io := io\<rparr>
            in case c of None \<Rightarrow> Inr w | Some c \<Rightarrow> perform K (pc_self p) c w))"

definition RunCallback ::
  "nat \<Rightarrow> 'k kernel \<Rightarrow> descr \<Rightarrow> u32 \<Rightarrow> unit io_result \<Rightarrow> 'k node \<Rightarrow> fault + 'k node" where
  "RunCallback n K fd ev res w =
     (case find_keeper (io_loop (nd_io w)) fd ev of
        None \<Rightarrow> Inr w
      | Some keeper \<Rightarrow> run_keeper n K (fd, ev) (ck_callback keeper) res w)"

fun run_callbacks ::
  "nat \<Rightarrow> 'k kernel \<Rightarrow> descr \<Rightarrow> (u32 \<times> unit io_result) list \<Rightarrow> 'k node \<Rightarrow> fault + 'k node" where
  "run_callbacks n K fd [] w = Inr w"
| "run_callbacks n K fd ((ev, res) # rest) w =
     chain (RunCallback n K fd ev res w) (run_callbacks n K fd rest)"

text \<open>One element of the array \<open>epoll_wait\<close> fills. The result says whether \<open>Run\<close> returns.\<close>

definition run_event :: "nat \<Rightarrow> 'k kernel \<Rightarrow> descr \<times> u32 \<Rightarrow> 'k node \<Rightarrow> fault + bool \<times> 'k node" where
  "run_event n K e w =
     (let fd = fst e; l = io_loop (nd_io w) in
      if fd = stopEvent l then Inr (True, set_kern (k_read K fd (io_kern (nd_io w))) w)
      else if fd = removeEvent l
      then Inr (False, let w = set_kern (k_read K fd (io_kern (nd_io w))) w
                       in w\<lparr>nd_io := drain K (nd_io w)\<rparr>)
      else chain (run_callbacks n K fd (callbacks_of_event (snd e)) w) (\<lambda>w. Inr (False, w)))"

fun run_batch :: "nat \<Rightarrow> 'k kernel \<Rightarrow> (descr \<times> u32) list \<Rightarrow> 'k node \<Rightarrow> fault + bool \<times> 'k node" where
  "run_batch n K [] w = Inr (False, w)"
| "run_batch n K (e # es) w =
     chain (run_event n K e w) (\<lambda>(stop, w). if stop then Inr (True, w) else run_batch n K es w)"

text \<open>
  \<open>Run\<close> over the results of its successive calls of \<open>epoll_wait\<close>, \<open>None\<close> for a failed
  one; the list ends where the observation ends.
\<close>

fun Run :: "nat \<Rightarrow> 'k kernel \<Rightarrow> (descr \<times> u32) list option list \<Rightarrow> 'k node \<Rightarrow> fault + 'k node" where
  "Run n K [] w = Inr w"
| "Run n K (None # _) w = Inr w"
| "Run n K (Some es # rest) w =
     chain (run_batch n K es w) (\<lambda>(stop, w). if stop then Inr w else Run n K rest w)"

section \<open>Steps of a process\<close>

inductive node_step :: "nat \<Rightarrow> 'k kernel \<Rightarrow> ('k \<Rightarrow> 'k \<Rightarrow> bool) \<Rightarrow> 'k node \<Rightarrow> 'k node \<Rightarrow> bool"
  for n :: nat and K :: "'k kernel" and env :: "'k \<Rightarrow> 'k \<Rightarrow> bool" where
  event: "run_event n K e w = Inr (stop, w') \<Longrightarrow> node_step n K env w w'"
| open_session: "mgr_OpenSession K tid pid w = Inr w' \<Longrightarrow> node_step n K env w w'"
| send_message: "mgr_SendMessage K tid pid msg w = Inr w' \<Longrightarrow> node_step n K env w w'"
| close_session: "mgr_CloseSession K tid pid dir w = Inr w' \<Longrightarrow> node_step n K env w w'"
| environment: "env (io_kern (nd_io w)) k' \<Longrightarrow> node_step n K env w (set_kern k' w)"

text \<open>The states after \<open>i\<close> steps.\<close>

inductive node_steps ::
  "nat \<Rightarrow> 'k kernel \<Rightarrow> ('k \<Rightarrow> 'k \<Rightarrow> bool) \<Rightarrow> 'k node \<Rightarrow> nat \<Rightarrow> 'k node \<Rightarrow> bool"
  for n :: nat and K :: "'k kernel" and env :: "'k \<Rightarrow> 'k \<Rightarrow> bool" and w0 :: "'k node" where
  start: "node_steps n K env w0 0 w0"
| step: "node_steps n K env w0 i w \<Longrightarrow> node_step n K env w w' \<Longrightarrow> node_steps n K env w0 (Suc i) w'"

inductive_cases node_stepE: "node_step n K env w w'"
inductive_cases node_steps_SucE: "node_steps n K env w0 (Suc i) w"
inductive_simps node_steps_0 [simp]: "node_steps n K env w0 0 w"

end
