(* ===== verification/IoInv.thy ===== *)
theory IoInv
  imports AsyncFaults Sockets
begin

text \<open>
  The invariant of the event loop together with the asynchronous descriptors, as long as
  fewer than \<open>2 ^ 64\<close> tokens are handed out: every entry of the table that belongs to an
  operation in progress is owned by the token of the operation's object, and sits at that
  object's descriptor, in the direction of its stage. The first argument is the number of
  tokens that may still be handed out.
\<close>

section \<open>Entries and their owners\<close>

definition entry :: "'k io \<Rightarrow> descr \<times> u32 \<rightharpoonup> callback" where
  "entry io a = map_option ck_callback (find_keeper (io_loop io) (fst a) (snd a))"

fun stage_dir :: "stage \<Rightarrow> io_direction" where
  "stage_dir (RecvLen _) = INPUT"
| "stage_dir (RecvBody _) = INPUT"
| "stage_dir (SendLen _ _ _) = OUTPUT"
| "stage_dir (SendBody _) = OUTPUT"

definition owner_of :: "'k io \<Rightarrow> afd_ref \<Rightarrow> descr \<Rightarrow> io_direction \<Rightarrow> bool" where
  "owner_of io a fd dir \<longleftrightarrow> Get a io = fd \<and> afd_token (io_afds io a) \<noteq> 0
     \<and> cancelMap (io_loop io) (afd_token (io_afds io a)) = Some (fd, dir)"

definition proc_ok :: "'k io \<Rightarrow> descr \<Rightarrow> u32 \<Rightarrow> proc_cb \<Rightarrow> bool" where
  "proc_ok io fd ev p \<longleftrightarrow> pc_self p < io_next io \<and> ev = dir_bits (stage_dir (pc_resolve p))
     \<and> func_dir (pc_func p) = stage_dir (pc_resolve p) \<and> owner_of io (pc_self p) fd (stage_dir (pc_resolve p))"

definition io_inv :: "nat \<Rightarrow> 'k io \<Rightarrow> bool" where
  "io_inv b io \<longleftrightarrow>
     unat (nextToken (io_loop io)) + b < 2 ^ 64 \<and> nextToken (io_loop io) \<noteq> 0
     \<and> (\<forall>t a. cancelMap (io_loop io) t = Some a \<longrightarrow> t < nextToken (io_loop io))
     \<and> (\<forall>fd ev cb. entry io (fd, ev) = Some cb \<longrightarrow> (\<exists>d. ev = dir_bits d))
     \<and> (\<forall>fd ev p. entry io (fd, ev) = Some (ProcCb p) \<longrightarrow> proc_ok io fd ev p)"

lemma io_invD:
  assumes "io_inv b io"
  shows "unat (nextToken (io_loop io)) + b < 2 ^ 64" and "nextToken (io_loop io) \<noteq> 0"
    and "cancelMap (io_loop io) t = Some a \<Longrightarrow> t < nextToken (io_loop io)"
    and "entry io (fd, ev) = Some cb \<Longrightarrow> \<exists>d. ev = dir_bits d"
    and "entry io (fd, ev) = Some (ProcCb p) \<Longrightarrow> proc_ok io fd ev p"
  using assms unfolding io_inv_def by blast+

lemma io_inv_mono: "io_inv b io \<Longrightarrow> b' \<le> b \<Longrightarrow> io_inv b' io"
  by (simp add: io_inv_def)

lemma io_inv_fresh: "io_inv b io \<Longrightarrow> cancelMap (io_loop io) (nextToken (io_loop io)) = None"
  using io_invD(3) [of b io "nextToken (io_loop io)"]
  by (cases "cancelMap (io_loop io) (nextToken (io_loop io))") auto

lemma entry_armed:
  assumes "io_inv b io" and "entry io (fd, ev) = Some (ProcCb p)"
  shows "armed io (pc_self p) fd (stage_dir (pc_resolve p)) p" and "ev = dir_bits (stage_dir (pc_resolve p))"
proof -
  note ok = io_invD(5) [OF assms]
  from ok show "ev = dir_bits (stage_dir (pc_resolve p))" by (simp add: proc_ok_def)
  with ok assms(2) show "armed io (pc_self p) fd (stage_dir (pc_resolve p)) p"
    by (auto simp: armed_def proc_ok_def owner_of_def entry_def)
qed

text \<open>An object without a token has no entry, and an object has at most one.\<close>

lemma entry_token: "io_inv b io \<Longrightarrow> entry io (fd, ev) = Some (ProcCb p) \<Longrightarrow> afd_token (io_afds io (pc_self p)) \<noteq> 0"
  by (auto dest!: io_invD(5) simp: proc_ok_def owner_of_def)

lemma entry_unique:
  assumes "io_inv b io" and "entry io (fd, ev) = Some (ProcCb p)" and "entry io (fd', ev') = Some (ProcCb p')"
    and "pc_self p' = pc_self p"
  shows "fd' = fd" and "ev' = ev"
  using io_invD(5) [OF assms(1,2)] io_invD(5) [OF assms(1,3)] assms(4) by (auto simp: proc_ok_def owner_of_def)

lemma entry_simps [simp]:
  "entry (io\<lparr>io_kern := k\<rparr>) = entry io" "entry (io\<lparr>io_afds := af\<rparr>) = entry io" "entry (io\<lparr>io_next := n\<rparr>) = entry io"
  "entry (set_token a t io) = entry io" "entry (set_loop l k io) x = map_option ck_callback (find_keeper l (fst x) (snd x))"
  "entry (io\<lparr>io_loop := l\<rparr>) x = map_option ck_callback (find_keeper l (fst x) (snd x))"
  by (auto simp: entry_def fun_eq_iff)

section \<open>Operations\<close>

lemma io_inv_kern [simp]: "io_inv b (io\<lparr>io_kern := k\<rparr>) = io_inv b io"
  by (simp add: io_inv_def proc_ok_def owner_of_def)

lemma map_le_Some: "m \<subseteq>\<^sub>m n \<Longrightarrow> m x = Some y \<Longrightarrow> n x = Some y"
  by (auto simp: map_le_def dom_def)

lemma map_le_None: "m \<subseteq>\<^sub>m n \<Longrightarrow> n x = None \<Longrightarrow> m x = None"
  by (metis map_le_Some not_None_eq)

lemma io_inv_Create:
  assumes "io_inv b io"
  shows "io_inv b (snd (Create fd io))" and "entry (snd (Create fd io)) = entry io"
proof -
  show e: "entry (snd (Create fd io)) = entry io" by (simp add: Create_def)
  have "proc_ok (snd (Create fd io)) fd' ev p" if "entry io (fd', ev) = Some (ProcCb p)" for fd' ev p
    using io_invD(5) [OF assms that] by (auto simp: proc_ok_def owner_of_def Get_def)
  with assms show "io_inv b (snd (Create fd io))" unfolding io_inv_def e by simp
qed

text \<open>The table may lose entries, if an object that loses its token loses its entry.\<close>

lemma io_inv_shrink:
  assumes "io_inv b io" and "entry io' \<subseteq>\<^sub>m entry io" and "io_next io' = io_next io"
    and "nextToken (io_loop io') = nextToken (io_loop io)" and "cancelMap (io_loop io') \<subseteq>\<^sub>m cancelMap (io_loop io)"
    and "\<And>fd ev p. entry io' (fd, ev) = Some (ProcCb p) \<Longrightarrow>
      io_afds io' (pc_self p) = io_afds io (pc_self p)
      \<and> cancelMap (io_loop io') (afd_token (io_afds io (pc_self p))) = cancelMap (io_loop io) (afd_token (io_afds io (pc_self p)))"
  shows "io_inv b io'"
proof -
  have e: "entry io' (fd, ev) = Some cb \<Longrightarrow> entry io (fd, ev) = Some cb" for fd ev cb
    using map_le_Some [OF assms(2)] .
  have c: "cancelMap (io_loop io') t = Some x \<Longrightarrow> cancelMap (io_loop io) t = Some x" for t x
    using map_le_Some [OF assms(5)] .
  have p: "proc_ok io' fd ev p" if "entry io' (fd, ev) = Some (ProcCb p)" for fd ev p
    using io_invD(5) [OF assms(1) e [OF that]] assms(6) [OF that] assms(3)
    by (simp add: proc_ok_def owner_of_def Get_def)
  show ?thesis using assms(1) e c p unfolding io_inv_def assms(4) by blast
qed

lemma Deregister_token: "afd_token (io_afds (Deregister K a io) a) = 0"
  by (simp add: Deregister_def Let_def split: prod.split)

lemma Deregister_afds: "c \<noteq> a \<Longrightarrow> io_afds (Deregister K a io) c = io_afds io c"
  by (simp add: Deregister_def Let_def split: prod.split)

lemma Deregister_next: "io_next (Deregister K a io) = io_next io"
  by (simp add: Deregister_def Let_def split: prod.split)

text \<open>
  Deregistering an object, whatever its token: its own entry is gone, others may be (a
  stale token), and every entry left keeps its owner.
\<close>

lemma io_inv_dereg_token:
  assumes "io_inv b io" and "DeregisterAction K t (io_loop io) k0 = (r, l, k)"
  shows "io_inv b (set_loop l k io)" and "entry (set_loop l k io) \<subseteq>\<^sub>m entry io"
    and "cancelMap (io_loop io) t = Some (fd, dir) \<Longrightarrow> entry (set_loop l k io) (fd, dir_bits dir) = None"
proof -
  note tab = DeregisterAction_table [OF assms(2)]
  show le: "entry (set_loop l k io) \<subseteq>\<^sub>m entry io"
    unfolding map_le_def by (auto simp: tab(1) entry_def split: option.splits if_splits)
  show "cancelMap (io_loop io) t = Some (fd, dir) \<Longrightarrow> entry (set_loop l k io) (fd, dir_bits dir) = None"
    by (simp add: tab(1))
  show "io_inv b (set_loop l k io)"
  proof (rule io_inv_shrink [OF assms(1) le])
    fix fd ev p assume e: "entry (set_loop l k io) (fd, ev) = Some (ProcCb p)"
    with le have "entry io (fd, ev) = Some (ProcCb p)" by (rule map_le_Some)
    from io_invD(5) [OF assms(1) this] have "cancelMap (io_loop io) (afd_token (io_afds io (pc_self p))) = Some (fd, stage_dir (pc_resolve p))"
      and "ev = dir_bits (stage_dir (pc_resolve p))" by (auto simp: proc_ok_def owner_of_def)
    moreover from this e have "afd_token (io_afds io (pc_self p)) \<noteq> t" by (auto simp: tab(1))
    ultimately show "io_afds (set_loop l k io) (pc_self p) = io_afds io (pc_self p)
      \<and> cancelMap (io_loop (set_loop l k io)) (afd_token (io_afds io (pc_self p))) = cancelMap (io_loop io) (afd_token (io_afds io (pc_self p)))"
      by (simp add: tab(2))
  qed (simp_all add: tab map_le_def map_erase_def dom_def)
qed

lemma io_inv_forget_token:
  assumes "io_inv b io" and "\<And>fd ev p. entry io (fd, ev) = Some (ProcCb p) \<Longrightarrow> pc_self p \<noteq> a"
  shows "io_inv b (io\<lparr>io_afds := (io_afds io)(a := x)\<rparr>)" and "io_inv b (set_token a t io)"
  by (rule io_inv_shrink [OF assms(1)]; simp add: assms(2))+

lemma io_inv_Deregister:
  assumes "io_inv b io"
  shows "io_inv b (Deregister K a io)" and "entry (Deregister K a io) \<subseteq>\<^sub>m entry io"
    and "entry (Deregister K a io) (fd, ev) = Some (ProcCb p) \<Longrightarrow> pc_self p \<noteq> a"
proof -
  let ?t = "afd_token (io_afds io a)"
  obtain r l k where d: "DeregisterAction K ?t (io_loop io) (io_kern io) = (r, l, k)"
    by (cases "DeregisterAction K ?t (io_loop io) (io_kern io)")
  note sh = io_inv_dereg_token [OF assms d]
  show le: "entry (Deregister K a io) \<subseteq>\<^sub>m entry io"
    using sh(2) by (auto simp: Deregister_def d)
  have no: "pc_self p \<noteq> a" if "entry (Deregister K a io) (fd, ev) = Some (ProcCb p)" for fd ev p
  proof
    assume a: "pc_self p = a"
    from map_le_Some [OF le that] have e: "entry io (fd, ev) = Some (ProcCb p)" .
    from io_invD(5) [OF assms e] a have "?t \<noteq> 0" "cancelMap (io_loop io) ?t = Some (fd, stage_dir (pc_resolve p))"
      "ev = dir_bits (stage_dir (pc_resolve p))" by (auto simp: proc_ok_def owner_of_def)
    with sh(3) that show False by (simp add: Deregister_def d del: entry_simps(5))
  qed
  then show "entry (Deregister K a io) (fd, ev) = Some (ProcCb p) \<Longrightarrow> pc_self p \<noteq> a" .
  show "io_inv b (Deregister K a io)"
  proof (cases "?t = 0")
    case True
    with assms show ?thesis by (simp add: Deregister_def)
  next
    case False
    then have "Deregister K a io = set_token a 0 (set_loop l k io)" by (simp add: Deregister_def d)
    with io_inv_forget_token(2) [OF sh(1), of a] no show ?thesis by simp
  qed
qed

lemma io_inv_Release:
  assumes "io_inv b io"
  shows "io_inv b (snd (Release K a io))" and "entry (snd (Release K a io)) \<subseteq>\<^sub>m entry io"
    and "io_loop (snd (Release K a io)) = io_loop (Deregister K a io)"
    and "io_kern (snd (Release K a io)) = io_kern (Deregister K a io)"
    and "entry (snd (Release K a io)) = entry (Deregister K a io)"
proof -
  have r: "snd (Release K a io) = (let io = Deregister K a io in
      io\<lparr>io_afds := (io_afds io)(a := (io_afds io a)\<lparr>afd_fd := -1\<rparr>)\<rparr>)"
    by (simp add: Release_def Let_def Deregister_def)
  note d = io_inv_Deregister [OF assms, of K a]
  show "io_inv b (snd (Release K a io))"
    unfolding r Let_def by (rule io_inv_forget_token(1) [OF d(1)]) (rule d(3))
  show "entry (snd (Release K a io)) \<subseteq>\<^sub>m entry io" "entry (snd (Release K a io)) = entry (Deregister K a io)"
    unfolding r using d(2) by (simp_all add: Let_def)
  show "io_loop (snd (Release K a io)) = io_loop (Deregister K a io)"
    "io_kern (snd (Release K a io)) = io_kern (Deregister K a io)"
    unfolding r by (simp_all add: Let_def)
qed

lemma io_inv_drop_fd:
  assumes "io_inv b io" and "DeregisterFd K fd (io_loop io) k0 = (r, l, k)"
  shows "io_inv b (set_loop l k io)" and "entry (set_loop l k io) \<subseteq>\<^sub>m entry io"
    and "entry (set_loop l k io) (fd, ev) = None"
proof -
  note tab = DeregisterFd_table [OF assms(2)]
  show le: "entry (set_loop l k io) \<subseteq>\<^sub>m entry io"
    unfolding map_le_def by (auto simp: tab(1) entry_def split: option.splits if_splits)
  show "entry (set_loop l k io) (fd, ev) = None"
  proof (cases "ev = EPOLLIN \<or> ev = EPOLLOUT")
    case False
    then have "ev \<noteq> dir_bits d" for d by (cases d) auto
    with io_invD(4) [OF assms(1), of fd ev] have "entry io (fd, ev) = None" by fastforce
    with le show ?thesis by (rule map_le_None)
  qed (simp add: tab(1))
  show "io_inv b (set_loop l k io)"
    by (rule io_inv_shrink [OF assms(1) le]) (simp_all add: tab)
qed

section \<open>Operations in progress\<close>

text \<open>What an operation resolves to in the end.\<close>

fun stage_goal :: "stage \<Rightarrow> recv_resolve + send_resolve" where
  "stage_goal (RecvLen r) = Inl r"
| "stage_goal (RecvBody r) = Inl r"
| "stage_goal (SendLen _ _ s) = Inr s"
| "stage_goal (SendBody s) = Inr s"

fun call_goal :: "user_call \<Rightarrow> recv_resolve + send_resolve" where
  "call_goal (RecvResolved r _) = Inl r"
| "call_goal (SendResolved s _) = Inr s"

lemma call_goal_stage [simp]: "call_goal (stage_call st e) = stage_goal st"
  by (cases st) simp_all

lemma stage_goal_dir: "stage_dir st = (case stage_goal st of Inl _ \<Rightarrow> INPUT | Inr _ \<Rightarrow> OUTPUT)"
  by (cases st) simp_all

definition idle_object :: "'k io \<Rightarrow> afd_ref \<Rightarrow> bool" where
  "idle_object io a \<longleftrightarrow> afd_token (io_afds io a) = 0 \<and> a < io_next io"

lemma idle_no_entry: "io_inv b io \<Longrightarrow> idle_object io a \<Longrightarrow> entry io (fd, ev) = Some (ProcCb p) \<Longrightarrow> pc_self p \<noteq> a"
  using entry_token by (fastforce simp: idle_object_def)

lemma io_inv_register:
  assumes inv: "io_inv (Suc b) io"
    and reg: "RegisterAction K fd dir cb 0 afd (io_loop io) k0 = Inr ((True, t), l, k)"
  shows "t = nextToken (io_loop io)" and "t \<noteq> 0" and "entry io (fd, dir_bits dir) = None"
    and "entry (set_loop l k io) = (entry io)((fd, dir_bits dir) \<mapsto> cb)"
    and "cancelMap l = (cancelMap (io_loop io))(t \<mapsto> (fd, dir))"
    and "unat (nextToken l) + b < 2 ^ 64" and "nextToken l \<noteq> 0"
    and "cancelMap l u = Some x \<Longrightarrow> u < nextToken l"
proof -
  note r = RegisterAction_True [OF reg] and tab = find_keeper_registered [OF reg]
  show t: "t = nextToken (io_loop io)" by (rule r(3))
  show "t \<noteq> 0" using io_invD(2) [OF inv] by (simp add: t)
  show "entry io (fd, dir_bits dir) = None" using r(2) by (simp add: entry_def)
  show "entry (set_loop l k io) = (entry io)((fd, dir_bits dir) \<mapsto> cb)" by (auto simp: tab entry_def)
  show c: "cancelMap l = (cancelMap (io_loop io))(t \<mapsto> (fd, dir))" using r(4) io_inv_fresh [OF inv] by (simp add: t)
  have n: "nextToken l = nextToken (io_loop io) + 1" using r(4) by simp
  from io_invD(1) [OF inv] have "unat (nextToken (io_loop io)) + 1 < 2 ^ 64" by simp
  note u = unat_plus_one [OF this]
  show "unat (nextToken l) + b < 2 ^ 64" using io_invD(1) [OF inv] u(1) n by simp
  show "nextToken l \<noteq> 0" using u(2) n by simp
  assume "cancelMap l u = Some x"
  then have "u = nextToken (io_loop io) \<or> u < nextToken (io_loop io)" using io_invD(3) [OF inv] c t by (auto split: if_splits)
  with u(1) n show "u < nextToken l" by (auto simp: word_less_nat_alt)
qed

text \<open>A registration extends the table by an entry nobody else owns.\<close>

lemma proc_ok_other:
  assumes "io_inv b io" and "entry io (fd, ev) = Some (ProcCb p)"
    and "io_afds io' (pc_self p) = io_afds io (pc_self p)" and "io_next io \<le> io_next io'"
    and "\<And>u x. cancelMap (io_loop io) u = Some x \<Longrightarrow> cancelMap (io_loop io') u = Some x"
  shows "proc_ok io' fd ev p"
  using io_invD(5) [OF assms(1,2)] assms(3-) by (auto simp: proc_ok_def owner_of_def Get_def)

lemma io_inv_register_other:
  assumes inv: "io_inv (Suc b) io" and "\<And>p. cb \<noteq> ProcCb p"
    and reg: "RegisterAction K fd dir cb 0 afd (io_loop io) k0 = Inr ((True, t), l, k)"
  shows "io_inv b (set_loop l k io)"
proof -
  note r = io_inv_register [OF inv reg]
  have old: "cancelMap (io_loop io) u = Some x \<Longrightarrow> cancelMap (io_loop (set_loop l k io)) u = Some x" for u x
    using io_inv_fresh [OF inv] by (auto simp: r)
  have "proc_ok (set_loop l k io) f ev p" if "entry (set_loop l k io) (f, ev) = Some (ProcCb p)" for f ev p
  proof -
    from that assms(2) have "entry io (f, ev) = Some (ProcCb p)" unfolding r(4) by (auto split: if_splits)
    from proc_ok_other [OF inv this _ _ old] show ?thesis by simp
  qed
  moreover have "\<exists>d. ev = dir_bits d" if "entry (set_loop l k io) (f, ev) = Some cb'" for f ev cb'
    using that io_invD(4) [OF inv, of f ev] unfolding r(4) by (auto split: if_splits)
  ultimately show ?thesis using r(6,7,8) unfolding io_inv_def by simp
qed

lemma io_inv_start_new:
  assumes inv: "io_inv (Suc b) io" and idle: "idle_object io a" and func: "func_dir func = stage_dir st"
    and start: "start_stage K a func data sz st io = Inr (c, io')"
  obtains (started) p where "c = None" "pc_self p = a" "pc_resolve p = st" "io_inv b io'"
      "entry io (Get a io, dir_bits (stage_dir st)) = None"
      "entry io' = (entry io)((Get a io, dir_bits (stage_dir st)) \<mapsto> ProcCb p)" "io_next io' = io_next io"
  | (failed) "c = Some (stage_call st IoFailed)" "io_inv (Suc b) io'" "entry io' = entry io" "idle_object io' a"
      "io_next io' = io_next io"
proof -
  let ?p = "\<lparr>pc_self = a, pc_func = func, pc_left = sz, pc_size = sz, pc_data = data, pc_resolve = st\<rparr>"
  obtain ok t l k where r: "RegisterAction K (Get a io) (func_dir func) (ProcCb ?p) 0 (Some a) (io_loop io) (io_kern io)
      = Inr ((ok, t), l, k)"
    using RegisterAction_no_fault [of 0] by (metis prod_cases4 surj_pair)
  have c: "(c, io') = (if ok then (None, set_token a t (set_loop l k io))
           else stage_error K a st IoFailed (set_token a t (set_loop l k io)))"
    using start idle r by (cases ok) (simp_all add: start_stage_def ProcData_def Let_def idle_object_def)
  show thesis
  proof (cases ok)
    case False
    with r have "RegisterAction K (Get a io) (func_dir func) (ProcCb ?p) 0 (Some a) (io_loop io) (io_kern io)
      = Inr ((False, t), l, k)" by simp
    from RegisterAction_False [OF this] have "l = io_loop io" "t = 0" by simp_all
    moreover from this idle have "set_token a t (set_loop l k io) = io\<lparr>io_kern := k\<rparr>"
      by (cases io) (simp add: set_token_def set_loop_def idle_object_def fun_upd_idem)
    ultimately have "c = Some (stage_call st IoFailed)" "io' = io\<lparr>io_kern := k\<rparr>"
      using c False idle by (auto simp: stage_error_def Deregister_def idle_object_def)
    with inv idle show thesis by (intro failed) (simp_all add: idle_object_def)
  next
    case True
    with r have reg: "RegisterAction K (Get a io) (func_dir func) (ProcCb ?p) 0 (Some a) (io_loop io) (io_kern io)
      = Inr ((True, t), l, k)" by simp
    note R = io_inv_register [OF inv reg]
    from c True have io': "c = None" "io' = set_token a t (set_loop l k io)" by simp_all
    have e: "entry io' = (entry io)((Get a io, dir_bits (func_dir func)) \<mapsto> ProcCb ?p)"
      using R(4) by (simp add: io')
    have old: "cancelMap (io_loop io) u = Some x \<Longrightarrow> cancelMap (io_loop io') u = Some x" for u x
      using io_inv_fresh [OF inv] by (auto simp: R io')
    have "proc_ok io' f ev p" if "entry io' (f, ev) = Some (ProcCb p)" for f ev p
    proof (cases "(f, ev) = (Get a io, dir_bits (func_dir func))")
      case True
      with that e have "p = ?p" by simp
      with True func idle R(2,5) show ?thesis by (simp add: proc_ok_def owner_of_def io' idle_object_def)
    next
      case False
      with that have p: "entry io (f, ev) = Some (ProcCb p)" by (simp add: e split: if_splits)
      from idle_no_entry [OF inv idle p] have "io_afds io' (pc_self p) = io_afds io (pc_self p)" by (simp add: io')
      from proc_ok_other [OF inv p this _ old] show ?thesis by (simp add: io')
    qed
    moreover have "\<exists>d. ev = dir_bits d" if "entry io' (f, ev) = Some cb" for f ev cb
      using that io_invD(4) [OF inv, of f ev] unfolding e by (auto split: if_splits)
    ultimately have "io_inv b io'" using R(6,7,8) unfolding io_inv_def by (simp add: io')
    then show thesis using e R(3) func by (intro started [of ?p]) (simp_all add: io')
  qed
qed

lemma io_inv_update:
  assumes inv: "io_inv b io" and e: "entry io (fd, ev) = Some (ProcCb p)"
    and p': "pc_self p' = pc_self p" "stage_dir (pc_resolve p') = stage_dir (pc_resolve p)"
      "func_dir (pc_func p') = func_dir (pc_func p)"
    and io': "entry io' = (entry io)((fd, ev) \<mapsto> ProcCb p')" "io_next io' = io_next io" "io_afds io' = io_afds io"
      "nextToken (io_loop io') = nextToken (io_loop io)" "cancelMap (io_loop io') = cancelMap (io_loop io)"
  shows "io_inv b io'"
proof -
  have "proc_ok io' f ev' q" if "entry io' (f, ev') = Some (ProcCb q)" for f ev' q
  proof (cases "(f, ev') = (fd, ev)")
    case True
    with that io' p' io_invD(5) [OF inv e] show ?thesis by (auto simp: proc_ok_def owner_of_def Get_def)
  next
    case False
    with that have "entry io (f, ev') = Some (ProcCb q)" by (simp add: io'(1) split: if_splits)
    from proc_ok_other [OF inv this, of io'] io' show ?thesis by simp
  qed
  moreover have "\<exists>d. ev' = dir_bits d" if "entry io' (f, ev') = Some cb" for f ev' cb
    using that io_invD(4) [OF inv, of f ev'] io_invD(4) [OF inv e] io' by (auto split: if_splits)
  ultimately show ?thesis using inv io' unfolding io_inv_def by simp
qed

section \<open>Running an entry\<close>

text \<open>
  The outcome of running an entry of the table: the operation goes on in place, or its
  object is idle, its entry gone, and the call is the one the operation was started for.
\<close>

definition ran :: "'k io \<Rightarrow> descr \<Rightarrow> u32 \<Rightarrow> proc_cb \<Rightarrow> user_call option \<Rightarrow> 'k io \<Rightarrow> bool" where
  "ran io fd ev p c io' \<longleftrightarrow> io_next io' = io_next io \<and> Get (pc_self p) io' = fd \<and>
     (case c of
        None \<Rightarrow> \<exists>p'. entry io' = (entry io)((fd, ev) \<mapsto> ProcCb p') \<and> pc_self p' = pc_self p
          \<and> stage_goal (pc_resolve p') = stage_goal (pc_resolve p)
      | Some u \<Rightarrow> entry io' \<subseteq>\<^sub>m entry io \<and> entry io' (fd, ev) = None \<and> idle_object io' (pc_self p)
          \<and> call_goal u = stage_goal (pc_resolve p))"

lemma ran_trans:
  assumes "entry io1 = (entry io)((fd, ev) \<mapsto> ProcCb q)" and "io_next io1 = io_next io"
    and "pc_self q = pc_self p" and "stage_goal (pc_resolve q) = stage_goal (pc_resolve p)"
    and "entry io (fd, ev) = Some (ProcCb p)" and "ran io1 fd ev q c io'"
  shows "ran io fd ev p c io'"
  using assms by (auto simp: ran_def map_le_def split: option.splits if_splits)

lemma ran_Deregister:
  assumes "io_inv b io" and "entry io (fd, ev) = Some (ProcCb p)" and "call_goal u = stage_goal (pc_resolve p)"
  shows "ran io fd ev p (Some u) (Deregister K (pc_self p) io)"
proof -
  note d = io_inv_Deregister [OF assms(1), of K "pc_self p"]
  have "entry (Deregister K (pc_self p) io) (fd, ev) = None"
    using map_le_Some [OF d(2)] assms(2) d(3) by (cases "entry (Deregister K (pc_self p) io) (fd, ev)") fastforce+
  with d(2) assms io_invD(5) [OF assms(1,2)] show ?thesis
    by (simp add: ran_def idle_object_def Deregister_token Deregister_next proc_ok_def owner_of_def)
qed

lemma ran_stage_error:
  assumes "io_inv b io" and "entry io (fd, ev) = Some (ProcCb p)" and "stage_error K (pc_self p) (pc_resolve p) e io = (c, io')"
  shows "io_inv b io' \<and> ran io fd ev p c io'"
  using assms ran_Deregister [OF assms(1,2)] io_inv_Deregister(1) [OF assms(1)]
  by (auto simp: stage_error_def)

lemma ran_again:
  assumes inv: "io_inv b io" and e: "entry io (fd, ev) = Some (ProcCb p)" and func: "func_dir func = stage_dir st"
    and st: "stage_goal st = stage_goal (pc_resolve p)"
    and start: "start_stage K (pc_self p) func data sz st io = Inr (c, io')"
  shows "io_inv b io' \<and> ran io fd ev p c io'"
proof -
  let ?a = "pc_self p" and ?d = "stage_dir (pc_resolve p)"
  let ?p = "\<lparr>pc_self = ?a, pc_func = func, pc_left = sz, pc_size = sz, pc_data = data, pc_resolve = st\<rparr>"
  note ok = io_invD(5) [OF inv e]
  have dir: "stage_dir st = ?d" "ev = dir_bits ?d" using st ok by (simp_all add: stage_goal_dir proc_ok_def)
  let ?t = "afd_token (io_afds io ?a)"
  from ok have t: "?t \<noteq> 0" "cancelMap (io_loop io) ?t = Some (fd, ?d)" "Get ?a io = fd"
    by (auto simp: proc_ok_def owner_of_def)
  from e obtain keeper where keeper: "find_keeper (io_loop io) fd (dir_bits ?d) = Some keeper"
    by (auto simp: entry_def dir)
  from t keeper obtain l k where r: "ReplaceAction K ?t (ProcCb ?p) (io_loop io) (io_kern io) = Inr (True, l, k)"
    by (auto simp: ReplaceAction_def UtilizeCallback_def word_gt_0)
  have io': "c = None" "io' = set_loop l k io"
    using start t r by (auto simp: start_stage_def ProcData_def Let_def)
  have l: "cancelMap l = cancelMap (io_loop io)" "nextToken l = nextToken (io_loop io)"
    using r by (auto elim: ReplaceAction_True)
  have e': "entry io' = (entry io)((fd, ev) \<mapsto> ProcCb ?p)"
    using keeper by (auto simp: io' entry_def find_keeper_replaced [OF r t(2)] dir)
  have "io_inv b io'"
    by (rule io_inv_update [OF inv e _ _ _ e']) (use dir func l ok in \<open>auto simp: io' proc_ok_def\<close>)
  with e' t st show ?thesis by (auto simp: ran_def io')
qed

lemma ran_stage_ok:
  assumes inv: "io_inv b io" and e: "entry io (fd, ev) = Some (ProcCb p)"
    and ok: "stage_ok K (pc_self p) (pc_resolve p) buf io = Inr (c, io')"
  shows "io_inv b io' \<and> ran io fd ev p c io'"
proof (cases "pc_resolve p")
  case (RecvLen r)
  from ok RecvLen obtain n where "start_stage K (pc_self p) RecvFunctor (replicate (unat (n :: u32)) 0) (ucast n) (RecvBody r) io = Inr (c, io')"
    by (auto split: option.split_asm if_split_asm)
  from ran_again [OF inv e _ _ this] RecvLen show ?thesis by simp
next
  case (RecvBody r)
  with ok ran_Deregister [OF inv e] io_inv_Deregister(1) [OF inv] show ?thesis by auto
next
  case (SendLen u m s)
  with ok have "start_stage K (pc_self p) (SendFunctor u) m (of_nat (length m)) (SendBody s) io = Inr (c, io')" by simp
  from ran_again [OF inv e _ _ this] SendLen show ?thesis by simp
next
  case (SendBody s)
  with ok ran_Deregister [OF inv e] io_inv_Deregister(1) [OF inv] show ?thesis by auto
qed

lemma entry_store:
  assumes "entry io (fd, ev) = Some cb"
  shows "entry (store_proc (fd, ev) p io) = (entry io)((fd, ev) \<mapsto> ProcCb p)"
    and "io_next (store_proc (fd, ev) p io) = io_next io" and "io_afds (store_proc (fd, ev) p io) = io_afds io"
    and "nextToken (io_loop (store_proc (fd, ev) p io)) = nextToken (io_loop io)"
    and "cancelMap (io_loop (store_proc (fd, ev) p io)) = cancelMap (io_loop io)"
proof -
  from assms obtain c where "find_keeper (io_loop io) fd ev = Some c" by (auto simp: entry_def)
  then show "entry (store_proc (fd, ev) p io) = (entry io)((fd, ev) \<mapsto> ProcCb p)"
    "io_next (store_proc (fd, ev) p io) = io_next io" "io_afds (store_proc (fd, ev) p io) = io_afds io"
    "nextToken (io_loop (store_proc (fd, ev) p io)) = nextToken (io_loop io)"
    "cancelMap (io_loop (store_proc (fd, ev) p io)) = cancelMap (io_loop io)"
    by (auto simp: store_proc_def entry_def)
qed

lemma ran_advance:
  assumes inv: "io_inv b io" and e: "entry io (fd, ev) = Some (ProcCb p)"
    and adv: "proc_advance K (fd, ev) p len data io = Inr (c, io')"
  shows "io_inv b io' \<and> ran io fd ev p c io'"
proof -
  let ?q = "p\<lparr>pc_left := pc_left p - of_int len, pc_data := data\<rparr>" and ?io = "store_proc (fd, ev)
      (p\<lparr>pc_left := pc_left p - of_int len, pc_data := data\<rparr>) io"
  note st = entry_store [OF e, of ?q]
  have inv': "io_inv b ?io" by (rule io_inv_update [OF inv e _ _ _ st]) simp_all
  have e': "entry ?io (fd, ev) = Some (ProcCb ?q)" by (simp add: st(1))
  have G: "Get (pc_self p) ?io = fd" using io_invD(5) [OF inv e] st(3) by (simp add: proc_ok_def owner_of_def Get_def)
  have "io_inv b io' \<and> ran ?io fd ev ?q c io'"
  proof (cases "pc_left ?q = 0")
    case True
    with adv ran_stage_ok [OF inv' e', of K data c io'] show ?thesis by (simp add: proc_advance_def Let_def)
  next
    case False
    with adv have "c = None" "io' = ?io" by (auto simp: proc_advance_def Let_def)
    with inv' e' G show ?thesis
      by (simp add: ran_def) (rule exI [of _ ?q], simp add: fun_upd_idem)
  qed
  with ran_trans [OF st(1,2) _ _ e] show ?thesis by simp
qed

lemma ran_kern [simp]: "ran (io\<lparr>io_kern := k\<rparr>) fd ev p c io' = ran io fd ev p c io'"
  by (simp add: ran_def split: option.split)

text \<open>Every way through the callback makes at most one system call, and then ends the same two ways.\<close>

lemma run_proc_cases:
  assumes "run_proc K key p res io = Inr (c, io')"
  obtains k where "k = io_kern io \<or> (\<exists>fd n. k = snd (k_recv K fd n (io_kern io)))
      \<or> (\<exists>fd bs fl. k = snd (k_send K fd bs fl (io_kern io)))"
    and "(\<exists>e. stage_error K (pc_self p) (pc_resolve p) e (io\<lparr>io_kern := k\<rparr>) = (c, io'))
      \<or> (\<exists>len data. proc_advance K key p len data (io\<lparr>io_kern := k\<rparr>) = Inr (c, io'))"
proof (cases res)
  case (Err e)
  with assms have "stage_error K (pc_self p) (pc_resolve p) e (io\<lparr>io_kern := io_kern io\<rparr>) = (c, io')"
    by (simp add: run_proc_def Let_def)
  then show thesis by (intro that [of "io_kern io"]) blast+
next
  case (Ok u)
  then have le: "\<not> pc_size p < pc_left p" using assms by (auto simp: run_proc_def Let_def split: if_splits)
  let ?off = "unat (pc_size p - pc_left p)"
  show thesis
  proof (cases "pc_func p")
    case RecvFunctor
    let ?r = "k_recv K (Get (pc_self p) io) (pc_left p) (io_kern io)"
    from assms Ok le RecvFunctor show thesis
      by (intro that [of "snd ?r"], blast)
        (auto simp: run_proc_def Let_def split: recv_result.split_asm prod.split_asm if_split_asm)
  next
    case (SendFunctor u)
    let ?r = "k_send K (Get (pc_self p) io) (drop ?off (pc_data p)) (send_flags u) (io_kern io)"
    from assms Ok le SendFunctor show thesis
      by (intro that [of "snd ?r"], blast)
        (auto simp: run_proc_def Let_def split: prod.split_asm if_split_asm)
  qed
qed

lemma run_proc_inv:
  assumes inv: "io_inv b io" and e: "entry io (fd, ev) = Some (ProcCb p)"
    and run: "run_proc K (fd, ev) p res io = Inr (c, io')"
  shows "io_inv b io' \<and> ran io fd ev p c io'"
  using run
proof (rule run_proc_cases)
  fix k
  have k: "io_inv b (io\<lparr>io_kern := k\<rparr>)" "entry (io\<lparr>io_kern := k\<rparr>) (fd, ev) = Some (ProcCb p)"
    using inv e by simp_all
  assume "(\<exists>e. stage_error K (pc_self p) (pc_resolve p) e (io\<lparr>io_kern := k\<rparr>) = (c, io'))
      \<or> (\<exists>len data. proc_advance K (fd, ev) p len data (io\<lparr>io_kern := k\<rparr>) = Inr (c, io'))"
  with ran_stage_error [OF k] ran_advance [OF k] show ?thesis by auto
qed

section \<open>Destroying closures\<close>

lemma io_inv_queue:
  "io_inv b (io\<lparr>io_loop := (io_loop io)\<lparr>removeQueue := q\<rparr>\<rparr>) = io_inv b io"
  "entry (io\<lparr>io_loop := (io_loop io)\<lparr>removeQueue := q\<rparr>\<rparr>) = entry io"
proof -
  show e: "entry (io\<lparr>io_loop := (io_loop io)\<lparr>removeQueue := q\<rparr>\<rparr>) = entry io" by (auto simp: entry_def)
  show "io_inv b (io\<lparr>io_loop := (io_loop io)\<lparr>removeQueue := q\<rparr>\<rparr>) = io_inv b io"
    by (simp add: io_inv_def e proc_ok_def owner_of_def)
qed

lemma io_inv_destroy:
  assumes "io_inv b io"
  shows "io_inv b (destroy_callback K cb io)" and "entry (destroy_callback K cb io) \<subseteq>\<^sub>m entry io"
  using assms io_inv_Release [OF assms] by (auto simp: destroy_callback_def split: callback.split)

lemma drain_preserves:
  assumes "\<And>cb io. I io \<Longrightarrow> I (destroy_callback K cb io)"
    and "\<And>q io. I io \<Longrightarrow> I (io\<lparr>io_loop := (io_loop io)\<lparr>removeQueue := q\<rparr>\<rparr>)" and "I io"
  shows "I (drain K io)"
  using assms
proof (induction K io rule: drain.induct)
  case (1 K io)
  show ?case
  proof (cases "removeQueue (io_loop io)")
    case (Cons c q)
    with 1 show ?thesis by (simp add: drain.simps [of K io])
  qed (use 1(4) in \<open>simp add: drain.simps [of K io]\<close>)
qed

lemma io_inv_drain:
  assumes "io_inv b io"
  shows "io_inv b (drain K io)" and "entry (drain K io) \<subseteq>\<^sub>m entry io"
proof -
  have "io_inv b (drain K io) \<and> entry (drain K io) \<subseteq>\<^sub>m entry io"
    by (rule drain_preserves [of "\<lambda>io'. io_inv b io' \<and> entry io' \<subseteq>\<^sub>m entry io"])
      (auto simp: io_inv_queue assms intro: io_inv_destroy(1) map_le_trans [OF io_inv_destroy(2)])
  then show "io_inv b (drain K io)" "entry (drain K io) \<subseteq>\<^sub>m entry io" by auto
qed

section \<open>What the operating system promises\<close>

text \<open>
  The three groups of laws together: interest lists, the calls that do not touch them, and
  open descriptors. \<open>watched\<close>: the kernel watches what the table says.
\<close>

definition watched :: "('k \<Rightarrow> descr \<Rightarrow> descr \<rightharpoonup> u32) \<Rightarrow> 'k io \<Rightarrow> bool" where
  "watched interest io \<longleftrightarrow> watch_inv interest (io_loop io, io_kern io)"

lemma watched_simps [simp]:
  "watched interest (set_token a t io) = watched interest io"
  "watched interest (set_loop l k io) = watch_inv interest (l, k)"
  "watched interest (io\<lparr>io_afds := af\<rparr>) = watched interest io"
  "watched interest (io\<lparr>io_next := n\<rparr>) = watched interest io"
  by (simp_all add: watched_def)

lemma watched_kern: "interest k = interest (io_kern io) \<Longrightarrow> watched interest (io\<lparr>io_kern := k\<rparr>) = watched interest io"
  by (simp add: watched_def watch_inv_def)

lemma watch_inv_same_table:
  assumes "\<And>f e. find_keeper l' f e = None \<longleftrightarrow> find_keeper l f e = None"
    and "epollHandle l' = epollHandle l" "removeEvent l' = removeEvent l" "stopEvent l' = stopEvent l"
  shows "watch_inv interest (l', k) = watch_inv interest (l, k)"
proof -
  have "watch_ok i l' fd = watch_ok i l fd" for i fd
    by (intro watch_ok_cong) (simp add: mask_of_def assms(1))
  then show ?thesis by (simp add: watch_inv_def assms(2-))
qed

lemma watched_queue [simp]:
  "watched interest (io\<lparr>io_loop := (io_loop io)\<lparr>removeQueue := q\<rparr>\<rparr>) = watched interest io"
  unfolding watched_def by (simp add: watch_inv_same_table [of "(io_loop io)\<lparr>removeQueue := q\<rparr>" "io_loop io"])

lemma watched_store [simp]: "watched interest (store_proc key p io) = watched interest io"
proof (cases "map_of (fdToCallback (io_loop io)) key")
  case (Some c)
  obtain fd ev where key: "key = (fd, ev)" by (cases key)
  let ?l = "(io_loop io)\<lparr>fdToCallback := al_assign key (c\<lparr>ck_callback := ProcCb p\<rparr>) (fdToCallback (io_loop io))\<rparr>"
  have "find_keeper ?l f e = None \<longleftrightarrow> find_keeper (io_loop io) f e = None" for f e
    using Some by (auto simp: key)
  from watch_inv_same_table [OF this] Some show ?thesis by (simp add: store_proc_def watched_def)
qed (simp add: store_proc_def)

locale os_contract =
  fixes K :: "'k kernel" and interest :: "'k \<Rightarrow> descr \<Rightarrow> descr \<rightharpoonup> u32" and opn :: "'k \<Rightarrow> descr set"
  assumes laws: "epoll_laws K interest" and frame: "epoll_frame K interest" and fds: "fd_laws K opn"
begin

lemma quiet_opn: "quiet K opn"
  by (rule fd_laws_quiet [OF fds])

lemmas opn_keep [simp] = fd_laws_keep [OF fds]

lemma interest_keep [simp]:
  "interest (snd (k_setsockopt K fd l n v k)) = interest k" "interest (snd (k_bind K fd ba k)) = interest k"
  "interest (snd (k_listen K fd n k)) = interest k" "interest (snd (k_connect K fd ca k)) = interest k"
  "interest (snd (k_accept K fd k)) = interest k" "interest (snd (k_getfl K fd k)) = interest k"
  "interest (k_setfl K fd fl k) = interest k" "interest (snd (k_getpeername K fd k)) = interest k"
  "interest (snd (k_getifaddrs K k)) = interest k" "interest (snd (k_send K fd bs fl k)) = interest k"
  "interest (snd (k_recv K fd u k)) = interest k" "interest (snd (k_sendto K fd bs sa k)) = interest k"
  "interest (snd (k_recvfrom K fd m k)) = interest k" "interest (snd (k_timerfd_create K k)) = interest k"
  "interest (snd (k_timerfd_settime K fd i v k)) = interest k" "interest (snd (k_socket K d t p k)) = interest k"
  using frame by (simp_all add: epoll_frame_def)

lemma interest_rw [simp]: "interest (k_read K fd k) = interest k" "interest (k_write K fd k) = interest k"
  by (simp_all add: fun_eq_iff epoll_laws_read [OF laws] epoll_laws_write [OF laws])

lemma interest_close: "interest (k_close K fd k) ep = (interest k ep)(fd := None)"
  by (rule epoll_laws_close [OF laws])

lemma watched_Deregister: "watched interest io \<Longrightarrow> watched interest (Deregister K a io)"
  by (auto simp: Deregister_def Let_def watched_def dest: watch_inv_deregister [OF laws] split: prod.split)

lemma watched_Release: "watched interest io \<Longrightarrow> watched interest (snd (Release K a io))"
  by (auto simp: Release_def Let_def watched_Deregister)

lemma watched_start_stage:
  assumes "watched interest io" and "start_stage K a func data sz st io = Inr (c, io')"
  shows "watched interest io'"
proof -
  have reg: "watch_inv interest (l, k)"
    if "RegisterAction K fd dir cb 0 afd (io_loop io) (io_kern io) = Inr ((ok, u), l, k)" for fd dir cb afd ok u l k
    using watch_inv_register [OF laws _ that] assms(1) unfolding watched_def .
  have rpl: "watch_inv interest (l, k)"
    if "ReplaceAction K t cb (io_loop io) (io_kern io) = Inr (ok, l, k)" for t cb ok l k
    using watch_inv_replace [OF laws] assms(1) that ReplaceAction_False [of K t cb "io_loop io" "io_kern io" l k]
    unfolding watched_def by (cases ok) auto
  from assms(2) show ?thesis
    by (auto simp: start_stage_def ProcData_def stage_error_def Let_def chain_eq_Inr dest!: reg rpl
        intro: watched_Deregister split: if_splits option.splits prod.splits)
qed

lemma watched_stage_error:
  "watched interest io \<Longrightarrow> stage_error K a st e io = (c, io') \<Longrightarrow> watched interest io'"
  by (auto simp: stage_error_def watched_Deregister)

lemma watched_stage_ok:
  "watched interest io \<Longrightarrow> stage_ok K a st buf io = Inr (c, io') \<Longrightarrow> watched interest io'"
  by (cases st) (auto intro: watched_Deregister watched_start_stage split: option.split_asm if_split_asm)

lemma watched_advance:
  "watched interest io \<Longrightarrow> proc_advance K key p len data io = Inr (c, io') \<Longrightarrow> watched interest io'"
  by (auto simp: proc_advance_def Let_def intro: watched_stage_ok [of "store_proc key p' io" for p'] split: if_splits)

lemma opn_stage_ok:
  "stage_ok K a st buf io = Inr (c, io') \<Longrightarrow> opn (io_kern io') = opn (io_kern io)"
  by (cases st) (auto simp: quiet_Deregister [OF quiet_opn] dest: quiet_start_stage [OF quiet_opn]
      split: option.split_asm if_split_asm)

lemma kern_store [simp]: "io_kern (store_proc key p io) = io_kern io"
  by (simp add: store_proc_def split: option.split)

lemma opn_advance: "proc_advance K key p len data io = Inr (c, io') \<Longrightarrow> opn (io_kern io') = opn (io_kern io)"
  by (auto simp: proc_advance_def Let_def dest: opn_stage_ok split: if_splits)

lemma run_proc_kern:
  assumes "run_proc K key p res io = Inr (c, io')"
  shows "opn (io_kern io') = opn (io_kern io)" and "watched interest io \<Longrightarrow> watched interest io'"
proof -
  obtain k where k: "k = io_kern io \<or> (\<exists>fd n. k = snd (k_recv K fd n (io_kern io)))
      \<or> (\<exists>fd bs fl. k = snd (k_send K fd bs fl (io_kern io)))"
    and c: "(\<exists>e. stage_error K (pc_self p) (pc_resolve p) e (io\<lparr>io_kern := k\<rparr>) = (c, io'))
      \<or> (\<exists>len data. proc_advance K key p len data (io\<lparr>io_kern := k\<rparr>) = Inr (c, io'))"
    using assms by (rule run_proc_cases)
  from k have same: "opn k = opn (io_kern io)" "interest k = interest (io_kern io)" by auto
  from c have "opn (io_kern io') = opn k"
    by (auto simp: stage_error_def quiet_Deregister [OF quiet_opn] dest: opn_advance)
  with same show "opn (io_kern io') = opn (io_kern io)" by simp
  assume "watched interest io"
  with same have "watched interest (io\<lparr>io_kern := k\<rparr>)" by (simp add: watched_kern)
  with c show "watched interest io'" using watched_advance watched_stage_error by blast
qed

lemma opn_Release: "opn (io_kern (snd (Release K a io))) = opn (io_kern io)"
  by (auto simp: Release_def Let_def quiet_Deregister [OF quiet_opn])

lemma destroy_kern:
  "watched interest io \<Longrightarrow> watched interest (destroy_callback K cb io)"
  "opn (io_kern (destroy_callback K cb io)) = opn (io_kern io)"
  by (auto simp: destroy_callback_def watched_Release opn_Release split: callback.split)

lemma drain_kern:
  "watched interest io \<Longrightarrow> watched interest (drain K io)" "opn (io_kern (drain K io)) = opn (io_kern io)"
proof -
  show "opn (io_kern (drain K io)) = opn (io_kern io)"
    by (rule drain_preserves [of "\<lambda>io'. opn (io_kern io') = opn (io_kern io)"]) (simp_all add: destroy_kern)
  show "watched interest io \<Longrightarrow> watched interest (drain K io)"
    by (rule drain_preserves [of "watched interest"]) (simp_all add: destroy_kern)
qed

end

interpretation sim_os: os_contract sim_kernel "\<lambda>k _. sim_interest k" "\<lambda>k. set (sim_open k)"
  by unfold_locales (rule sim_epoll_laws sim_epoll_frame sim_fd_laws)+

end
