(* ===== verification/NodeInv.thy ===== *)
theory NodeInv
  imports Node IoInv
begin

text \<open>
  The invariant of a whole process, and that every operation of the connection and
  broadcast managers keeps it: the connection tables agree, every operation in progress
  sits on an open descriptor of the right kind (a handshake alone on a descriptor that is
  not a connection, reading and sending on a connection, sending only with a non-empty
  queue), descriptors of connections are never those of timers or of the managers, the peer
  tables are consistent, the kernel watches what the table says, and the notifications of
  opened and lost sessions balance the connections.
\<close>

section \<open>The invariant\<close>

datatype role = Handshake | Reading | Sending

fun goal_role :: "recv_resolve + send_resolve \<Rightarrow> role" where
  "goal_role (Inl ReadNext) = Reading"
| "goal_role (Inl _) = Handshake"
| "goal_role (Inr SendNext) = Sending"
| "goal_role (Inr _) = Handshake"

definition system_fd :: "'k node \<Rightarrow> descr \<Rightarrow> bool" where
  "system_fd w fd \<longleftrightarrow> fd = 0 \<or> fd \<in> dom (fdToPeer w)
     \<or> (\<exists>ev cb. entry (nd_io w) (fd, ev) = Some cb \<and> (\<forall>p. cb \<noteq> ProcCb p))"

definition role_ok :: "'k node \<Rightarrow> descr \<Rightarrow> u32 \<Rightarrow> role \<Rightarrow> bool" where
  "role_ok w fd ev r \<longleftrightarrow>
     (case r of
        Handshake \<Rightarrow> activeConns w fd = None \<and> (\<forall>ev'. ev' \<noteq> ev \<longrightarrow> entry (nd_io w) (fd, ev') = None)
      | Reading \<Rightarrow> activeConns w fd \<noteq> None
      | Sending \<Rightarrow> activeConns w fd \<noteq> None \<and> sendQueues w fd \<noteq> Some [])"

definition conns_inv :: "('k \<Rightarrow> descr set) \<Rightarrow> 'k node \<Rightarrow> bool" where
  "conns_inv opn w \<longleftrightarrow>
     (\<forall>c fd. connToFd w c = Some fd \<longrightarrow> activeConns w fd = Some c)
     \<and> dom (sendQueues w) = dom (activeConns w) \<and> finite (dom (activeConns w))
     \<and> (\<forall>fd c. activeConns w fd = Some c \<longrightarrow> fd \<in> opn (io_kern (nd_io w)) \<and> \<not> system_fd w fd)
     \<and> (\<forall>fd ev cb. entry (nd_io w) (fd, ev) = Some cb \<longrightarrow> fd \<in> opn (io_kern (nd_io w)))
     \<and> (\<forall>fd ev p. entry (nd_io w) (fd, ev) = Some (ProcCb p) \<longrightarrow>
          \<not> system_fd w fd \<and> role_ok w fd ev (goal_role (stage_goal (pc_resolve p))))"

definition opened_count :: "conn \<Rightarrow> notification list \<Rightarrow> nat" where
  "opened_count c ns = length (filter (\<lambda>n. n = SessionOpened GetTransportId (fst c) (snd c)) ns)"

definition lost_count :: "conn \<Rightarrow> notification list \<Rightarrow> nat" where
  "lost_count c ns = length (filter (\<lambda>n. n = SessionLost GetTransportId (fst c) (snd c)) ns)"

text \<open>
  \<open>pend\<close> counts the connections already active and not yet reported: between activating
  an outgoing connection and reporting it the sources start reading from it.
\<close>

definition balanced :: "(conn \<Rightarrow> nat) \<Rightarrow> 'k node \<Rightarrow> bool" where
  "balanced pend w \<longleftrightarrow>
     (\<forall>c. opened_count c (nd_trace w) + pend c = lost_count c (nd_trace w) + card {fd. activeConns w fd = Some c})"

definition node_inv ::
  "('k \<Rightarrow> descr \<Rightarrow> descr \<rightharpoonup> u32) \<Rightarrow> ('k \<Rightarrow> descr set) \<Rightarrow> nat \<Rightarrow> (conn \<Rightarrow> nat) \<Rightarrow> 'k node \<Rightarrow> bool" where
  "node_inv interest opn b pend w \<longleftrightarrow>
     io_inv b (nd_io w) \<and> watched interest (nd_io w) \<and> peers_inv w \<and> timers_open opn w
     \<and> conns_inv opn w \<and> balanced pend w"

lemma node_invD:
  assumes "node_inv interest opn b pend w"
  shows "io_inv b (nd_io w)" "watched interest (nd_io w)" "peers_inv w" "timers_open opn w" "conns_inv opn w"
    "balanced pend w"
  using assms by (simp_all add: node_inv_def)

lemma node_inv_mono: "node_inv interest opn b pend w \<Longrightarrow> b' \<le> b \<Longrightarrow> node_inv interest opn b' pend w"
  by (auto simp: node_inv_def intro: io_inv_mono)

lemma conns_invD:
  assumes "conns_inv opn w"
  shows "connToFd w c = Some fd \<Longrightarrow> activeConns w fd = Some c"
    and "sendQueues w fd = None \<longleftrightarrow> activeConns w fd = None" and "finite (dom (activeConns w))"
    and "activeConns w fd = Some c \<Longrightarrow> fd \<in> opn (io_kern (nd_io w))"
    and "activeConns w fd = Some c \<Longrightarrow> \<not> system_fd w fd"
    and "entry (nd_io w) (fd, ev) = Some cb \<Longrightarrow> fd \<in> opn (io_kern (nd_io w))"
    and "entry (nd_io w) (fd, ev) = Some (ProcCb p) \<Longrightarrow> \<not> system_fd w fd"
    and "entry (nd_io w) (fd, ev) = Some (ProcCb p) \<Longrightarrow> role_ok w fd ev (goal_role (stage_goal (pc_resolve p)))"
  using assms unfolding conns_inv_def by blast+

lemma conns_invI:
  assumes "\<And>c fd. connToFd w c = Some fd \<Longrightarrow> activeConns w fd = Some c"
    and "dom (sendQueues w) = dom (activeConns w)" and "finite (dom (activeConns w))"
    and "\<And>fd c. activeConns w fd = Some c \<Longrightarrow> fd \<in> opn (io_kern (nd_io w)) \<and> \<not> system_fd w fd"
    and "\<And>fd ev cb. entry (nd_io w) (fd, ev) = Some cb \<Longrightarrow> fd \<in> opn (io_kern (nd_io w))"
    and "\<And>fd ev p. entry (nd_io w) (fd, ev) = Some (ProcCb p) \<Longrightarrow>
      \<not> system_fd w fd \<and> role_ok w fd ev (goal_role (stage_goal (pc_resolve p)))"
  shows "conns_inv opn w"
  using assms unfolding conns_inv_def by blast

lemma conns_inv_dom: "conns_inv opn w \<Longrightarrow> dom (sendQueues w) = dom (activeConns w)"
  by (simp add: conns_inv_def)

text \<open>A descriptor on which an operation may be started, by what the operation is for.\<close>

definition slot :: "('k \<Rightarrow> descr set) \<Rightarrow> 'k node \<Rightarrow> descr \<Rightarrow> role \<Rightarrow> bool" where
  "slot opn w fd r \<longleftrightarrow> fd \<in> opn (io_kern (nd_io w)) \<and> \<not> system_fd w fd \<and>
     (case r of
        Handshake \<Rightarrow> activeConns w fd = None \<and> (\<forall>ev. entry (nd_io w) (fd, ev) = None)
      | Reading \<Rightarrow> activeConns w fd \<noteq> None
      | Sending \<Rightarrow> activeConns w fd \<noteq> None \<and> sendQueues w fd \<noteq> Some [] \<and> entry (nd_io w) (fd, EPOLLOUT) = None)"

section \<open>Changes of the loop's part\<close>

text \<open>
  A change that leaves the connections alone keeps their invariant if it adds no operation
  in progress and turns no open descriptor into one of the system's.
\<close>

lemma conns_inv_change:
  assumes inv: "conns_inv opn w"
    and conns: "activeConns w' = activeConns w" "connToFd w' = connToFd w" "sendQueues w' = sendQueues w"
    and proc: "\<And>f ev p. entry (nd_io w') (f, ev) = Some (ProcCb p) \<Longrightarrow> entry (nd_io w) (f, ev) = Some (ProcCb p)"
    and none: "\<And>f ev. f \<in> opn (io_kern (nd_io w)) \<Longrightarrow> entry (nd_io w) (f, ev) = None \<Longrightarrow> entry (nd_io w') (f, ev) = None"
    and sys: "\<And>f. f \<in> opn (io_kern (nd_io w)) \<Longrightarrow> system_fd w' f \<Longrightarrow> system_fd w f"
    and new: "\<And>f ev cb. entry (nd_io w') (f, ev) = Some cb \<Longrightarrow> f \<in> opn (io_kern (nd_io w'))"
    and opn: "opn (io_kern (nd_io w)) \<subseteq> opn (io_kern (nd_io w'))"
  shows "conns_inv opn w'" and "slot opn w fd r \<Longrightarrow> slot opn w' fd r"
proof -
  note D = conns_invD [OF inv]
  show "conns_inv opn w'"
  proof (rule conns_invI)
    show "dom (sendQueues w') = dom (activeConns w')" using conns_inv_dom [OF inv] by (simp add: conns)
    fix fd c assume "activeConns w' fd = Some c"
    then have "activeConns w fd = Some c" by (simp add: conns)
    from D(4,5) [OF this] opn sys show "fd \<in> opn (io_kern (nd_io w')) \<and> \<not> system_fd w' fd" by blast
  next
    fix fd ev p assume "entry (nd_io w') (fd, ev) = Some (ProcCb p)"
    then have p: "entry (nd_io w) (fd, ev) = Some (ProcCb p)" by (rule proc)
    from D(7) [OF p] D(8) [OF p] sys [OF D(6) [OF p]] none [OF D(6) [OF p]]
    show "\<not> system_fd w' fd \<and> role_ok w' fd ev (goal_role (stage_goal (pc_resolve p)))"
      by (auto simp: role_ok_def conns split: role.splits)
  qed (use D(1,3) new in \<open>auto simp: conns\<close>)
  show "slot opn w fd r \<Longrightarrow> slot opn w' fd r"
    using sys [of fd] none [of fd] opn by (auto simp: slot_def conns split: role.splits)
qed

lemma system_fd_io: "entry io' \<subseteq>\<^sub>m entry (nd_io w) \<Longrightarrow> system_fd (w\<lparr>nd_io := io'\<rparr>) fd \<Longrightarrow> system_fd w fd"
  by (auto simp: system_fd_def dest: map_le_Some)

lemma conns_inv_shrink:
  assumes le: "entry io' \<subseteq>\<^sub>m entry (nd_io w)" and inv: "conns_inv opn w" and opn: "opn (io_kern (nd_io w)) \<subseteq> opn (io_kern io')"
  shows "conns_inv opn (w\<lparr>nd_io := io'\<rparr>)"
proof (rule conns_inv_change(1) [OF inv])
  fix f ev cb assume "entry (nd_io (w\<lparr>nd_io := io'\<rparr>)) (f, ev) = Some cb"
  then have "entry (nd_io w) (f, ev) = Some cb" using map_le_Some [OF le] by simp
  from conns_invD(6) [OF inv this] opn show "f \<in> opn (io_kern (nd_io (w\<lparr>nd_io := io'\<rparr>)))" by auto
qed (use map_le_Some [OF le] map_le_None [OF le] system_fd_io [OF le] opn in auto)

lemma slot_shrink:
  assumes "slot opn w fd r" and le: "entry io' \<subseteq>\<^sub>m entry (nd_io w)" and "opn (io_kern (nd_io w)) \<subseteq> opn (io_kern io')"
  shows "slot opn (w\<lparr>nd_io := io'\<rparr>) fd r"
  using assms system_fd_io [OF le] map_le_None [OF le] by (auto simp: slot_def split: role.splits)

lemma node_inv_shrink:
  assumes "node_inv interest opn b pend w" and "entry io' \<subseteq>\<^sub>m entry (nd_io w)"
    and "opn (io_kern (nd_io w)) \<subseteq> opn (io_kern io')" and "io_inv b' io'" and "watched interest io'"
  shows "node_inv interest opn b' pend (w\<lparr>nd_io := io'\<rparr>)"
  using node_invD [OF assms(1)] assms(3-) conns_inv_shrink [OF assms(2) _ assms(3)]
  by (auto simp: node_inv_def timers_open_def balanced_def)

lemma conns_inv_entry:
  assumes inv: "conns_inv opn w" and e: "entry io' = (entry (nd_io w))((fd, ev) \<mapsto> ProcCb p)"
    and opn: "opn (io_kern io') = opn (io_kern (nd_io w))"
    and fd: "fd \<in> opn (io_kern (nd_io w))" "\<not> system_fd w fd"
    and role: "role_ok w fd ev (goal_role (stage_goal (pc_resolve p)))"
    and alone: "\<And>ev' q. entry (nd_io w) (fd, ev') = Some (ProcCb q) \<Longrightarrow> goal_role (stage_goal (pc_resolve q)) = Handshake \<Longrightarrow> ev' = ev"
  shows "conns_inv opn (w\<lparr>nd_io := io'\<rparr>)"
proof -
  note D = conns_invD [OF inv]
  have sys: "system_fd (w\<lparr>nd_io := io'\<rparr>) f \<Longrightarrow> system_fd w f" for f
    using fd(2) by (auto simp: system_fd_def e split: if_splits)
  have "role_ok (w\<lparr>nd_io := io'\<rparr>) f ev' (goal_role (stage_goal (pc_resolve q)))"
    if q: "entry io' (f, ev') = Some (ProcCb q)" for f ev' q
  proof (cases "(f, ev') = (fd, ev)")
    case True
    with q e role show ?thesis by (auto simp: role_ok_def split: role.splits)
  next
    case False
    with q have q: "entry (nd_io w) (f, ev') = Some (ProcCb q)" by (simp add: e split: if_splits)
    show ?thesis
      using D(8) [OF q] alone [of ev' q] q False by (auto simp: role_ok_def e split: role.splits)
  qed
  moreover have "\<not> system_fd (w\<lparr>nd_io := io'\<rparr>) f" if "entry io' (f, ev') = Some (ProcCb q)" for f ev' q
    using that D(7) fd(2) sys by (auto simp: e split: if_splits)
  moreover have "f \<in> opn (io_kern io')" if "entry io' (f, ev') = Some cb" for f ev' cb
    using that D(6) fd(1) opn by (auto simp: e split: if_splits)
  moreover have "f \<in> opn (io_kern io') \<and> \<not> system_fd (w\<lparr>nd_io := io'\<rparr>) f" if "activeConns w f = Some c" for f c
    using D(4,5) [OF that] sys [of f] opn by auto
  ultimately show ?thesis
    by (intro conns_invI) (use D(1,3) conns_inv_dom [OF inv] in \<open>simp_all\<close>)
qed

lemma slot_goal_ok:
  assumes "slot opn w fd r" and "r \<noteq> Reading \<or> ev = EPOLLIN"
  shows "role_ok w fd ev r"
  using assms by (auto simp: slot_def role_ok_def split: role.splits)

text \<open>On a descriptor that is free for an operation no handshake is in progress.\<close>

lemma slot_alone:
  assumes "conns_inv opn w" and "slot opn w fd r" and "entry (nd_io w) (fd, ev) = Some (ProcCb q)"
    and "goal_role (stage_goal (pc_resolve q)) = Handshake"
  shows False
  using conns_invD(8) [OF assms(1,3)] assms(2-4) by (auto simp: slot_def role_ok_def split: role.splits)

lemma goal_role_simps [simp]:
  "goal_role (Inl (OutgoingAnswer p)) = Handshake" "goal_role (Inr (IncomingAnswerSent p)) = Handshake"
  "goal_role (Inr (OutgoingNotifySent p)) = Handshake"
  by simp_all

text \<open>A call that starts reading reads in the direction of input.\<close>

definition goal_dir :: "recv_resolve + send_resolve \<Rightarrow> io_direction" where
  "goal_dir g = (case g of Inl _ \<Rightarrow> INPUT | Inr _ \<Rightarrow> OUTPUT)"

lemma goal_dir_stage: "stage_dir st = goal_dir (stage_goal st)"
  by (simp add: stage_goal_dir goal_dir_def)

lemma reading_dir: "goal_role g = Reading \<Longrightarrow> goal_dir g = INPUT"
  by (cases g rule: goal_role.cases) (auto simp: goal_dir_def)

text \<open>An object ready to start an operation for \<open>r\<close>.\<close>

definition ready :: "('k \<Rightarrow> descr set) \<Rightarrow> 'k node \<Rightarrow> afd_ref \<Rightarrow> role \<Rightarrow> bool" where
  "ready opn w a r \<longleftrightarrow> idle_object (nd_io w) a \<and> slot opn w (Get a (nd_io w)) r"

lemma ready_shrink:
  assumes "ready opn w a r" and "entry io' \<subseteq>\<^sub>m entry (nd_io w)" and "opn (io_kern (nd_io w)) \<subseteq> opn (io_kern io')"
    and "io_afds io' a = io_afds (nd_io w) a" and "io_next (nd_io w) \<le> io_next io'"
  shows "ready opn (w\<lparr>nd_io := io'\<rparr>) a r"
  using assms slot_shrink [of opn w "Get a (nd_io w)" r io'] by (auto simp: ready_def idle_object_def Get_def)

context os_contract
begin

abbreviation "ninv \<equiv> node_inv interest opn"

lemma ninv_start:
  assumes inv: "ninv (Suc b) pend w" and rdy: "ready opn w a (goal_role (stage_goal st))"
    and func: "func_dir func = stage_dir st"
    and start: "start_stage K a func data sz st (nd_io w) = Inr (c, io')"
  shows "ninv b pend (w\<lparr>nd_io := io'\<rparr>)"
    and "c = Some u \<Longrightarrow> u = stage_call st IoFailed \<and> ninv (Suc b) pend (w\<lparr>nd_io := io'\<rparr>)
      \<and> ready opn (w\<lparr>nd_io := io'\<rparr>) a (goal_role (stage_goal st)) \<and> Get a io' = Get a (nd_io w)"
proof -
  note I = node_invD [OF inv]
  let ?fd = "Get a (nd_io w)" and ?r = "goal_role (stage_goal st)"
  from rdy have idle: "idle_object (nd_io w) a" and slot: "slot opn w ?fd ?r" by (auto simp: ready_def)
  have opn: "opn (io_kern io') = opn (io_kern (nd_io w))" by (rule quiet_start_stage [OF quiet_opn start])
  have wat: "watched interest io'" by (rule watched_start_stage [OF I(2) start])
  have G: "Get a io' = ?fd" by (rule Get_start_stage [OF start])
  have "ninv b pend (w\<lparr>nd_io := io'\<rparr>) \<and> (c = Some u \<longrightarrow> u = stage_call st IoFailed \<and> ninv (Suc b) pend (w\<lparr>nd_io := io'\<rparr>)
      \<and> ready opn (w\<lparr>nd_io := io'\<rparr>) a ?r \<and> Get a io' = ?fd)"
    using I(1) idle func start
  proof (cases rule: io_inv_start_new)
    case (started p)
    have "conns_inv opn (w\<lparr>nd_io := io'\<rparr>)"
    proof (rule conns_inv_entry [OF I(5) started(6) opn])
      show "?fd \<in> opn (io_kern (nd_io w))" "\<not> system_fd w ?fd" using slot by (simp_all add: slot_def)
      have "?r \<noteq> Reading \<or> dir_bits (stage_dir st) = EPOLLIN"
        using reading_dir [of "stage_goal st"] by (auto simp: goal_dir_stage)
      from slot_goal_ok [OF slot this] show "role_ok w ?fd (dir_bits (stage_dir st)) (goal_role (stage_goal (pc_resolve p)))"
        by (simp add: started(3))
    qed (use slot_alone [OF I(5) slot] in blast)
    with I started wat opn show ?thesis by (simp add: node_inv_def timers_open_def balanced_def)
  next
    case failed
    have le: "entry io' \<subseteq>\<^sub>m entry (nd_io w)" "opn (io_kern (nd_io w)) \<subseteq> opn (io_kern io')" using failed opn by simp_all
    from node_inv_shrink [OF inv le failed(2) wat] have n: "ninv (Suc b) pend (w\<lparr>nd_io := io'\<rparr>)" .
    moreover from slot_shrink [OF slot le] failed(4) G have "ready opn (w\<lparr>nd_io := io'\<rparr>) a ?r" by (simp add: ready_def)
    ultimately show ?thesis using failed G node_inv_mono [OF n, of b] by simp
  qed
  then show "ninv b pend (w\<lparr>nd_io := io'\<rparr>)"
    and "c = Some u \<Longrightarrow> u = stage_call st IoFailed \<and> ninv (Suc b) pend (w\<lparr>nd_io := io'\<rparr>)
      \<and> ready opn (w\<lparr>nd_io := io'\<rparr>) a ?r \<and> Get a io' = ?fd" by auto
qed

text \<open>The two calls of the connection manager that start an operation.\<close>

definition started_ok :: "nat \<Rightarrow> (conn \<Rightarrow> nat) \<Rightarrow> 'k node \<Rightarrow> afd_ref \<Rightarrow> recv_resolve + send_resolve \<Rightarrow> user_call option \<Rightarrow> 'k node \<Rightarrow> bool" where
  "started_ok b pend w a g c w' \<longleftrightarrow> ninv b pend w' \<and> w' = w\<lparr>nd_io := nd_io w'\<rparr> \<and> Get a (nd_io w') = Get a (nd_io w) \<and>
     (case c of None \<Rightarrow> True
      | Some u \<Rightarrow> ninv (Suc b) pend w' \<and> ready opn w' a (goal_role g)
          \<and> u = (case g of Inl r \<Rightarrow> RecvResolved r (Err IoFailed) | Inr s \<Rightarrow> SendResolved s (Err IoFailed)))"

lemma started_recv:
  assumes inv: "ninv (Suc b) pend w" and rdy: "ready opn w a (goal_role (Inl r))"
    and start: "start_io (RecvMessage K a r) w = Inr (c, w')"
  shows "started_ok b pend w a (Inl r) c w'"
proof -
  from rdy start obtain io' where s: "start_stage K a RecvFunctor (replicate 4 0) 4 (RecvLen r) (nd_io w) = Inr (c, io')"
    and w': "w' = w\<lparr>nd_io := io'\<rparr>"
    by (auto simp: start_io_def chain_eq_Inr RecvMessage_def ready_def idle_object_def)
  have "ready opn w a (goal_role (stage_goal (RecvLen r)))" using rdy by simp
  note S = ninv_start [OF inv this _ s]
  show ?thesis
    using S Get_start_stage [OF s] by (cases c) (simp_all add: started_ok_def w')
qed

lemma started_send:
  assumes inv: "ninv (Suc b) pend w" and rdy: "ready opn w a (goal_role (Inr s))"
    and start: "start_io (SendMessage K a m s urgent) w = Inr (c, w')"
  shows "started_ok b pend w a (Inr s) c w'"
proof -
  from rdy start obtain io' where st: "start_stage K a (SendFunctor urgent) (le32 (of_nat (length m))) 4 (SendLen urgent m s) (nd_io w) = Inr (c, io')"
    and w': "w' = w\<lparr>nd_io := io'\<rparr>"
    by (auto simp: start_io_def chain_eq_Inr SendMessage_def ready_def idle_object_def Let_def split: if_splits)
  have "ready opn w a (goal_role (stage_goal (SendLen urgent m s)))" using rdy by simp
  note S = ninv_start [OF inv this _ st]
  show ?thesis
    using S Get_start_stage [OF st] by (cases c) (simp_all add: started_ok_def w')
qed

section \<open>Releasing and closing\<close>

lemma release_node:
  assumes inv: "ninv b pend w"
  shows "ninv b pend (w\<lparr>nd_io := snd (Release K a (nd_io w))\<rparr>)"
    and "slot opn w fd r \<Longrightarrow> slot opn (w\<lparr>nd_io := snd (Release K a (nd_io w))\<rparr>) fd r"
proof -
  note I = node_invD [OF inv]
  note R = io_inv_Release [OF I(1), of K a] and o = opn_Release [of a "nd_io w"]
  show "ninv b pend (w\<lparr>nd_io := snd (Release K a (nd_io w))\<rparr>)"
    by (rule node_inv_shrink [OF inv R(2) _ R(1) watched_Release [OF I(2)]]) (simp add: o)
  show "slot opn w fd r \<Longrightarrow> slot opn (w\<lparr>nd_io := snd (Release K a (nd_io w))\<rparr>) fd r"
    by (erule slot_shrink [OF _ R(2)]) (simp add: o)
qed

text \<open>Closing a descriptor that no entry and no table refers to.\<close>

lemma watch_inv_close:
  assumes "watch_inv interest (l, k)" and "\<And>ev. find_keeper l fd ev = None"
  shows "watch_inv interest (l, k_close K fd k)"
proof (rule watch_inv_one_descr [OF assms(1) refl refl refl, of fd])
  show "find_keeper l f ev = find_keeper l f ev" for f ev by simp
  show "interest (k_close K fd k) (epollHandle l) f = interest k (epollHandle l) f" if "f \<noteq> fd" for f
    using that by (simp add: interest_close)
  have "mask_of l fd = 0" by (simp add: mask_of_cases assms(2))
  then show "watch_ok (interest (k_close K fd k) (epollHandle l) fd) l fd"
    by (simp add: interest_close watch_ok_def)
qed

lemma conns_inv_close:
  assumes inv: "conns_inv opn w" and "\<And>ev. entry (nd_io w) (fd, ev) = None" and "activeConns w fd = None"
  shows "conns_inv opn (close_fd K fd w)"
proof -
  let ?w = "close_fd K fd w"
  note D = conns_invD [OF inv]
  have e: "entry (nd_io ?w) = entry (nd_io w)" by (simp add: close_fd_def)
  have s: "system_fd ?w = system_fd w" by (simp add: system_fd_def e fun_eq_iff) (simp add: close_fd_def set_kern_def)
  have r: "role_ok ?w = role_ok w" by (simp add: role_ok_def e fun_eq_iff split: role.split)
  have "f \<noteq> fd" if "entry (nd_io w) (f, ev) = Some cb" for f ev cb using that assms(2) by auto
  moreover have "f \<noteq> fd" if "activeConns w f = Some c" for f c using that assms(3) by auto
  ultimately show ?thesis
    by (intro conns_invI) (use D conns_inv_dom [OF inv] in \<open>simp_all add: e s r\<close>)
qed

lemma ninv_close:
  assumes inv: "ninv b pend w" and "\<And>ev. entry (nd_io w) (fd, ev) = None" and "activeConns w fd = None"
    and "\<not> system_fd w fd"
  shows "ninv b pend (close_fd K fd w)"
proof -
  note I = node_invD [OF inv]
  have "find_keeper (io_loop (nd_io w)) fd ev = None" for ev using assms(2) [of ev] by (simp add: entry_def)
  then have "watched interest (nd_io (close_fd K fd w))"
    using I(2) watch_inv_close [of "io_loop (nd_io w)" "io_kern (nd_io w)" fd] by (simp add: watched_def)
  moreover have "io_inv b (nd_io (close_fd K fd w))" using I(1) by (simp add: close_fd_def)
  moreover have "peers_inv (close_fd K fd w)" using I(3) by (simp add: close_fd_def)
  moreover have "timers_open opn (close_fd K fd w)"
    using I(4) assms(4) by (auto simp: timers_open_def system_fd_def close_fd_def)
  moreover have "balanced pend (close_fd K fd w)" using I(6) by (simp add: balanced_def)
  ultimately show ?thesis using conns_inv_close [OF I(5) assms(2,3)] by (simp add: node_inv_def)
qed

lemma ninv_abandon:
  assumes inv: "ninv b pend w" and rdy: "ready opn w a Handshake"
  shows "ninv b pend (abandon K a w)"
proof -
  let ?fd = "Get a (nd_io w)" and ?w = "w\<lparr>nd_io := snd (Release K a (nd_io w))\<rparr>"
  from release_node [OF inv] rdy have "ninv b pend ?w" "slot opn ?w ?fd Handshake" by (auto simp: ready_def)
  then have "ninv b pend (close_fd K ?fd ?w)" by (intro ninv_close) (auto simp: slot_def)
  then show ?thesis by (simp add: abandon_def on_io_Release)
qed

section \<open>Ending a session\<close>

lemma card_erase:
  assumes "finite (dom m)" and "m k = Some v"
  shows "card {x. m x = Some u} = card {x. map_erase k m x = Some u} + (if u = v then 1 else 0)"
proof -
  have fin: "finite {x. m x = Some u}" by (rule finite_subset [OF _ assms(1)]) auto
  have "{x. map_erase k m x = Some u} = {x. m x = Some u} - {k}" by (auto simp: map_erase_Some)
  moreover have "card {x. m x = Some u} = Suc (card ({x. m x = Some u} - {k}))" if "u = v"
    using card.remove [OF fin, of k] assms(2) that by simp
  moreover have "{x. m x = Some u} - {k} = {x. m x = Some u}" if "u \<noteq> v" using assms(2) that by auto
  ultimately show ?thesis by (cases "u = v") simp_all
qed

lemma ninv_CloseFD:
  assumes inv: "ninv b pend w" and act: "activeConns w fd = Some c"
  shows "ninv b pend (CloseFD K fd w)"
proof -
  note I = node_invD [OF inv] and D = conns_invD [OF node_invD(5) [OF inv]]
  obtain r l k where d: "DeregisterFd K fd (io_loop (nd_io w)) (io_kern (nd_io w)) = (r, l, k)"
    by (metis prod_cases3)
  note d' = io_inv_drop_fd [OF I(1) d]
  let ?io = "set_loop l k (nd_io w)"
  have opn: "opn k = opn (io_kern (nd_io w))" by (rule quiet_DeregisterFd [OF quiet_opn d])
  have "watched interest ?io"
    using watch_inv_deregister_fd [OF laws _ d] I(2) by (simp add: watched_def)
  from node_inv_shrink [OF inv d'(2) _ d'(1) this] opn have n1: "ninv b pend (w\<lparr>nd_io := ?io\<rparr>)" (is "ninv _ _ ?w1") by simp
  let ?w2 = "?w1\<lparr>activeConns := map_erase fd (activeConns w), connToFd := map_erase c (connToFd w),
      sendQueues := map_erase fd (sendQueues w)\<rparr>"
  let ?w3 = "notify (SessionLost GetTransportId (fst c) (snd c)) ?w2"
  note I1 = node_invD [OF n1]
  note D1 = conns_invD [OF I1(5)]
  have none: "entry (nd_io ?w1) (fd, ev) = None" for ev using d'(3) by simp
  have sys: "system_fd ?w3 = system_fd ?w1" by (simp add: system_fd_def fun_eq_iff) (simp add: notify_def)
  have "conns_inv opn ?w3"
  proof (rule conns_invI)
    fix x f assume "connToFd ?w3 x = Some f"
    then have x: "x \<noteq> c" "connToFd w x = Some f" by (auto simp: map_erase_Some)
    with D(1) [OF x(2)] act have "activeConns w f = Some x" "f \<noteq> fd" by auto
    then show "activeConns ?w3 f = Some x" by (simp add: map_erase_Some)
  next
    fix f ev p assume "entry (nd_io ?w3) (f, ev) = Some (ProcCb p)"
    then have e: "entry (nd_io ?w1) (f, ev) = Some (ProcCb p)" by simp
    with none have "f \<noteq> fd" by auto
    with D1(7,8) [OF e] show "\<not> system_fd ?w3 f \<and> role_ok ?w3 f ev (goal_role (stage_goal (pc_resolve p)))"
      by (auto simp: sys role_ok_def split: role.splits)
  qed (use D(3) D1(4,5,6) conns_inv_dom [OF I(5)] in \<open>auto simp: sys map_erase_Some\<close>)
  moreover have "balanced pend ?w3"
    unfolding balanced_def
  proof
    fix u
    from I(6) have "opened_count u (nd_trace w) + pend u = lost_count u (nd_trace w) + card {f. activeConns w f = Some u}"
      unfolding balanced_def by blast
    then show "opened_count u (nd_trace ?w3) + pend u = lost_count u (nd_trace ?w3) + card {f. activeConns ?w3 f = Some u}"
      using card_erase [OF D(3) act, of u] by (cases u; cases c) (auto simp: opened_count_def lost_count_def)
  qed
  ultimately have n3: "ninv b pend ?w3"
    using I1 by (simp add: node_inv_def timers_open_def peers_inv_def timer_def) (simp add: notify_def)
  have "ninv b pend (close_fd K fd ?w3)"
  proof (rule ninv_close [OF n3])
    show "\<not> system_fd ?w3 fd" using D1(5) act by (simp add: sys)
  qed (use none in \<open>simp_all\<close>)
  moreover have "CloseFD K fd w = close_fd K fd ?w3"
    using act by (simp add: CloseFD_def on_loop_def d OnLinkClosed_def) (simp add: notify_def close_fd_def set_kern_def set_loop_def)
  ultimately show ?thesis by simp
qed

lemma ninv_CloseConn: "ninv b pend w \<Longrightarrow> ninv b pend (CloseConn K peer dir w)"
proof -
  have one: "ninv b pend (close_dir K peer d e w)" if "ninv b pend w" for d e w
    using that ninv_CloseFD [OF that] conns_invD(1) [OF node_invD(5) [OF that]]
    by (auto simp: close_dir_def split: option.split)
  show "ninv b pend w \<Longrightarrow> ?thesis" by (simp add: CloseConn_def one)
qed

section \<open>Reading\<close>

lemma create_ready:
  assumes inv: "ninv b pend w" and slot: "slot opn w fd r"
  shows "ninv b pend (w\<lparr>nd_io := snd (Create fd (nd_io w))\<rparr>)"
    and "ready opn (w\<lparr>nd_io := snd (Create fd (nd_io w))\<rparr>) (io_next (nd_io w)) r"
proof -
  note I = node_invD [OF inv]
  note C = io_inv_Create [OF I(1), of fd]
  have "watched interest (snd (Create fd (nd_io w)))" using I(2) by (simp add: Create_def)
  from node_inv_shrink [OF inv _ _ C(1) this] show "ninv b pend (w\<lparr>nd_io := snd (Create fd (nd_io w))\<rparr>)"
    by (simp add: C(2))
  have "slot opn (w\<lparr>nd_io := snd (Create fd (nd_io w))\<rparr>) fd r" by (rule slot_shrink [OF slot]) (simp_all add: C(2))
  then show "ready opn (w\<lparr>nd_io := snd (Create fd (nd_io w))\<rparr>) (io_next (nd_io w)) r"
    by (simp add: ready_def idle_object_def)
qed

lemma slot_reading:
  assumes "ninv b pend w" and "activeConns w fd = Some c"
  shows "slot opn w fd Reading"
  using conns_invD(4,5) [OF node_invD(5) [OF assms(1)] assms(2)] assms(2) by (simp add: slot_def)

lemma ninv_read_err:
  assumes "ninv b pend w"
  shows "ninv b pend (read_err_cb K a w)"
proof (cases "activeConns w (Get a (nd_io w))")
  case (Some c)
  with ninv_CloseFD [OF release_node(1) [OF assms, of a]] show ?thesis
    by (simp add: read_err_cb_def on_io_Release)
qed (use assms in \<open>simp add: read_err_cb_def\<close>)

lemma ninv_ReadMessage:
  assumes inv: "ninv (Suc b) pend w" and act: "activeConns w fd = Some c" and run: "ReadMessage K fd w = Inr w'"
  shows "ninv b pend w'"
proof -
  let ?w = "w\<lparr>nd_io := snd (Create fd (nd_io w))\<rparr>"
  note C = create_ready [OF inv slot_reading [OF inv act]]
  from run obtain u w2 where start: "start_io (RecvMessage K (io_next (nd_io w)) ReadNext) ?w = Inr (u, w2)"
    and w': "w' = (case u of None \<Rightarrow> w2 | Some _ \<Rightarrow> read_err_cb K (io_next (nd_io w)) w2)"
    by (auto simp: ReadMessage_def on_io_Create chain_eq_Inr)
  have "ready opn ?w (io_next (nd_io w)) (goal_role (Inl ReadNext))" using C(2) by simp
  from started_recv [OF C(1) this start] have "ninv b pend w2" by (simp add: started_ok_def)
  with ninv_read_err [OF this] show ?thesis by (simp add: w' split: option.split)
qed

lemma notify_frame [simp]:
  "fdToPeer (notify n w) = fdToPeer w" "system_fd (notify n w) = system_fd w" "role_ok (notify n w) = role_ok w"
  "slot opn (notify n w) = slot opn w" "ready opn (notify n w) = ready opn w"
  "conns_inv opn (notify n w) = conns_inv opn w" "timers_open opn (notify n w) = timers_open opn w"
proof -
  show f: "fdToPeer (notify n w) = fdToPeer w" by (simp add: notify_def)
  show s: "system_fd (notify n w) = system_fd w" "role_ok (notify n w) = role_ok w"
    by (simp_all add: system_fd_def role_ok_def fun_eq_iff f split: role.split)
  show "slot opn (notify n w) = slot opn w" by (simp add: slot_def s fun_eq_iff split: role.split)
  then show "ready opn (notify n w) = ready opn w" by (simp add: ready_def fun_eq_iff)
  show "conns_inv opn (notify n w) = conns_inv opn w" by (simp add: conns_inv_def s)
  show "timers_open opn (notify n w) = timers_open opn w" by (simp add: timers_open_def f)
qed

lemma ninv_notify:
  assumes "ninv b pend w" and "\<And>t p d. n \<noteq> SessionOpened t p d" and "\<And>t p d. n \<noteq> SessionLost t p d"
  shows "ninv b pend (notify n w)"
proof -
  note I = node_invD [OF assms(1)]
  have "balanced pend (notify n w)"
    using I(6) assms(2,3) by (simp add: balanced_def opened_count_def lost_count_def)
  with I show ?thesis by (simp add: node_inv_def)
qed

lemma ninv_read_cb:
  assumes inv: "ninv (Suc b) pend w" and run: "read_cb K a res w = Inr w'"
  shows "ninv b pend w'"
proof (cases "activeConns w (Get a (nd_io w))")
  case None
  with inv run show ?thesis by (auto simp: read_cb_def intro: node_inv_mono)
next
  case (Some c)
  obtain peer dir where c: "c = (peer, dir)" by (cases c)
  show ?thesis
  proof (cases res)
    case (Err e)
    with Some c run have "w' = read_err_cb K a w" by (simp add: read_cb_def)
    with ninv_read_err [OF node_inv_mono [OF inv, of b]] show ?thesis by simp
  next
    case (Ok m)
    let ?w = "notify (MessageReceived GetTransportId peer m) w"
    have n: "ninv (Suc b) pend ?w" by (rule ninv_notify [OF inv]) simp_all
    have "ReadMessage K (Get a (nd_io w)) (?w\<lparr>nd_io := snd (Release K a (nd_io ?w))\<rparr>) = Inr w'"
      using Some run Ok c by (simp add: read_cb_def OnMessageReceived_def on_io_Release)
    from ninv_ReadMessage [OF release_node(1) [OF n, of a] _ this] Some show ?thesis by simp
  qed
qed

section \<open>Sending\<close>

lemma ninv_queue:
  assumes inv: "ninv b pend w" and q: "sendQueues w fd = Some q0"
    and ok: "q \<noteq> [] \<or> entry (nd_io w) (fd, EPOLLOUT) = None"
  shows "ninv b pend (w\<lparr>sendQueues := (sendQueues w)(fd \<mapsto> q)\<rparr>)" (is "ninv b pend ?w")
proof -
  note I = node_invD [OF inv]
  note D = conns_invD [OF I(5)]
  have sys: "system_fd ?w = system_fd w" by (simp add: system_fd_def fun_eq_iff)
  have "role_ok ?w f ev (goal_role (stage_goal (pc_resolve p)))"
    if "entry (nd_io w) (f, ev) = Some (ProcCb p)" for f ev p
  proof -
    have "ev = EPOLLOUT" if "goal_role (stage_goal (pc_resolve p)) = Sending"
    proof -
      from that have "goal_dir (stage_goal (pc_resolve p)) = OUTPUT"
        by (cases "stage_goal (pc_resolve p)" rule: goal_role.cases) (auto simp: goal_dir_def)
      with io_invD(5) [OF I(1) \<open>entry (nd_io w) (f, ev) = Some (ProcCb p)\<close>] show ?thesis
        by (simp add: proc_ok_def goal_dir_stage)
    qed
    with D(8) [OF that] that ok show ?thesis by (auto simp: role_ok_def split: role.splits)
  qed
  then have "conns_inv opn ?w"
    by (intro conns_invI) (use D conns_inv_dom [OF I(5)] q in \<open>auto simp: sys\<close>)
  with I show ?thesis by (simp add: node_inv_def timers_open_def peers_inv_def timer_def balanced_def)
qed

text \<open>An active descriptor with nothing queued has no output operation.\<close>

lemma quiet_output:
  assumes inv: "ninv b pend w" and act: "activeConns w fd = Some c" and q: "sendQueues w fd = Some []"
  shows "entry (nd_io w) (fd, EPOLLOUT) = None"
proof (rule ccontr)
  assume "entry (nd_io w) (fd, EPOLLOUT) \<noteq> None"
  then obtain cb where cb: "entry (nd_io w) (fd, EPOLLOUT) = Some cb" by blast
  note I = node_invD [OF inv]
  note D = conns_invD [OF I(5)]
  from D(5) [OF act] cb have "\<exists>p. cb = ProcCb p" unfolding system_fd_def by blast
  then obtain p where p: "cb = ProcCb p" ..
  with cb have e: "entry (nd_io w) (fd, EPOLLOUT) = Some (ProcCb p)" by simp
  from io_invD(5) [OF I(1) e] have "goal_dir (stage_goal (pc_resolve p)) = OUTPUT"
    by (cases "stage_dir (pc_resolve p)") (auto simp: proc_ok_def goal_dir_stage)
  with D(8) [OF e] act q reading_dir [of "stage_goal (pc_resolve p)"] show False
    by (auto simp: role_ok_def split: role.splits)
qed

lemma sent_cb_step:
  assumes IH: "\<And>w fd w'. queue_len fd w < queue_len (Get a (nd_io v)) v \<Longrightarrow> ninv (Suc b) pend w \<Longrightarrow>
      slot opn w fd Sending \<Longrightarrow> SendMessageFd K fd w = Inr w' \<Longrightarrow> ninv b pend w'"
    and inv: "ninv (Suc b) pend v" and rdy: "ready opn v a Sending" and run: "sent_cb K a v = Inr v'"
  shows "ninv b pend v'"
proof -
  let ?fd = "Get a (nd_io v)"
  from rdy have slot: "slot opn v ?fd Sending" by (simp add: ready_def)
  then obtain c where act: "activeConns v ?fd = Some c" by (auto simp: slot_def)
  note D = conns_invD [OF node_invD(5) [OF inv]]
  from D(2) [of ?fd] act slot obtain m q where q: "sendQueues v ?fd = Some (m # q)"
    by (cases "sendQueues v ?fd") (auto simp: slot_def neq_Nil_conv)
  let ?v1 = "v\<lparr>sendQueues := (sendQueues v)(?fd \<mapsto> q)\<rparr>"
  have n1: "ninv (Suc b) pend ?v1" by (rule ninv_queue [OF inv q]) (use slot in \<open>simp add: slot_def\<close>)
  let ?v2 = "?v1\<lparr>nd_io := snd (Release K a (nd_io ?v1))\<rparr>"
  have n2: "ninv (Suc b) pend ?v2" by (rule release_node(1) [OF n1])
  from run act q have v': "(if q \<noteq> [] then SendMessageFd K ?fd ?v2 else Inr ?v2) = Inr v'"
    by (auto simp: sent_cb.simps [of K a v] sent_pop_def Let_def on_io_Release split: if_splits)
  show ?thesis
  proof (cases "q = []")
    case True
    with v' n2 node_inv_mono [OF n2, of b] show ?thesis by simp
  next
    case False
    with slot have "slot opn ?v1 ?fd Sending" by (simp add: slot_def system_fd_def)
    then have s2: "slot opn ?v2 ?fd Sending" by (rule release_node(2) [OF n1])
    have "queue_len ?fd ?v2 < queue_len ?fd v" using q by (simp add: queue_len_def)
    from IH [OF this n2 s2] v' False show ?thesis by simp
  qed
qed

lemma ninv_SendMessageFd:
  "ninv (Suc b) pend w \<Longrightarrow> slot opn w fd Sending \<Longrightarrow> SendMessageFd K fd w = Inr w' \<Longrightarrow> ninv b pend w'"
proof (induction "queue_len fd w" arbitrary: fd w w' rule: less_induct)
  case less
  let ?a = "io_next (nd_io w)" and ?w = "w\<lparr>nd_io := snd (Create fd (nd_io w))\<rparr>"
  note C = create_ready [OF less.prems(1,2)]
  show ?case
  proof (cases "take_front fd ?w")
    case None
    with less.prems C(1) show ?thesis
      by (auto simp: SendMessageFd.simps [of K fd w] on_io_Create intro: node_inv_mono)
  next
    case (Some x)
    then obtain m w1 where t: "take_front fd ?w = Some (m, w1)" by (cases x) auto
    then obtain q where q: "sendQueues w fd = Some (m # q)" and w1: "w1 = ?w\<lparr>sendQueues := (sendQueues ?w)(fd \<mapsto> [] # q)\<rparr>"
      by (auto simp: take_front_def split: option.splits list.splits)
    have n1: "ninv (Suc b) pend w1" unfolding w1 by (rule ninv_queue [OF C(1)]) (simp_all add: q)
    have r1: "ready opn w1 ?a (goal_role (Inr SendNext))"
      using C(2) by (simp add: ready_def w1 slot_def system_fd_def)
    from less.prems(3) t obtain u w2 where start: "start_io (SendMessage K ?a m SendNext True) w1 = Inr (u, w2)"
      and w': "(case u of None \<Rightarrow> Inr w2 | Some _ \<Rightarrow> sent_cb K ?a w2) = Inr w'"
      by (auto simp: SendMessageFd.simps [of K fd w] on_io_Create chain_eq_Inr)
    note S = started_send [OF n1 r1 start, unfolded started_ok_def]
    show ?thesis
    proof (cases u)
      case None
      with w' S show ?thesis by simp
    next
      case (Some x)
      from S Some have n2: "ninv (Suc b) pend w2" "ready opn w2 ?a Sending" and w2: "w2 = w1\<lparr>nd_io := nd_io w2\<rparr>"
        and G: "Get ?a (nd_io w2) = Get ?a (nd_io w1)" by simp_all
      have "Get ?a (nd_io w2) = fd" using G by (simp add: w1)
      moreover have "queue_len fd w2 = queue_len fd w" by (subst w2) (simp add: w1 queue_len_def q)
      ultimately show ?thesis
        using sent_cb_step [OF less.hyps n2] w' Some by simp
    qed
  qed
qed

lemmas ninv_sent_cb = sent_cb_step [OF ninv_SendMessageFd]

lemma ninv_conn_SendMessage:
  assumes inv: "ninv (Suc b) pend w" and run: "conn_SendMessage K peer m w = Inr w'"
  shows "ninv b pend w'"
proof (cases "conn_for peer w = -1 \<or> sendQueues w (conn_for peer w) = None")
  case True
  with run inv show ?thesis by (auto simp: conn_SendMessage_def Let_def intro: node_inv_mono split: if_splits)
next
  case False
  let ?fd = "conn_for peer w"
  from False obtain q where q: "sendQueues w ?fd = Some q" and fd: "?fd \<noteq> -1" by blast
  note D = conns_invD [OF node_invD(5) [OF inv]]
  from D(2) [of ?fd] q obtain c where act: "activeConns w ?fd = Some c" by auto
  let ?w = "w\<lparr>sendQueues := (sendQueues w)(?fd \<mapsto> q @ [m])\<rparr>"
  have n: "ninv (Suc b) pend ?w" by (rule ninv_queue [OF inv q]) simp
  from run q fd have w': "(if q \<noteq> [] then Inr ?w else SendMessageFd K ?fd ?w) = Inr w'"
    by (auto simp: conn_SendMessage_def Let_def split: if_splits)
  show ?thesis
  proof (cases "q = []")
    case True
    with quiet_output [OF inv act] q have "entry (nd_io w) (?fd, EPOLLOUT) = None" by simp
    with slot_reading [OF inv act] act have "slot opn ?w ?fd Sending" by (simp add: slot_def system_fd_def)
    from ninv_SendMessageFd [OF n this] w' True show ?thesis by simp
  next
    case False
    with w' n node_inv_mono [OF n, of b] show ?thesis by simp
  qed
qed

section \<open>The hello exchange\<close>

lemma balancedD:
  "balanced pend w \<Longrightarrow> opened_count c (nd_trace w) + pend c = lost_count c (nd_trace w) + card {fd. activeConns w fd = Some c}"
  unfolding balanced_def by blast

lemma ninv_opened:
  assumes inv: "ninv b (pend((peer, dir) := Suc (pend (peer, dir)))) w"
  shows "ninv b pend (OnLinkEstablishing peer dir w)"
proof -
  note I = node_invD [OF inv]
  have "balanced pend (OnLinkEstablishing peer dir w)"
    unfolding balanced_def
  proof
    fix c
    show "opened_count c (nd_trace (OnLinkEstablishing peer dir w)) + pend c
        = lost_count c (nd_trace (OnLinkEstablishing peer dir w)) + card {fd. activeConns (OnLinkEstablishing peer dir w) fd = Some c}"
      using balancedD [OF I(6), of c] by (cases c) (auto simp: OnLinkEstablishing_def opened_count_def lost_count_def split: if_splits)
  qed
  with I show ?thesis by (simp add: node_inv_def OnLinkEstablishing_def)
qed

lemma ninv_activate:
  assumes inv: "ninv b pend w" and slot: "slot opn w fd Handshake"
  shows "ninv b (pend((peer, dir) := Suc (pend (peer, dir)))) (activate fd peer dir w)" (is "ninv b ?pend ?w")
    and "activeConns (activate fd peer dir w) fd = Some (peer, dir)"
proof -
  note I = node_invD [OF inv]
  note D = conns_invD [OF I(5)]
  from slot have none: "activeConns w fd = None" and free: "entry (nd_io w) (fd, ev) = None" for ev by (auto simp: slot_def)
  have act: "activeConns ?w = (activeConns w)(fd \<mapsto> (peer, dir))" using none by (simp add: activate_def)
  show "activeConns ?w fd = Some (peer, dir)" by (simp add: act)
  have sq: "sendQueues ?w = (sendQueues w)(fd \<mapsto> [])" using none D(2) by (simp add: activate_def)
  have io: "nd_io ?w = nd_io w" "nd_trace ?w = nd_trace w" "fdToPeer ?w = fdToPeer w" by (simp_all add: activate_def)
  have sys: "system_fd ?w = system_fd w" by (simp add: system_fd_def fun_eq_iff io)
  have "conns_inv opn ?w"
  proof (rule conns_invI)
    fix c f assume c: "connToFd ?w c = Some f"
    show "activeConns ?w f = Some c"
    proof (cases "connToFd w c = Some f")
      case True
      with D(1) [OF True] none act show ?thesis by (cases c) auto
    next
      case False
      with c have "c = (peer, dir)" "f = fd"
        by (auto simp: activate_def map_emplace_def split: option.splits if_splits)
      with act show ?thesis by simp
    qed
  next
    fix f ev p assume "entry (nd_io ?w) (f, ev) = Some (ProcCb p)"
    then have e: "entry (nd_io w) (f, ev) = Some (ProcCb p)" by (simp add: io)
    with free have "f \<noteq> fd" by auto
    with D(7,8) [OF e] show "\<not> system_fd ?w f \<and> role_ok ?w f ev (goal_role (stage_goal (pc_resolve p)))"
      by (auto simp: sys role_ok_def io act sq split: role.splits)
  next
    fix f c assume "activeConns ?w f = Some c"
    with D(4,5) slot show "f \<in> opn (io_kern (nd_io ?w)) \<and> \<not> system_fd ?w f"
      by (cases c) (auto simp: act sys io slot_def split: if_splits)
  qed (use D(3,6) conns_inv_dom [OF I(5)] in \<open>auto simp: act sq io\<close>)
  moreover have "balanced ?pend ?w"
    unfolding balanced_def
  proof
    fix c
    have "card {f. activeConns ?w f = Some c} = card {f. activeConns w f = Some c} + (if c = (peer, dir) then 1 else 0)"
      using card_erase [of "activeConns ?w" fd "(peer, dir)" c] D(3) none by (simp add: act map_erase_def fun_upd_idem)
    with balancedD [OF I(6), of c]
    show "opened_count c (nd_trace ?w) + ?pend c = lost_count c (nd_trace ?w) + card {f. activeConns ?w f = Some c}"
      by (cases "c = (peer, dir)") (simp_all add: io)
  qed
  ultimately show "ninv b ?pend ?w"
    using I by (simp add: node_inv_def io timers_open_def) (simp add: activate_def peers_inv_def timer_def)
qed

lemma ninv_answer_sent:
  assumes inv: "ninv (Suc b) pend w" and rdy: "ready opn w a Handshake" and run: "answer_sent_cb K peer a res w = Inr w'"
  shows "ninv b pend w'"
proof (cases res)
  case (Err e)
  with run ninv_abandon [OF inv rdy] show ?thesis by (auto simp: answer_sent_cb_def intro: node_inv_mono)
next
  case (Ok u)
  let ?fd = "Get a (nd_io w)" and ?w1 = "activate (Get a (nd_io w)) peer INCOMING w"
  from rdy have "slot opn w ?fd Handshake" by (simp add: ready_def)
  note A = ninv_activate [OF inv this, of peer INCOMING]
  have io: "nd_io ?w1 = nd_io w" by (simp add: activate_def)
  let ?w2 = "OnLinkEstablishing peer INCOMING ?w1"
  have n2: "ninv (Suc b) pend ?w2" by (rule ninv_opened [OF A(1)])
  let ?w3 = "?w2\<lparr>nd_io := snd (Release K a (nd_io ?w2))\<rparr>"
  have n3: "ninv (Suc b) pend ?w3" by (rule release_node(1) [OF n2])
  have "activeConns ?w3 ?fd = Some (peer, INCOMING)" using A(2) by (simp add: OnLinkEstablishing_def)
  moreover have "ReadMessage K ?fd ?w3 = Inr w'"
    using run Ok io by (simp add: answer_sent_cb_def Let_def on_io_Release OnLinkEstablishing_def)
  ultimately show ?thesis by (intro ninv_ReadMessage [OF n3])
qed

lemma ninv_outgoing_answer:
  assumes inv: "ninv (Suc b) pend w" and rdy: "ready opn w a Handshake" and run: "outgoing_answer_cb K peer a res w = Inr w'"
  shows "ninv b pend w'"
proof (cases "w' = abandon K a w")
  case True
  with ninv_abandon [OF inv rdy] show ?thesis by (auto intro: node_inv_mono)
next
  case False
  let ?fd = "Get a (nd_io w)" and ?w1 = "activate (Get a (nd_io w)) peer OUTGOING w"
  let ?w2 = "?w1\<lparr>nd_io := snd (Release K a (nd_io ?w1))\<rparr>"
  have io: "nd_io ?w1 = nd_io w" by (simp add: activate_def)
  from False run obtain w3 where read: "ReadMessage K ?fd ?w2 = Inr w3" and w': "w' = OnLinkEstablishing peer OUTGOING w3"
    by (auto simp: outgoing_answer_cb_def Let_def on_io_Release chain_eq_Inr io
        split: io_result.split_asm option.split_asm if_split_asm)
  from rdy have "slot opn w ?fd Handshake" by (simp add: ready_def)
  note A = ninv_activate [OF inv this, of peer OUTGOING]
  have "activeConns ?w2 ?fd = Some (peer, OUTGOING)" using A(2) by simp
  from ninv_ReadMessage [OF release_node(1) [OF A(1)] this read] show ?thesis
    unfolding w' by (rule ninv_opened)
qed

section \<open>Descriptors of the system\<close>

text \<open>
  A new descriptor may get a callback of the broadcast manager: nothing of the connections
  changes, and what was free stays free.
\<close>

lemma grow:
  assumes inv: "conns_inv opn w" and new: "fd \<notin> opn (io_kern (nd_io w))"
    and conns: "conn_part w' = conn_part w"
    and same: "\<And>f ev. f \<noteq> fd \<Longrightarrow> entry (nd_io w') (f, ev) = entry (nd_io w) (f, ev)"
    and here: "\<And>ev cb. entry (nd_io w') (fd, ev) = Some cb \<Longrightarrow> fd \<in> opn (io_kern (nd_io w')) \<and> (\<forall>p. cb \<noteq> ProcCb p)"
    and timers: "dom (fdToPeer w') \<subseteq> insert fd (dom (fdToPeer w))"
    and opn: "opn (io_kern (nd_io w)) \<subseteq> opn (io_kern (nd_io w'))"
  shows "conns_inv opn w'" and "slot opn w f r \<Longrightarrow> slot opn w' f r"
proof -
  note D = conns_invD [OF inv]
  have c: "activeConns w' = activeConns w" "connToFd w' = connToFd w" "sendQueues w' = sendQueues w"
    using conns by (simp_all add: conn_part_def)
  have proc: "entry (nd_io w) (g, ev) = Some (ProcCb p)" if "entry (nd_io w') (g, ev) = Some (ProcCb p)" for g ev p
    using that same [of g ev] here [of ev] by (cases "g = fd") auto
  have none: "entry (nd_io w') (g, ev) = None" if "g \<in> opn (io_kern (nd_io w))" "entry (nd_io w) (g, ev) = None" for g ev
    using that same [of g ev] new by (cases "g = fd") auto
  have sys: "system_fd w g" if g: "g \<in> opn (io_kern (nd_io w))" "system_fd w' g" for g
  proof -
    from g(1) new have "g \<noteq> fd" by auto
    with g(2) same timers show ?thesis by (auto simp: system_fd_def)
  qed
  have opened: "g \<in> opn (io_kern (nd_io w'))" if "entry (nd_io w') (g, ev) = Some cb" for g ev cb
    using that same [of g ev] here [of ev] D(6) [of g ev] opn by (cases "g = fd") auto
  note ch = conns_inv_change [OF inv c proc none sys opened opn]
  show "conns_inv opn w'" by (rule ch(1))
  show "slot opn w f r \<Longrightarrow> slot opn w' f r" by (rule ch(2))
qed

lemma same_table:
  assumes inv: "conns_inv opn w" and c: "conn_part w' = conn_part w" and f: "fdToPeer w' = fdToPeer w"
    and e: "entry (nd_io w') = entry (nd_io w)" and opn: "opn (io_kern (nd_io w)) \<subseteq> opn (io_kern (nd_io w'))"
  shows "conns_inv opn w'" and "slot opn w fd r \<Longrightarrow> slot opn w' fd r"
proof -
  have c: "activeConns w' = activeConns w" "connToFd w' = connToFd w" "sendQueues w' = sendQueues w"
    using c by (simp_all add: conn_part_def)
  have sys: "system_fd w' g \<Longrightarrow> system_fd w g" for g by (simp add: system_fd_def e f)
  have opened: "g \<in> opn (io_kern (nd_io w'))" if "entry (nd_io w') (g, ev) = Some cb" for g ev cb
    using that conns_invD(6) [OF inv, of g ev cb] opn by (auto simp: e)
  note ch = conns_inv_change [OF inv c _ _ sys opened opn]
  show "conns_inv opn w'" by (rule ch(1)) (simp_all add: e)
  show "slot opn w fd r \<Longrightarrow> slot opn w' fd r" by (rule ch(2)) (simp_all add: e)
qed

text \<open>What tracking a peer does to the loop: nothing, or a callback on a new descriptor.\<close>

lemma register_fresh:
  assumes inv: "io_inv (Suc b) (nd_io w)" "watched interest (nd_io w)" and cb: "\<And>p. cb \<noteq> ProcCb p"
    and reg: "register_input K fd cb w = Inr ((ok, t), w')"
  shows "w' = w\<lparr>nd_io := nd_io w'\<rparr>" and "io_inv b (nd_io w')" and "watched interest (nd_io w')"
    and "opn (io_kern (nd_io w')) = opn (io_kern (nd_io w))"
    and "io_afds (nd_io w') = io_afds (nd_io w)" and "io_next (nd_io w') = io_next (nd_io w)"
    and "entry (nd_io w') = (if ok then (entry (nd_io w))((fd, EPOLLIN) \<mapsto> cb) else entry (nd_io w))"
proof -
  obtain l k where r: "RegisterAction K fd INPUT cb 0 None (io_loop (nd_io w)) (io_kern (nd_io w)) = Inr ((ok, t), l, k)"
    and w': "w' = w\<lparr>nd_io := set_loop l k (nd_io w)\<rparr>"
    using reg by (rule register_input_result)
  show "w' = w\<lparr>nd_io := nd_io w'\<rparr>" "io_afds (nd_io w') = io_afds (nd_io w)" "io_next (nd_io w') = io_next (nd_io w)"
    by (simp_all add: w')
  show "opn (io_kern (nd_io w')) = opn (io_kern (nd_io w))" using quiet_RegisterAction [OF quiet_opn r] by (simp add: w')
  show "watched interest (nd_io w')"
    using watch_inv_register [OF laws _ r] inv(2) by (simp add: w' watched_def)
  have "io_inv b (nd_io w') \<and> entry (nd_io w') = (if ok then (entry (nd_io w))((fd, EPOLLIN) \<mapsto> cb) else entry (nd_io w))"
  proof (cases ok)
    case True
    with r have r: "RegisterAction K fd INPUT cb 0 None (io_loop (nd_io w)) (io_kern (nd_io w)) = Inr ((True, t), l, k)" by simp
    from io_inv_register(4) [OF inv(1) r] io_inv_register_other [OF inv(1) cb r] True show ?thesis
      by (simp add: w')
  next
    case False
    with r have r: "RegisterAction K fd INPUT cb 0 None (io_loop (nd_io w)) (io_kern (nd_io w)) = Inr ((False, t), l, k)" by simp
    from RegisterAction_False(1) [OF r] have "nd_io w' = (nd_io w)\<lparr>io_kern := k\<rparr>"
      by (cases "nd_io w") (simp add: w' set_loop_def)
    with False io_inv_mono [OF inv(1), of b] show ?thesis by simp
  qed
  then show "io_inv b (nd_io w')"
    "entry (nd_io w') = (if ok then (entry (nd_io w))((fd, EPOLLIN) \<mapsto> cb) else entry (nd_io w))" by auto
qed

text \<open>
  What a change outside the connections keeps: the invariant of the connections, the
  balance of the notifications, and what is ready to start an operation.
\<close>

definition keeps :: "nat \<Rightarrow> 'k node \<Rightarrow> 'k node \<Rightarrow> bool" where
  "keeps b w w' \<longleftrightarrow> io_inv b (nd_io w') \<and> watched interest (nd_io w') \<and> conns_inv opn w'
     \<and> nd_trace w' = nd_trace w \<and> conn_part w' = conn_part w \<and> nd_self w' = nd_self w
     \<and> io_afds (nd_io w') = io_afds (nd_io w) \<and> io_next (nd_io w') = io_next (nd_io w)
     \<and> (\<forall>f r. slot opn w f r \<longrightarrow> slot opn w' f r)"

lemma keeps_same:
  assumes "io_inv b (nd_io w)" "watched interest (nd_io w)" "conns_inv opn w"
    and "conn_part w' = conn_part w" "fdToPeer w' = fdToPeer w" "nd_trace w' = nd_trace w" "nd_self w' = nd_self w"
    and "nd_io w' = (nd_io w)\<lparr>io_kern := k\<rparr>" "interest k = interest (io_kern (nd_io w))"
    and "opn (io_kern (nd_io w)) \<subseteq> opn k"
  shows "keeps b w w'"
proof -
  have e: "entry (nd_io w') = entry (nd_io w)" "opn (io_kern (nd_io w)) \<subseteq> opn (io_kern (nd_io w'))"
    using assms(8,10) by simp_all
  note st = same_table [OF assms(3,4,5) e]
  show ?thesis using assms st by (simp add: keeps_def watched_kern)
qed

lemma keeps_ready: "keeps b w w' \<Longrightarrow> ready opn w a r \<Longrightarrow> ready opn w' a r"
  by (auto simp: keeps_def ready_def idle_object_def Get_def)

lemma keeps_inv:
  assumes "node_inv interest opn b0 pend w" and "keeps b w w'" and "peers_inv w'" and "timers_open opn w'"
  shows "ninv b pend w'"
proof -
  have "activeConns w' = activeConns w" "nd_trace w' = nd_trace w" using assms(2) by (simp_all add: keeps_def conn_part_def)
  then have "balanced pend w'" using node_invD(6) [OF assms(1)] by (simp add: balanced_def)
  with assms(2-4) show ?thesis by (simp add: node_inv_def keeps_def)
qed

lemma track_peer_keeps:
  assumes inv: "ninv (Suc b) pend w" and run: "track_peer K sender msg w = Inr (r, w')"
  shows "keeps b w w'"
proof (cases "hm_id msg = nd_self w")
  case True
  note I = node_invD [OF node_inv_mono [OF inv le_SucI [OF order_refl]]]
  from True run have "w' = w" by (simp add: track_peer_def)
  with I show ?thesis by (simp add: keeps_def)
next
  case other: False
  note I1 = node_invD [OF inv] and I = node_invD [OF node_inv_mono [OF inv le_SucI [OF order_refl]]]
  let ?p = "hm_id msg" and ?k = "io_kern (nd_io w)"
  obtain tfd m where ix: "map_index 0 ?p (peerToFd w) = (tfd, m)" by force
  let ?w1 = "w\<lparr>peerToFd := m\<rparr>"
  have w1: "conn_part ?w1 = conn_part w" "fdToPeer ?w1 = fdToPeer w" "nd_trace ?w1 = nd_trace w" "nd_self ?w1 = nd_self w"
    "nd_io ?w1 = nd_io w" by (simp_all add: conn_part_def)
  show ?thesis
  proof (cases "tfd = 0")
    case False
    then have "w' = set_kern (snd (set_timer K tfd LOST_PEER_DELAY ?k)) ?w1"
      using run other by (auto simp: track_peer_def ix Let_def sys_def case_prod_beta)
    then show ?thesis
      using I w1 by (intro keeps_same [of b w w' "snd (set_timer K tfd LOST_PEER_DELAY ?k)"]) (simp_all add: set_timer_def)
  next
    case True
    obtain fd w2 where c: "sys (create_timer K LOST_PEER_DELAY) ?w1 = (fd, w2)" by force
    obtain k where w2: "w2 = set_kern k ?w1" and fresh: "if fd = -1 then opn k = opn ?k
         else fd \<notin> opn ?k \<and> opn k = insert fd (opn ?k)"
      by (rule create_timer_fresh [OF fds c, unfolded w1]) (rule that)
    have ik: "interest k = interest ?k"
    proof -
      have "io_kern (nd_io (snd (sys (create_timer K LOST_PEER_DELAY) ?w1))) = snd (create_timer K LOST_PEER_DELAY ?k)"
        by (simp add: sys_def case_prod_beta)
      with c w2 have "k = snd (create_timer K LOST_PEER_DELAY ?k)" by simp
      then show ?thesis by (simp add: create_timer_def set_timer_def case_prod_beta)
    qed
    have k2: "keeps (Suc b) w w2"
      using I1 w1 ik fresh by (intro keeps_same [of "Suc b" w w2 k]) (auto simp: w2 split: if_splits)
    show ?thesis
    proof (cases "fd = -1")
      case True
      with run other \<open>tfd = 0\<close> have "w' = w2" by (auto simp: track_peer_def ix Let_def c)
      with k2 show ?thesis using io_inv_mono [of "Suc b" "nd_io w2" b] by (simp add: keeps_def)
    next
      case False
      with fresh have new: "fd \<notin> opn ?k" and opk: "opn k = insert fd (opn ?k)" by simp_all
      obtain ok t w3 where reg: "register_input K fd (PeerLostCb fd) w2 = Inr ((ok, t), w3)"
        using register_input_no_fault by (metis surj_pair)
      from k2 have "io_inv (Suc b) (nd_io w2)" "watched interest (nd_io w2)" by (simp_all add: keeps_def)
      note R = register_fresh [OF this _ reg, simplified]
      have g: "keeps b w v" if v: "conn_part v = conn_part w3" "dom (fdToPeer v) \<subseteq> insert fd (dom (fdToPeer w3))"
        "nd_trace v = nd_trace w3" "nd_self v = nd_self w3" "nd_io v = (nd_io w3)\<lparr>io_kern := k'\<rparr>"
        "interest k' = interest (io_kern (nd_io w3))" "opn k' = opn (io_kern (nd_io w3))" for v k'
      proof -
        have e: "entry (nd_io v) = (if ok then (entry (nd_io w))((fd, EPOLLIN) \<mapsto> PeerLostCb fd) else entry (nd_io w))"
          using R(7) by (simp add: v(5) w2 w1)
        have none: "entry (nd_io w) (fd, ev) = None" for ev
          using conns_invD(6) [OF I(5), of fd ev] new by (cases "entry (nd_io w) (fd, ev)") auto
        have cp: "conn_part v = conn_part w" using v(1) by (subst (asm) R(1)) (simp add: w2 w1)
        have fp: "fdToPeer w3 = fdToPeer w" by (subst R(1)) (simp add: w2)
        have o: "opn (io_kern (nd_io v)) = insert fd (opn ?k)" using v(5,7) R(4) by (simp add: w2 opk)
        have same: "entry (nd_io v) (f, ev) = entry (nd_io w) (f, ev)" if "f \<noteq> fd" for f ev using that by (simp add: e)
        have here: "fd \<in> opn (io_kern (nd_io v)) \<and> (\<forall>p. cb \<noteq> ProcCb p)" if "entry (nd_io v) (fd, ev) = Some cb" for ev cb
          using that none by (auto simp: e o split: if_splits)
        have tm: "dom (fdToPeer v) \<subseteq> insert fd (dom (fdToPeer w))" using v(2) by (simp add: fp)
        have om: "opn ?k \<subseteq> opn (io_kern (nd_io v))" by (auto simp: o)
        have "conns_inv opn v" by (rule grow(1) [OF I(5) new cp]) (fact same here tm om)+
        moreover have "slot opn v f r" if "slot opn w f r" for f r
          by (rule grow(2) [OF I(5) new cp _ _ _ _ that]) (fact same here tm om)+
        moreover have "nd_trace w3 = nd_trace w" "nd_self w3 = nd_self w" by (subst R(1), simp add: w2)+
        ultimately show ?thesis using v cp R by (simp add: keeps_def watched_kern w2 w1)
      qed
      show ?thesis
      proof (cases ok)
        case False
        with run other \<open>tfd = 0\<close> \<open>fd \<noteq> -1\<close> have "w' = w3" by (auto simp: track_peer_def ix Let_def c reg)
        then show ?thesis by (intro g [of w' "io_kern (nd_io w3)"]) auto
      next
        case True
        obtain ifs k3 where ifs: "k_getifaddrs K (io_kern (nd_io w3)) = (ifs, k3)" by force
        have "interest k3 = interest (io_kern (nd_io w3))" "opn k3 = opn (io_kern (nd_io w3))"
          using interest_keep(9) [of "io_kern (nd_io w3)"] opn_keep(11) [of "io_kern (nd_io w3)"] by (simp_all add: ifs)
        moreover obtain i where "w' = (set_kern k3 (w3\<lparr>
            peerToFd := (peerToFd w3)(?p \<mapsto> fd), fdToPeer := map_emplace fd (?p, t) (fdToPeer w3),
            peerToAddr := (peerToAddr w3)(?p \<mapsto> sender), addrToPeer := (addrToPeer w3)(sender \<mapsto> ?p)\<rparr>))\<lparr>ifToPeer := i\<rparr>"
        proof -
          have "sys (k_getifaddrs K) v = (ifs, set_kern k3 v)" if "nd_io v = nd_io w3" for v using that ifs by (simp add: sys_def)
          with run other \<open>tfd = 0\<close> \<open>fd \<noteq> -1\<close> True that show thesis
            by (auto simp: track_peer_def ix Let_def c reg split: option.split_asm)
        qed
        ultimately show ?thesis by (intro g [of w' k3]) (simp_all add: conn_part_def)
      qed
    qed
  qed
qed

lemma ninv_track_peer:
  assumes "ninv (Suc b) pend w" and "track_peer K sender msg w = Inr (r, w')"
  shows "ninv b pend w'" and "ready opn w a x \<Longrightarrow> ready opn w' a x"
proof -
  note I = node_invD [OF assms(1)] and k = track_peer_keeps [OF assms]
  from track_peer_step [OF fds I(3,4) assms(2)] have "peers_inv w'" "timers_open opn w'" by simp_all
  from keeps_inv [OF assms(1) k this] show "ninv b pend w'" .
  show "ready opn w a x \<Longrightarrow> ready opn w' a x" by (rule keeps_ready [OF k])
qed

section \<open>System calls\<close>

text \<open>
  A change of the kernel: the open descriptors grow, and at most a descriptor that was not
  open is taken off the interest lists.
\<close>

definition kern_ok :: "'k \<Rightarrow> 'k \<Rightarrow> bool" where
  "kern_ok k k' \<longleftrightarrow> opn k \<subseteq> opn k' \<and>
     (interest k' = interest k \<or> (\<exists>f. f \<notin> opn k \<and> (\<forall>ep. interest k' ep = (interest k ep)(f := None))))"

lemma watched_kern_ok:
  assumes "watched interest io" and "kern_ok (io_kern io) k"
    and "\<And>f ev cb. entry io (f, ev) = Some cb \<Longrightarrow> f \<in> opn (io_kern io)"
  shows "watched interest (io\<lparr>io_kern := k\<rparr>)"
proof (cases "interest k = interest (io_kern io)")
  case True
  with assms(1) show ?thesis by (simp add: watched_kern)
next
  case False
  with assms(2) obtain f where f: "f \<notin> opn (io_kern io)" "\<And>ep. interest k ep = (interest (io_kern io) ep)(f := None)"
    by (auto simp: kern_ok_def)
  have "watch_inv interest (io_loop io, k)"
  proof (rule watch_inv_one_descr [OF assms(1) [unfolded watched_def] refl refl refl, of f])
    have none: "find_keeper (io_loop io) f ev = None" for ev
      using f(1) assms(3) [of f ev] by (cases "find_keeper (io_loop io) f ev") (auto simp: entry_def)
    then have "mask_of (io_loop io) f = 0" by (simp add: mask_of_cases)
    then show "watch_ok (interest k (epollHandle (io_loop io)) f) (io_loop io) f" by (simp add: f(2) watch_ok_def)
  qed (simp_all add: f(2))
  then show ?thesis by (simp add: watched_def)
qed

lemma ninv_kern:
  assumes inv: "ninv b pend w" and k: "kern_ok (io_kern (nd_io w)) k"
  shows "ninv b pend (set_kern k w)" and "slot opn w f r \<Longrightarrow> slot opn (set_kern k w) f r"
    and "ready opn w a r \<Longrightarrow> ready opn (set_kern k w) a r"
proof -
  note I = node_invD [OF inv]
  let ?io = "(nd_io w)\<lparr>io_kern := k\<rparr>"
  have opn: "opn (io_kern (nd_io w)) \<subseteq> opn (io_kern ?io)" using k by (simp add: kern_ok_def)
  have wat: "watched interest ?io" by (rule watched_kern_ok [OF I(2) k]) (rule conns_invD(6) [OF I(5)])
  from node_inv_shrink [OF inv _ opn _ wat] I(1) show "ninv b pend (set_kern k w)" by (simp add: set_kern_def)
  show s: "slot opn w f r \<Longrightarrow> slot opn (set_kern k w) f r" for f r
    using slot_shrink [OF _ _ opn] by (simp add: set_kern_def)
  show "ready opn w a r \<Longrightarrow> ready opn (set_kern k w) a r"
    using s by (auto simp: ready_def idle_object_def Get_def)
qed

lemma fresh_slot:
  assumes inv: "ninv b pend w" and "fd \<notin> opn (io_kern (nd_io w))" and "fd \<in> opn k"
  shows "slot opn (set_kern k w) fd Handshake"
proof -
  note I = node_invD [OF inv]
  note D = conns_invD [OF I(5)]
  have none: "entry (nd_io w) (fd, ev) = None" for ev
    using D(6) [of fd ev] assms(2) by (cases "entry (nd_io w) (fd, ev)") auto
  have "activeConns w fd = None" using D(4) [of fd] assms(2) by (cases "activeConns w fd") auto
  moreover have "\<not> system_fd (set_kern k w) fd"
    using I(4) none assms(2) by (auto simp: system_fd_def timers_open_def)
  ultimately show ?thesis using none assms(3) by (simp add: slot_def)
qed

lemma kern_ok_refl [simp]: "kern_ok k k"
  by (simp add: kern_ok_def)

lemma kern_ok_same: "interest k' = interest k \<Longrightarrow> opn k' = opn k \<Longrightarrow> kern_ok k k'"
  by (simp add: kern_ok_def)

lemma kern_ok_tcp:
  assumes "create_tcp_socket K port k = (fd, k')"
  shows "kern_ok k k'"
proof -
  obtain fd0 k1 where 1: "k_socket K (uint AF_INET) (uint (SOCK_STREAM OR SOCK_NONBLOCK)) IPPROTO_TCP k = (fd0, k1)"
    by force
  obtain r2 k2 where 2: "(if port \<noteq> 0 then k_setsockopt K fd0 SOL_SOCKET (uint (SO_REUSEADDR OR SO_REUSEPORT)) 1 k1
      else (0, k1)) = (r2, k2)" by force
  obtain r3 k3 where 3: "k_setsockopt K fd0 IPPROTO_TCP (uint TCP_NODELAY) 1 k2 = (r3, k3)" by force
  obtain r4 k4 where 4: "k_setsockopt K fd0 SOL_SOCKET (uint SO_OOBINLINE) 1 k3 = (r4, k4)" by force
  obtain r5 k5 where 5: "k_bind K fd0 (Inet (local_address port)) k4 = (r5, k5)" by force
  from assms have k': "k' = k1 \<and> fd0 = -1 \<or> fd0 \<noteq> -1 \<and> k' \<in> {k5, k_close K fd0 k2, k_close K fd0 k3, k_close K fd0 k4, k_close K fd0 k5}"
    by (auto simp: create_tcp_socket_def 1 2 3 4 5 Let_def split: if_splits)
  have i1: "interest k1 = interest k" using interest_keep(16) 1 by (metis snd_conv)
  have i2: "interest k2 = interest k1" using interest_keep(1) 2 by (cases "port = 0") (simp, metis snd_conv)
  have i3: "interest k3 = interest k2" "interest k4 = interest k3" using interest_keep(1) 3 4 by (metis snd_conv)+
  have i5: "interest k5 = interest k4" using interest_keep(2) 5 by (metis snd_conv)
  note i = i1 i2 i3 i5
  from create_tcp_no_leak [OF fds assms] have sub: "opn k \<subseteq> opn k'" by (auto split: if_splits)
  show ?thesis
  proof (cases "fd0 = -1")
    case True
    with k' i sub show ?thesis by (auto simp: kern_ok_def)
  next
    case False
    from fd_laws_create(1) [OF fds] 1 have "creating opn fd0 k k1" by (metis fst_conv snd_conv)
    from creatingD [OF this] False have "fd0 \<notin> opn k" by simp
    with False k' i sub show ?thesis by (auto simp: kern_ok_def interest_close)
  qed
qed

lemma accept_kern:
  assumes "accept_client K fd k = ((addr, c), k')"
  shows "interest k' = interest k" and "if c = -1 then opn k' = opn k else c \<notin> opn k \<and> opn k' = insert c (opn k)"
proof -
  obtain a k1 where 1: "k_accept K fd k = ((c, a), k1)"
    using assms by (auto simp: accept_client_def Let_def split: prod.splits)
  obtain fl k2 where 2: "k_getfl K fd k1 = (fl, k2)" by force
  from assms 1 2 have k': "k' = k_setfl K fd (of_int (if fl = -1 then 0 else fl) OR O_NONBLOCK) k2"
    by (auto simp: accept_client_def Let_def)
  have "interest k1 = interest k" "interest k2 = interest k1" "opn k2 = opn k1"
    using interest_keep(5) [of fd k] interest_keep(6) [of fd k1] opn_keep(5) [of fd k1] 1 2 by simp_all
  then show "interest k' = interest k" by (simp add: k')
  have "creating opn c k k1" using fd_laws_create(2) [OF fds, of fd k] by (simp add: 1)
  from creatingD [OF this] \<open>opn k2 = opn k1\<close> show "if c = -1 then opn k' = opn k else c \<notin> opn k \<and> opn k' = insert c (opn k)"
    by (simp add: k')
qed

section \<open>Connecting\<close>

lemma ninv_incoming_hello:
  assumes inv: "ninv (Suc (Suc b)) pend w" and rdy: "ready opn w a Handshake" and run: "incoming_hello_cb K a res w = Inr w'"
  shows "ninv b pend w'"
proof (cases "w' = abandon K a w")
  case True
  with ninv_abandon [OF inv rdy] show ?thesis by (auto intro: node_inv_mono)
next
  case False
  obtain addr k where addr: "get_fd_addr K (Get a (nd_io w)) (io_kern (nd_io w)) = (addr, k)" by force
  then have "k = snd (k_getpeername K (Get a (nd_io w)) (io_kern (nd_io w)))"
    by (auto simp: get_fd_addr_def case_prod_beta)
  then have "interest k = interest (io_kern (nd_io w))" "opn k = opn (io_kern (nd_io w))" by simp_all
  note n1 = ninv_kern [OF inv kern_ok_same [OF this]]
  let ?w1 = "set_kern k w"
  have rdy1: "ready opn ?w1 a Handshake" by (rule n1(3) [OF rdy])
  have s: "sys (get_fd_addr K (Get a (nd_io w))) w = (addr, ?w1)" by (simp add: sys_def addr)
  show ?thesis
  proof (cases "w' = abandon K a ?w1")
    case True
    with ninv_abandon [OF n1(1) rdy1] show ?thesis by (auto intro: node_inv_mono)
  next
    case no: False
    from False no run s obtain m hello sa where "res = Ok m" "Deserialize m = Some hello" "hm_type hello = Notify" "addr = Some sa"
      by (auto simp: incoming_hello_cb_def split: io_result.split_asm option.split_asm if_split_asm)
    with run s obtain sender r w2 c w3 where t: "track_peer K sender hello ?w1 = Inr (r, w2)"
      and st: "start_io (SendMessage K a (Serialize (make_hello (nd_self w2) Answer)) (IncomingAnswerSent (hm_id hello)) False) w2 = Inr (c, w3)"
      and w': "(case c of Some (SendResolved _ res) \<Rightarrow> answer_sent_cb K (hm_id hello) a res w3 | _ \<Rightarrow> Inr w3) = Inr w'"
      by (simp add: incoming_hello_cb_def chain_eq_Inr Let_def) blast
    note T = ninv_track_peer [OF n1(1) t]
    have "ready opn w2 a (goal_role (Inr (IncomingAnswerSent (hm_id hello))))" using T(2) [OF rdy1] by simp
    note S = started_send [OF T(1) this st, unfolded started_ok_def]
    show ?thesis
    proof (cases c)
      case None
      with S w' show ?thesis by simp
    next
      case (Some u)
      with S w' show ?thesis by (auto intro: ninv_answer_sent)
    qed
  qed
qed

lemma ninv_notify_sent:
  assumes inv: "ninv (Suc b) pend w" and rdy: "ready opn w a Handshake" and run: "notify_sent_cb K peer a res w = Inr w'"
  shows "ninv b pend w'"
proof (cases res)
  case (Err e)
  have "ninv (Suc b) pend (OnLinkEstablishingError peer OUTGOING ERROR w)"
    unfolding OnLinkEstablishingError_def by (rule ninv_notify [OF inv]) simp_all
  moreover have "ready opn (OnLinkEstablishingError peer OUTGOING ERROR w) a Handshake"
    using rdy by (simp add: OnLinkEstablishingError_def)
  ultimately have "ninv (Suc b) pend (abandon K a (OnLinkEstablishingError peer OUTGOING ERROR w))" by (rule ninv_abandon)
  from node_inv_mono [OF this, of b] run Err show ?thesis by (simp add: notify_sent_cb_def)
next
  case (Ok u)
  with run obtain c w2 where st: "start_io (RecvMessage K a (OutgoingAnswer peer)) w = Inr (c, w2)"
    and w': "(case c of Some (RecvResolved _ res) \<Rightarrow> outgoing_answer_cb K peer a res w2 | _ \<Rightarrow> Inr w2) = Inr w'"
    by (auto simp: notify_sent_cb_def chain_eq_Inr)
  have "ready opn w a (goal_role (Inl (OutgoingAnswer peer)))" using rdy by simp
  note S = started_recv [OF inv this st, unfolded started_ok_def]
  show ?thesis
  proof (cases c)
    case None
    with S w' show ?thesis by simp
  next
    case (Some u)
    with S w' show ?thesis by (auto intro: ninv_outgoing_answer)
  qed
qed

lemma ninv_incoming_exchange:
  assumes inv: "ninv (Suc (Suc b)) pend w" and slot: "slot opn w fd Handshake" and run: "IncomingHelloExchange K fd w = Inr w'"
  shows "ninv b pend w'"
proof -
  note C = create_ready [OF inv slot]
  let ?w = "w\<lparr>nd_io := snd (Create fd (nd_io w))\<rparr>" and ?a = "io_next (nd_io w)"
  from run obtain c w2 where st: "start_io (RecvMessage K ?a IncomingHello) ?w = Inr (c, w2)"
    and w': "(case c of Some (RecvResolved _ res) \<Rightarrow> incoming_hello_cb K ?a res w2 | _ \<Rightarrow> Inr w2) = Inr w'"
    by (auto simp: IncomingHelloExchange_def on_io_Create chain_eq_Inr)
  have "ready opn ?w ?a (goal_role (Inl IncomingHello))" using C(2) by simp
  note S = started_recv [OF C(1) this st, unfolded started_ok_def]
  show ?thesis
  proof (cases c)
    case None
    with S w' show ?thesis by (auto intro: node_inv_mono)
  next
    case (Some u)
    with S w' show ?thesis by (auto intro: ninv_incoming_hello)
  qed
qed

lemma ninv_outgoing_exchange:
  assumes inv: "ninv (Suc b) pend w" and slot: "slot opn w fd Handshake" and run: "OutgoingHelloExchange K fd peer w = Inr w'"
  shows "ninv b pend w'"
proof -
  note C = create_ready [OF inv slot]
  let ?w = "w\<lparr>nd_io := snd (Create fd (nd_io w))\<rparr>" and ?a = "io_next (nd_io w)"
  from run obtain c w2 where
    st: "start_io (SendMessage K ?a (Serialize (make_hello (nd_self w) Notify)) (OutgoingNotifySent peer) False) ?w = Inr (c, w2)"
    and w': "(case c of Some (SendResolved _ res) \<Rightarrow> notify_sent_cb K peer ?a res w2 | _ \<Rightarrow> Inr w2) = Inr w'"
    by (auto simp: OutgoingHelloExchange_def on_io_Create chain_eq_Inr)
  have "ready opn ?w ?a (goal_role (Inr (OutgoingNotifySent peer)))" using C(2) by simp
  note S = started_send [OF C(1) this st, unfolded started_ok_def]
  show ?thesis
  proof (cases c)
    case None
    with S w' show ?thesis by simp
  next
    case (Some u)
    with S w' show ?thesis by (auto intro: ninv_notify_sent)
  qed
qed

lemma ninv_AcceptConn:
  assumes inv: "ninv (Suc (Suc b)) pend w" and run: "AcceptConn K w = Inr w'"
  shows "ninv b pend w'"
proof -
  obtain addr c k where acc: "accept_client K (listenFd w) (io_kern (nd_io w)) = ((addr, c), k)"
    by (metis prod_cases3 surj_pair)
  note A = accept_kern [OF acc]
  have "kern_ok (io_kern (nd_io w)) k" using A by (auto simp: kern_ok_def split: if_splits)
  note n = ninv_kern [OF inv this]
  have s: "sys (accept_client K (listenFd w)) w = ((addr, c), set_kern k w)" by (simp add: sys_def acc)
  show ?thesis
  proof (cases "c = -1")
    case True
    with run s n(1) show ?thesis by (auto simp: AcceptConn_def intro: node_inv_mono)
  next
    case False
    with A have "c \<notin> opn (io_kern (nd_io w))" "c \<in> opn k" by auto
    from fresh_slot [OF inv this] run s False show ?thesis
      by (auto simp: AcceptConn_def intro: ninv_incoming_exchange [OF n(1)])
  qed
qed

lemma ninv_EstablishConnection:
  assumes inv: "ninv (Suc b) pend w" and run: "EstablishConnection K peer w = Inr w'"
  shows "ninv b pend w'"
proof -
  have err: "ninv b' pend (OnLinkEstablishingError peer OUTGOING kind v)" if "ninv b' pend v" for b' kind v
    using that unfolding OnLinkEstablishingError_def by (rule ninv_notify) simp_all
  have ln: "ninv b pend (OnLinkEstablishingError peer OUTGOING kind w)" for kind
    using err [OF node_inv_mono [OF inv]] by simp
  show ?thesis
  proof (cases "connToFd w (peer, OUTGOING) \<noteq> None \<or> GetAddress peer w = None")
    case True
    with run ln show ?thesis by (auto simp: EstablishConnection_def split: if_splits)
  next
    case False
    then obtain addr where addr: "connToFd w (peer, OUTGOING) = None" "GetAddress peer w = Some addr" by auto
    obtain fd k where c: "create_tcp_socket K 0 (io_kern (nd_io w)) = (fd, k)" by force
    note n = ninv_kern [OF inv kern_ok_tcp [OF c]]
    have s: "sys (create_tcp_socket K 0) w = (fd, set_kern k w)" by (simp add: sys_def c)
    show ?thesis
    proof (cases "fd = -1")
      case True
      with run addr s err [OF node_inv_mono [OF n(1)]] show ?thesis by (auto simp: EstablishConnection_def)
    next
      case False
      with create_tcp_no_leak [OF fds c] have "fd \<notin> opn (io_kern (nd_io w))" "fd \<in> opn k" by auto
      note sl = fresh_slot [OF inv this]
      let ?ep = "\<lparr>sin_family = AF_INET, sin_port = htons (of_int TCP_LISTEN_PORT), sin_addr = addr\<rparr>"
      obtain res errno k2 where conn: "k_connect K fd ?ep k = ((res, errno), k2)" by (metis prod_cases3 surj_pair)
      have "kern_ok (io_kern (nd_io (set_kern k w))) k2"
        using interest_keep(4) [of fd ?ep k] opn_keep(13) [of fd ?ep k] by (intro kern_ok_same) (simp_all add: conn)
      note n2 = ninv_kern [OF n(1) this]
      let ?w2 = "set_kern k2 (set_kern k w)"
      let ?w3 = "if res < 0 \<and> errno \<noteq> EINPROGRESS then OnLinkEstablishingError peer OUTGOING ERROR ?w2 else ?w2"
      have c2: "sys (k_connect K fd ?ep) (set_kern k w) = ((res, errno), ?w2)" by (simp add: sys_def conn)
      have ex: "OutgoingHelloExchange K fd peer ?w3 = Inr w'"
        using run False by (simp add: EstablishConnection_def addr s c2 Let_def)
      have n3: "ninv (Suc b) pend ?w3" using n2(1) err [OF n2(1)] by simp
      have "slot opn ?w3 fd Handshake" using n2(2) [OF sl] by (simp add: OnLinkEstablishingError_def)
      from ninv_outgoing_exchange [OF n3 this ex] show ?thesis .
    qed
  qed
qed

end

end
