(* ===== verification/ProcessInv.thy ===== *)
theory ProcessInv
  imports NodeInv
begin

text \<open>
  The invariant of theory \<open>NodeInv\<close> over the steps of a process: the broadcast manager's
  operations, the transport manager's commands, one event of the epoll thread, and starting.
  Every step hands out a bounded number of tokens.
\<close>

context os_contract
begin

section \<open>Performing a resolve call\<close>

lemma run_proc_node:
  assumes inv: "ninv b pend w" and e: "entry (nd_io w) (fd, ev) = Some (ProcCb p)"
    and run: "run_proc K (fd, ev) p res (nd_io w) = Inr (c, io')"
  shows "ninv b pend (w\<lparr>nd_io := io'\<rparr>)"
    and "c = Some u \<Longrightarrow> ready opn (w\<lparr>nd_io := io'\<rparr>) (pc_self p) (goal_role (call_goal u))"
proof -
  note I = node_invD [OF inv]
  note D = conns_invD [OF I(5)] and ok = io_invD(5) [OF I(1) e]
  note role = D(8) [OF e]
  from run_proc_inv [OF I(1) e run] have inv': "io_inv b io'" and ran: "ran (nd_io w) fd ev p c io'" by auto
  from run_proc_kern [OF run] I(2) have opn: "opn (io_kern io') = opn (io_kern (nd_io w))" and wat: "watched interest io'" by auto
  have "ninv b pend (w\<lparr>nd_io := io'\<rparr>) \<and> (\<forall>u. c = Some u \<longrightarrow> ready opn (w\<lparr>nd_io := io'\<rparr>) (pc_self p) (goal_role (call_goal u)))"
  proof (cases c)
    case None
    with ran obtain p' where p': "entry io' = (entry (nd_io w))((fd, ev) \<mapsto> ProcCb p')"
      "stage_goal (pc_resolve p') = stage_goal (pc_resolve p)" by (auto simp: ran_def)
    have "conns_inv opn (w\<lparr>nd_io := io'\<rparr>)"
    proof (rule conns_inv_entry [OF I(5) p'(1) opn D(6) [OF e] D(7) [OF e]])
      show "role_ok w fd ev (goal_role (stage_goal (pc_resolve p')))" using role by (simp add: p'(2))
      fix ev' q assume q: "entry (nd_io w) (fd, ev') = Some (ProcCb q)" "goal_role (stage_goal (pc_resolve q)) = Handshake"
      from D(8) [OF q(1)] q(2) e show "ev' = ev" by (auto simp: role_ok_def)
    qed
    with I inv' wat opn None show ?thesis by (simp add: node_inv_def timers_open_def balanced_def)
  next
    case (Some u)
    with ran have le: "entry io' \<subseteq>\<^sub>m entry (nd_io w)" and gone: "entry io' (fd, ev) = None"
      and idle: "idle_object io' (pc_self p)" and goal: "call_goal u = stage_goal (pc_resolve p)" and G: "Get (pc_self p) io' = fd"
      by (auto simp: ran_def)
    have n: "ninv b pend (w\<lparr>nd_io := io'\<rparr>)" by (rule node_inv_shrink [OF inv le _ inv' wat]) (simp add: opn)
    have sending: "ev = EPOLLOUT" if "goal_role (stage_goal (pc_resolve p)) = Sending"
    proof -
      from that have "goal_dir (stage_goal (pc_resolve p)) = OUTPUT"
        by (cases "stage_goal (pc_resolve p)" rule: goal_role.cases) (auto simp: goal_dir_def)
      with ok show ?thesis by (simp add: proc_ok_def goal_dir_stage)
    qed
    have none: "entry io' (fd, ev') = None" if "goal_role (stage_goal (pc_resolve p)) = Handshake" for ev'
      using role that gone map_le_None [OF le, of "(fd, ev')"] by (cases "ev' = ev") (auto simp: role_ok_def)
    have "slot opn (w\<lparr>nd_io := io'\<rparr>) fd (goal_role (call_goal u))"
      using role none sending gone D(6) [OF e] D(7) [OF e] system_fd_io [OF le] opn
      by (auto simp: slot_def goal role_ok_def split: role.splits)
    with n idle G Some show ?thesis by (simp add: ready_def)
  qed
  then show "ninv b pend (w\<lparr>nd_io := io'\<rparr>)"
    and "c = Some u \<Longrightarrow> ready opn (w\<lparr>nd_io := io'\<rparr>) (pc_self p) (goal_role (call_goal u))" by auto
qed

lemma ninv_perform:
  assumes inv: "ninv (Suc (Suc b)) pend w" and rdy: "ready opn w a (goal_role (call_goal c))"
    and run: "perform K a c w = Inr w'"
  shows "ninv b pend w'"
proof -
  have inv1: "ninv (Suc b) pend w" by (rule node_inv_mono [OF inv]) simp
  show ?thesis
  proof (cases c)
    case (RecvResolved r res)
    with rdy run show ?thesis
      by (cases r) (auto simp: perform_def intro: ninv_incoming_hello [OF inv] ninv_outgoing_answer [OF inv1] ninv_read_cb [OF inv1])
  next
    case (SendResolved s res)
    with rdy run show ?thesis
      by (cases s) (auto simp: perform_def intro: ninv_answer_sent [OF inv1] ninv_notify_sent [OF inv1] ninv_sent_cb [OF _ _ _ inv1])
  qed
qed

section \<open>The broadcast manager\<close>

lemma send_hellos_same: "interest (send_hellos K fd msg as k) = interest k" "opn (send_hellos K fd msg as k) = opn k"
  by (induction as arbitrary: k) (simp_all add: send_broadcast_def)

lemma ninv_SendBroadcastHello: "ninv b pend w \<Longrightarrow> ninv b pend (SendBroadcastHello K w)"
proof -
  assume inv: "ninv b pend w"
  obtain ifs k where ifs: "k_getifaddrs K (io_kern (nd_io w)) = (ifs, k)" by force
  then have k: "interest k = interest (io_kern (nd_io w))" "opn k = opn (io_kern (nd_io w))"
    using interest_keep(9) [of "io_kern (nd_io w)"] opn_keep(11) [of "io_kern (nd_io w)"] by simp_all
  have "SendBroadcastHello K w = set_kern (send_hellos K (broadcastFd w) (Serialize (make_hello (nd_self w) Notify)) (GetBroadcastAddresses ifs) k) w"
    by (simp add: SendBroadcastHello_def sys_def ifs Let_def set_kern_def)
  with k show ?thesis by (simp add: ninv_kern(1) [OF inv] kern_ok_same send_hellos_same)
qed

lemma ninv_OnNeighborFound:
  assumes inv: "ninv (Suc b) pend w" and run: "OnNeighborFound K peer w = Inr w'"
  shows "ninv b pend w'"
proof -
  let ?w = "notify (NewNeighbour GetTransportId peer) (SendBroadcastHello K w)"
  have "ninv (Suc b) pend ?w" by (rule ninv_notify [OF ninv_SendBroadcastHello [OF inv]]) simp_all
  with run show ?thesis
    by (auto simp: OnNeighborFound_def NotifyNewNeighbour_def mgr_OpenSession_def OpenSession_def
        intro: ninv_EstablishConnection split: if_splits)
qed

lemma ninv_ProcessHello:
  assumes inv: "ninv (Suc (Suc b)) pend w" and run: "ProcessHello K sender msg nn w = Inr w'"
  shows "ninv b pend w'"
proof -
  from run obtain r w1 where t: "track_peer K sender msg w = Inr (r, w1)"
    and w': "(if r \<and> nn then OnNeighborFound K (hm_id msg) w1 else Inr w1) = Inr w'"
    by (auto simp: ProcessHello_def chain_eq_Inr)
  note n = ninv_track_peer(1) [OF inv t]
  from w' node_inv_mono [OF n, of b] show ?thesis by (auto intro: ninv_OnNeighborFound [OF n] split: if_splits)
qed

lemma read_broadcast_same:
  assumes "read_broadcast K fd k = (r, k')"
  shows "interest k' = interest k \<and> opn k' = opn k"
proof -
  have "k' = snd (k_recvfrom K fd BUFFER_LEN k)"
    using assms by (auto simp: read_broadcast_def split: prod.splits option.splits)
  then show ?thesis by simp
qed

lemma ninv_ReceiveBroadcasts:
  "ninv (2 * n + b) pend w \<Longrightarrow> ReceiveBroadcasts n K w = Inr w' \<Longrightarrow> ninv b pend w'"
proof (induction n arbitrary: w)
  case (Suc n)
  obtain r k where r: "read_broadcast K (broadcastFd w) (io_kern (nd_io w)) = (r, k)" by force
  let ?w = "set_kern k w"
  have s: "sys (read_broadcast K (broadcastFd w)) w = (r, ?w)" by (simp add: sys_def r)
  from read_broadcast_same [OF r] have n: "ninv (2 * Suc n + b) pend ?w"
    by (intro ninv_kern(1) [OF Suc.prems(1)] kern_ok_same) simp_all
  then have n': "ninv (Suc (Suc (2 * n + b))) pend ?w" by simp
  have skip: "ninv b pend w'" if "ReceiveBroadcasts n K ?w = Inr w'"
    by (rule Suc.IH [OF node_inv_mono [OF n] that]) simp
  have stop: "ninv b pend ?w" by (rule node_inv_mono [OF n]) simp
  have deliver: "ninv b pend w'" if h: "chain (ProcessHello K a msg True ?w) (\<lambda>w. ReceiveBroadcasts n K w) = Inr w'" for a msg
  proof -
    from h obtain w1 where "ProcessHello K a msg True ?w = Inr w1" "ReceiveBroadcasts n K w1 = Inr w'"
      by (auto simp: chain_eq_Inr)
    then show ?thesis by (intro Suc.IH [OF ninv_ProcessHello [OF n']])
  qed
  from Suc.prems(2) s show ?case
    by (auto intro: skip deliver stop split: option.split_asm prod.split_asm if_split_asm)
qed simp

lemma ninv_timer_cb: "ninv b pend w \<Longrightarrow> ninv b pend (broadcast_timer_cb K w)"
proof -
  assume inv: "ninv b pend w"
  let ?w1 = "SendBroadcastHello K (set_kern (k_read K (broadcastTimerFd w) (io_kern (nd_io w))) w)"
  have n: "ninv b pend ?w1"
    by (intro ninv_SendBroadcastHello ninv_kern(1) [OF inv] kern_ok_same) simp_all
  have "broadcast_timer_cb K w = set_kern (snd (set_timer K (broadcastTimerFd ?w1) 1 (io_kern (nd_io ?w1)))) ?w1"
    by (simp add: broadcast_timer_cb_def sys_def Let_def case_prod_beta)
  then show ?thesis by (simp add: ninv_kern(1) [OF n] kern_ok_same set_timer_def)
qed

lemma ninv_ProcessPeerLost:
  assumes inv: "ninv b pend w"
  shows "ninv b pend (ProcessPeerLost K fd w)"
proof (cases "fdToPeer w fd")
  case None
  then have "ProcessPeerLost K fd w = set_kern (k_read K fd (io_kern (nd_io w))) w"
    by (simp add: ProcessPeerLost_def)
  with ninv_kern(1) [OF inv kern_ok_same] show ?thesis by simp
next
  case (Some x)
  obtain p t where x: "fdToPeer w fd = Some (p, t)" using Some by (cases x) simp
  note I = node_invD [OF inv]
  from ProcessPeerLost_step [OF I(3) x, of K] have pi: "peers_inv (ProcessPeerLost K fd w)" by simp
  obtain a r l k where d: "DeregisterAction K t (io_loop (nd_io w)) (k_read K fd (io_kern (nd_io w))) = (r, l, k)"
    and res: "ProcessPeerLost K fd w = notify (LostNeighbour GetTransportId p)
      ((w\<lparr>nd_io := set_loop l k (nd_io w)\<rparr>)\<lparr>peerToFd := map_erase p (peerToFd w),
        fdToPeer := map_erase fd (fdToPeer w), peerToAddr := map_erase p (peerToAddr w),
        addrToPeer := map_erase a (addrToPeer w)\<rparr>)" (is "_ = notify _ (?w1\<lparr>peerToFd := _, fdToPeer := _, peerToAddr := _, addrToPeer := _\<rparr>)")
    using ProcessPeerLost_result [OF I(3) x, of K] by metis
  let ?w2 = "?w1\<lparr>peerToFd := map_erase p (peerToFd w),
        fdToPeer := map_erase fd (fdToPeer w), peerToAddr := map_erase p (peerToAddr w),
        addrToPeer := map_erase a (addrToPeer w)\<rparr>"
  note dt = io_inv_dereg_token [OF I(1) d]
  have opn: "opn k = opn (io_kern (nd_io w))" using quiet_DeregisterAction [OF quiet_opn d] by simp
  have "watch_inv interest (io_loop (nd_io w), k_read K fd (io_kern (nd_io w)))"
    using I(2) by (simp add: watched_def watch_inv_def)
  then have wat: "watched interest (set_loop l k (nd_io w))" using watch_inv_deregister [OF laws _ d] by simp
  have n1: "ninv b pend ?w1" by (rule node_inv_shrink [OF inv dt(2) _ dt(1) wat]) (simp add: opn)
  note I1 = node_invD [OF n1]
  have sys: "system_fd ?w2 f \<Longrightarrow> system_fd ?w1 f" for f by (auto simp: system_fd_def)
  have opened: "f \<in> opn (io_kern (nd_io ?w2))" if "entry (nd_io ?w2) (f, ev) = Some cb" for f ev cb
    using conns_invD(6) [OF I1(5), of f ev cb] that by (simp del: entry_simps)
  have "conns_inv opn ?w2"
    by (rule conns_inv_change(1) [OF I1(5) _ _ _ _ _ sys opened]) (simp_all del: entry_simps)
  moreover have "timers_open opn ?w2" using I1(4) by (auto simp: timers_open_def)
  ultimately show ?thesis
    using pi I1 by (simp add: res node_inv_def balanced_def opened_count_def lost_count_def)
qed

lemma clear_netlink_same:
  "clear_netlink_socker n K fd k = Inr k' \<Longrightarrow> interest k' = interest k \<and> opn k' = opn k"
proof (induction n arbitrary: k)
  case (Suc n)
  obtain r k1 where r: "k_recv K fd (of_nat BUFFER_LEN) k = (r, k1)" by force
  then have "k1 = snd (k_recv K fd (of_nat BUFFER_LEN) k)" by simp
  then have same: "interest k1 = interest k" "opn k1 = opn k" by simp_all
  show ?case
  proof (cases "k' = k1")
    case False
    with Suc.prems r have "clear_netlink_socker n K fd k1 = Inr k'"
      by (auto split: recv_result.splits if_splits)
    from Suc.IH [OF this] same show ?thesis by simp
  qed (use same in simp)
qed simp

lemma ninv_lost_interfaces:
  "ninv b pend w \<Longrightarrow> lost_interfaces K ifs xs w = (removed, w') \<Longrightarrow> ninv b pend w'"
proof (induction xs arbitrary: w removed)
  case (Cons x xs)
  obtain i p where x: "x = (i, p)" by (cases x)
  let ?w = "OnNeighborLost p (CloseSession K p ALL_DIR w)"
  have n: "ninv b pend ?w"
    unfolding OnNeighborLost_def CloseSession_def by (rule ninv_notify [OF ninv_CloseConn [OF Cons.prems(1)]]) simp_all
  show ?case
  proof (cases "i \<in> ifs")
    case True
    with Cons x show ?thesis by simp
  next
    case False
    obtain r v where v: "lost_interfaces K ifs xs ?w = (r, v)" by force
    with Cons.prems(2) x False have "v = w'" by (simp add: Let_def)
    with Cons.IH [OF n] v show ?thesis by simp
  qed
qed simp

lemma ninv_ifs: "ninv b pend (w\<lparr>ifToPeer := m\<rparr>) = ninv b pend w"
proof -
  have s: "system_fd (w\<lparr>ifToPeer := m\<rparr>) = system_fd w" "role_ok (w\<lparr>ifToPeer := m\<rparr>) = role_ok w"
    by (simp_all add: system_fd_def role_ok_def fun_eq_iff split: role.split)
  show ?thesis by (simp add: node_inv_def timers_open_def conns_inv_def s balanced_def)
qed

lemma ninv_ProcessNetworkUpdate:
  assumes inv: "ninv b pend w" and run: "ProcessNetworkUpdate n K w = Inr w'"
  shows "ninv b pend w'"
proof -
  from run obtain k where k: "clear_netlink_socker n K (netlinkFd w) (io_kern (nd_io w)) = Inr k"
    by (auto simp: ProcessNetworkUpdate_def chain_eq_Inr)
  obtain ifs k2 where ifs: "k_getifaddrs K k = (ifs, k2)" by force
  then have "k2 = snd (k_getifaddrs K k)" by simp
  then have "interest k2 = interest k" "opn k2 = opn k" by simp_all
  with clear_netlink_same [OF k] have n2: "ninv b pend (set_kern k2 w)"
    by (intro ninv_kern(1) [OF inv] kern_ok_same) simp_all
  obtain removed w3 where l: "lost_interfaces K (get_interfaces ifs) (ifToPeer w) (set_kern k2 w) = (removed, w3)" by force
  from ninv_lost_interfaces [OF n2 l] have "ninv b pend (w3\<lparr>ifToPeer := fold al_erase removed (ifToPeer w3)\<rparr>)"
    by (simp add: ninv_ifs)
  from ninv_SendBroadcastHello [OF this] run k ifs l show ?thesis
    by (simp add: ProcessNetworkUpdate_def sys_def Let_def) (simp add: set_kern_def)
qed

section \<open>Steps\<close>

lemma ninv_run_keeper:
  assumes inv: "ninv (2 * n + 2 + b) pend w" and e: "entry (nd_io w) (fd, ev) = Some cb"
    and run: "run_keeper n K (fd, ev) cb res w = Inr w'"
  shows "ninv b pend w'"
proof -
  have inv0: "ninv b pend w" by (rule node_inv_mono [OF inv]) simp
  have inv2: "ninv (Suc (Suc b)) pend w" by (rule node_inv_mono [OF inv]) simp
  have invn: "ninv (2 * n + b) pend w" by (rule node_inv_mono [OF inv]) simp
  show ?thesis
  proof (cases cb)
    case (ProcCb p)
    with run obtain c io where r: "run_proc K (fd, ev) p res (nd_io w) = Inr (c, io)"
      and w': "(case c of None \<Rightarrow> Inr (w\<lparr>nd_io := io\<rparr>) | Some c \<Rightarrow> perform K (pc_self p) c (w\<lparr>nd_io := io\<rparr>)) = Inr w'"
      by (auto simp: run_keeper_def chain_eq_Inr Let_def)
    from e ProcCb have e: "entry (nd_io w) (fd, ev) = Some (ProcCb p)" by simp
    note R = run_proc_node [OF inv2 e r]
    show ?thesis
    proof (cases c)
      case None
      with w' run_proc_node(1) [OF inv0 e r] show ?thesis by simp
    next
      case (Some u)
      with w' ninv_perform [OF R(1) R(2)] show ?thesis by simp
    qed
  qed (use run in \<open>auto simp: run_keeper_def intro: ninv_AcceptConn [OF inv2] ninv_ReceiveBroadcasts [OF invn]
      ninv_timer_cb [OF inv0] ninv_ProcessNetworkUpdate [OF inv0] ninv_ProcessPeerLost [OF inv0]\<close>)
qed

lemma ninv_run_callbacks:
  "ninv ((2 * n + 2) * length evs + b) pend w \<Longrightarrow> run_callbacks n K fd evs w = Inr w' \<Longrightarrow> ninv b pend w'"
proof (induction evs arbitrary: w)
  case (Cons x evs)
  obtain ev res where x: "x = (ev, res)" by (cases x)
  with Cons.prems(2) obtain w1 where r: "RunCallback n K fd ev res w = Inr w1" and rest: "run_callbacks n K fd evs w1 = Inr w'"
    by (auto simp: chain_eq_Inr)
  have n: "ninv (2 * n + 2 + ((2 * n + 2) * length evs + b)) pend w"
    by (rule node_inv_mono [OF Cons.prems(1)]) simp
  have "ninv ((2 * n + 2) * length evs + b) pend w1"
  proof (cases "find_keeper (io_loop (nd_io w)) fd ev")
    case None
    with r n show ?thesis by (auto simp: RunCallback_def intro: node_inv_mono)
  next
    case (Some keeper)
    with r have "run_keeper n K (fd, ev) (ck_callback keeper) res w = Inr w1" by (simp add: RunCallback_def)
    from ninv_run_keeper [OF n _ this] Some show ?thesis by (simp add: entry_def)
  qed
  from Cons.IH [OF this rest] show ?case .
qed simp

lemma length_callbacks_of_event: "length (callbacks_of_event ev) \<le> 2"
  by (simp add: callbacks_of_event_def)

lemma ninv_run_event:
  assumes inv: "ninv (4 * n + 4 + b) pend w" and run: "run_event n K e w = Inr (stop, w')"
  shows "ninv b pend w'"
proof -
  let ?l = "io_loop (nd_io w)"
  have inv0: "ninv b pend w" by (rule node_inv_mono [OF inv]) simp
  have rd: "ninv b pend (set_kern (k_read K (fst e) (io_kern (nd_io w))) w)"
    by (intro ninv_kern(1) [OF inv0] kern_ok_same) simp_all
  show ?thesis
  proof (cases "fst e = stopEvent ?l \<or> fst e = removeEvent ?l")
    case True
    let ?w = "set_kern (k_read K (fst e) (io_kern (nd_io w))) w"
    note I = node_invD [OF rd]
    from io_inv_drain [OF I(1), of K] drain_kern(1) [OF I(2)] drain_kern(2) [of "nd_io ?w"]
    have "ninv b pend (?w\<lparr>nd_io := drain K (nd_io ?w)\<rparr>)" by (intro node_inv_shrink [OF rd]) auto
    with rd True run show ?thesis by (auto simp: run_event_def Let_def split: if_splits)
  next
    case False
    with run have r: "run_callbacks n K (fst e) (callbacks_of_event (snd e)) w = Inr w'"
      by (auto simp: run_event_def Let_def chain_eq_Inr)
    have "(2 * n + 2) * length (callbacks_of_event (snd e)) + b \<le> (2 * n + 2) * 2 + b"
      by (intro add_right_mono mult_left_mono length_callbacks_of_event) simp
    also have "\<dots> = 4 * n + 4 + b" by simp
    finally have "ninv ((2 * n + 2) * length (callbacks_of_event (snd e)) + b) pend w" by (rule node_inv_mono [OF inv])
    from ninv_run_callbacks [OF this r] show ?thesis .
  qed
qed

lemma ninv_node_step:
  assumes env: "\<And>k k'. env k k' \<Longrightarrow> interest k' = interest k \<and> opn k' = opn k"
    and inv: "ninv (4 * n + 4 + b) pend w" and step: "node_step n K env w w'"
  shows "ninv b pend w'"
proof -
  have inv0: "ninv b pend w" and inv1: "ninv (Suc b) pend w" by (rule node_inv_mono [OF inv]; simp)+
  from step show ?thesis
  proof cases
    case (event e stop)
    from ninv_run_event [OF inv this] show ?thesis .
  next
    case (open_session tid pid)
    then show ?thesis by (auto simp: mgr_OpenSession_def OpenSession_def intro: ninv_EstablishConnection [OF inv1] split: if_splits)
  next
    case (send_message tid pid msg)
    then show ?thesis
      by (auto simp: mgr_SendMessage_def transport_SendMessage_def Let_def intro: ninv_conn_SendMessage [OF inv1] split: if_splits)
  next
    case (close_session tid pid dir)
    then show ?thesis by (auto simp: mgr_CloseSession_def CloseSession_def intro: ninv_CloseConn [OF inv0] split: if_splits)
  next
    case (environment k)
    with env [OF environment(2)] show ?thesis by (auto intro!: ninv_kern(1) [OF inv0] kern_ok_same)
  qed
qed

lemma ninv_node_steps:
  assumes env: "\<And>k k'. env k k' \<Longrightarrow> interest k' = interest k \<and> opn k' = opn k"
  shows "node_steps n K env w0 i w \<Longrightarrow> ninv (i * (4 * n + 4) + b) pend w0 \<Longrightarrow> ninv b pend w"
proof (induction arbitrary: b rule: node_steps.induct)
  case (step i w w')
  have "ninv (i * (4 * n + 4) + (4 * n + 4 + b)) pend w0" by (rule node_inv_mono [OF step.prems]) simp
  from ninv_node_step [OF env step.IH [OF this] step.hyps(2)] show ?case .
qed simp

section \<open>Starting\<close>

definition same_state :: "'k node \<Rightarrow> 'k node \<Rightarrow> bool" where
  "same_state v w \<longleftrightarrow> nd_io v = nd_io w \<and> conn_part v = conn_part w \<and> peer_part v = peer_part w
     \<and> nd_trace v = nd_trace w \<and> nd_self v = nd_self w"

lemma ninv_same_state: "same_state v w \<Longrightarrow> ninv b pend v = ninv b pend w"
proof -
  assume s: "same_state v w"
  then have f: "nd_io v = nd_io w" "activeConns v = activeConns w" "connToFd v = connToFd w" "sendQueues v = sendQueues w"
    "fdToPeer v = fdToPeer w" "peerToFd v = peerToFd w" "peerToAddr v = peerToAddr w" "addrToPeer v = addrToPeer w"
    "nd_trace v = nd_trace w" "nd_self v = nd_self w"
    by (simp_all add: same_state_def conn_part_def peer_part_def)
  have g: "timer v = timer w" "system_fd v = system_fd w" "role_ok v = role_ok w"
    by (simp_all add: timer_def system_fd_def role_ok_def fun_eq_iff f split: role.split)
  show ?thesis by (simp add: node_inv_def peers_inv_def timers_open_def conns_inv_def balanced_def f g)
qed

lemma ninv_install:
  assumes inv: "ninv (Suc b) pend w" and new: "fd \<notin> opn (io_kern (nd_io w))" "fd \<in> opn k"
    and k: "kern_ok (io_kern (nd_io w)) k" and v: "same_state v (set_kern k w)"
    and cb: "\<And>p. cb \<noteq> ProcCb p" and reg: "register_input K fd cb v = Inr ((ok, t), v')"
  shows "ninv b pend v'"
proof -
  note I = node_invD [OF inv]
  from ninv_same_state [OF v] ninv_kern(1) [OF inv k] have n: "ninv (Suc b) pend v" by simp
  note V = node_invD [OF n]
  note R = register_fresh [OF V(1,2) cb reg]
  have io: "nd_io v = (nd_io w)\<lparr>io_kern := k\<rparr>" using v by (simp add: same_state_def)
  have none: "entry (nd_io w) (fd, ev) = None" for ev
    using conns_invD(6) [OF I(5), of fd ev] new by (cases "entry (nd_io w) (fd, ev)") auto
  have opn: "opn (io_kern (nd_io v')) = opn k" using R(4) by (simp add: io)
  have e: "entry (nd_io v') = (if ok then (entry (nd_io w))((fd, EPOLLIN) \<mapsto> cb) else entry (nd_io w))"
    using R(7) by (simp add: io)
  have cp: "conn_part v' = conn_part w" and fp: "fdToPeer v' = fdToPeer w"
    using v by (subst R(1), simp add: same_state_def conn_part_def peer_part_def)+
  have same: "entry (nd_io v') (f, ev) = entry (nd_io w) (f, ev)" if "f \<noteq> fd" for f ev using that by (simp add: e)
  have here: "fd \<in> opn (io_kern (nd_io v')) \<and> (\<forall>p. c \<noteq> ProcCb p)" if "entry (nd_io v') (fd, ev) = Some c" for ev c
    using that none new(2) cb by (auto simp: e opn split: if_splits)
  have sub: "opn (io_kern (nd_io w)) \<subseteq> opn (io_kern (nd_io v'))" using k by (simp add: opn kern_ok_def)
  have "dom (fdToPeer v') \<subseteq> insert fd (dom (fdToPeer w))" by (auto simp: fp)
  from grow(1) [OF I(5) new(1) cp same here this sub] have ci: "conns_inv opn v'" by simp
  have fields: "activeConns v' = activeConns v" "nd_trace v' = nd_trace v" "peers_inv v' = peers_inv v"
    "fdToPeer v' = fdToPeer v"
    by (subst R(1), simp)+
  show ?thesis
    using V ci R fields opn by (simp add: node_inv_def timers_open_def balanced_def io)
qed

lemma kern_ok_maybe_closed:
  assumes "interest k1 = interest k" and "fd0 \<notin> opn k" and "k' = k1 \<or> k' = k_close K fd0 k1" and "opn k \<subseteq> opn k'"
  shows "kern_ok k k'"
  using assms by (auto simp: kern_ok_def interest_close)

lemma kern_ok_broadcast:
  assumes "create_broadcast_socket K port k = (fd, k')"
  shows "kern_ok k k'"
proof -
  obtain fd0 k1 where 1: "k_socket K (uint AF_INET) (uint (SOCK_DGRAM OR SOCK_NONBLOCK)) IPPROTO_UDP k = (fd0, k1)"
    by force
  obtain r2 k2 where 2: "k_setsockopt K fd0 SOL_SOCKET (uint SO_BROADCAST) 1 k1 = (r2, k2)" by force
  obtain r3 k3 where 3: "k_bind K fd0 (Inet (local_address port)) k2 = (r3, k3)" by force
  have "k1 = snd (k_socket K (uint AF_INET) (uint (SOCK_DGRAM OR SOCK_NONBLOCK)) IPPROTO_UDP k)"
    "k2 = snd (k_setsockopt K fd0 SOL_SOCKET (uint SO_BROADCAST) 1 k1)"
    "k3 = snd (k_bind K fd0 (Inet (local_address port)) k2)" by (simp_all add: 1 2 3)
  then have i: "interest k1 = interest k" "interest k2 = interest k" "interest k3 = interest k" by simp_all
  from create_broadcast_no_leak [OF fds assms] have sub: "opn k \<subseteq> opn k'" by (auto split: if_splits)
  have "creating opn fd0 k k1" using fd_laws_create(1) [OF fds, of "uint AF_INET" "uint (SOCK_DGRAM OR SOCK_NONBLOCK)" IPPROTO_UDP k] by (simp add: 1)
  from creatingD [OF this] assms i sub show ?thesis
    by (auto simp: create_broadcast_socket_def 1 2 3 Let_def split: if_splits
        intro: kern_ok_maybe_closed [of k1 k fd0] kern_ok_maybe_closed [of k2 k fd0] kern_ok_maybe_closed [of k3 k fd0])
      (simp_all add: kern_ok_def)
qed

lemma kern_ok_netlink:
  assumes "create_netlink_socket K k = (fd, k')"
  shows "kern_ok k k'"
proof -
  obtain fd0 k1 where 1: "k_socket K AF_NETLINK (uint (SOCK_RAW OR SOCK_NONBLOCK)) NETLINK_ROUTE k = (fd0, k1)"
    by force
  obtain r2 k2 where 2: "k_bind K fd0 (Netlink RTMGRP_LINK (k_getpid K k1)) k1 = (r2, k2)" by force
  have "k1 = snd (k_socket K AF_NETLINK (uint (SOCK_RAW OR SOCK_NONBLOCK)) NETLINK_ROUTE k)"
    "k2 = snd (k_bind K fd0 (Netlink RTMGRP_LINK (k_getpid K k1)) k1)" by (simp_all add: 1 2)
  then have i: "interest k1 = interest k" "interest k2 = interest k" by simp_all
  from create_netlink_no_leak [OF fds assms] have sub: "opn k \<subseteq> opn k'" by (auto split: if_splits)
  have "creating opn fd0 k k1" using fd_laws_create(1) [OF fds, of AF_NETLINK "uint (SOCK_RAW OR SOCK_NONBLOCK)" NETLINK_ROUTE k] by (simp add: 1)
  then have "fd0 \<ge> 0 \<Longrightarrow> fd0 \<notin> opn k" by (simp add: creating_def)
  with assms i sub show ?thesis
    by (auto simp: create_netlink_socket_def 1 2 Let_def split: if_splits
        intro: kern_ok_maybe_closed [of k2 k fd0]) (simp_all add: kern_ok_def)
qed

lemma create_timer_kern:
  assumes "create_timer K sec k = (fd, k')" and "fd \<noteq> -1"
  shows "kern_ok k k'" and "fd \<notin> opn k" and "fd \<in> opn k'"
proof -
  obtain k1 where 1: "k_timerfd_create K k = (fd, k1)"
    using assms(1) by (auto simp: create_timer_def split: prod.splits)
  have k': "k' = snd (set_timer K fd sec k1)" using assms(1) by (simp add: create_timer_def 1)
  have k1: "k1 = snd (k_timerfd_create K k)" by (simp add: 1)
  have "creating opn fd k k1" using fd_laws_create(3) [OF fds, of k] by (simp add: 1)
  with assms(2) show "fd \<notin> opn k" "fd \<in> opn k'" by (auto simp: creating_def k' set_timer_def split: if_splits)
  have "opn k \<subseteq> opn k1" using creatingD [OF \<open>creating opn fd k k1\<close>] by (auto split: if_splits)
  moreover have "interest k1 = interest k" by (simp add: k1)
  ultimately show "kern_ok k k'" by (simp add: kern_ok_def k' set_timer_def)
qed

lemma Init_opn:
  assumes "Init K l k = (True, l', k')"
  shows "opn k \<subseteq> opn k'"
proof -
  have grow: "creating opn r k1 k2 \<Longrightarrow> opn k1 \<subseteq> opn k2" for r k1 k2 by (auto simp: creating_def split: if_splits)
  have ctl: "opn (snd (EpollCtl K l fd cmd ev k)) = opn k" for fd cmd ev k and l :: "'cb epoll_loop"
    by (simp add: EpollCtl_def)
  obtain h k1 where 1: "k_epoll_create1 K k = (h, k1)" by force
  obtain r k2 where 2: "k_eventfd K k1 = (r, k2)" by force
  obtain s k3 where 3: "k_eventfd K k2 = (s, k3)" by force
  obtain c k4 where 4: "k_epoll_ctl K h EPOLL_CTL_ADD r (Some (EPOLLIN, r)) k3 = (c, k4)" by force
  obtain d k5 where 5: "k_epoll_ctl K h EPOLL_CTL_ADD s (Some (EPOLLIN, s)) k4 = (d, k5)" by force
  from assms have "k' = k5" by (auto simp: Init_def EpollCtl_def 1 2 3 4 5 Let_def split: if_splits)
  moreover have "opn k \<subseteq> opn k1" "opn k1 \<subseteq> opn k2" "opn k2 \<subseteq> opn k3"
    using grow [OF fd_laws_create(4) [OF fds, of k]] grow [OF fd_laws_create(5) [OF fds, of k1]]
      grow [OF fd_laws_create(5) [OF fds, of k2]] by (simp_all add: 1 2 3)
  moreover have "opn k4 = opn k3" "opn k5 = opn k4"
    using opn_keep(8) [of h EPOLL_CTL_ADD r "Some (EPOLLIN, r)" k3] opn_keep(8) [of h EPOLL_CTL_ADD s "Some (EPOLLIN, s)" k4]
    by (simp_all add: 4 5)
  ultimately show ?thesis by auto
qed

lemma ninv_Init:
  assumes run: "on_loop (Init K) (RegisterTransport (new_node self k)) = (True, w)" and "0 \<in> opn k" and "b + 1 < 2 ^ 64"
  shows "ninv b (\<lambda>_. 0) w"
proof -
  let ?w0 = "RegisterTransport (new_node self k)"
  obtain l k' where i: "Init K new_loop k = (True, l, k')" and w: "w = ?w0\<lparr>nd_io := set_loop l k' (nd_io ?w0)\<rparr>"
    using run by (auto simp: on_loop_def RegisterTransport_def new_node_def split: prod.splits)
  have l: "fdToCallback l = []" "cancelMap l = Map.empty" "nextToken l = 1"
    using i by (auto simp: Init_def new_loop_def Let_def split: prod.splits if_splits)
  have e: "entry (nd_io w) = Map.empty" by (auto simp: w find_keeper_def l fun_eq_iff simp del: map_of_table)
  have "io_inv b (nd_io w)" using assms(3) unfolding io_inv_def by (simp add: e) (simp add: w l)
  moreover have "watched interest (nd_io w)" using watch_inv_Init [OF laws frame i] by (simp add: w)
  moreover have f: "fdToPeer w = Map.empty" "activeConns w = Map.empty" "connToFd w = Map.empty" "sendQueues w = Map.empty"
    "nd_trace w = []" "peers_inv w = peers_inv (new_node self k)"
    by (simp_all add: w RegisterTransport_def new_node_def peers_inv_def timer_def)
  moreover have "timers_open opn w" using assms(2) Init_opn [OF i] unfolding timers_open_def f(1) by (auto simp: w)
  moreover have "conns_inv opn w" by (simp add: conns_inv_def e f)
  moreover have "balanced (\<lambda>_. 0) w" by (simp add: balanced_def f opened_count_def lost_count_def)
  ultimately show ?thesis by (simp add: node_inv_def peers_inv_new_node)
qed

lemma sys_same: "sys f w = (r, w') \<Longrightarrow> f (io_kern (nd_io w)) = (r, io_kern (nd_io w')) \<and> w' = set_kern (io_kern (nd_io w')) w"
  by (auto simp: sys_def split: prod.splits)

lemma ninv_BroadcastManager_Start:
  assumes inv: "ninv (Suc (Suc (Suc b))) pend w" and run: "BroadcastManager_Start K w = Inr (True, w')"
  shows "ninv b pend w'"
proof -
  obtain fd1 w1 where 1: "sys (create_broadcast_socket K UDP_PORT) w = (fd1, w1)" by force
  let ?v1 = "w1\<lparr>broadcastFd := fd1\<rparr>"
  from run 1 obtain t1 w2 where fd1: "fd1 \<noteq> -1" and 2: "register_input K fd1 BroadcastCb ?v1 = Inr ((True, t1), w2)"
    by (auto simp: BroadcastManager_Start_def Let_def chain_eq_Inr split: if_splits)
  obtain fd2 w3 where 3: "sys (create_timer K BROADCAST_DELAY) w2 = (fd2, w3)" by force
  let ?v3 = "w3\<lparr>broadcastTimerFd := fd2\<rparr>"
  from run 1 2 3 fd1 obtain t2 w4 where fd2: "fd2 \<noteq> -1" and 4: "register_input K fd2 TimerCb ?v3 = Inr ((True, t2), w4)"
    by (auto simp: BroadcastManager_Start_def Let_def chain_eq_Inr split: if_splits)
  obtain fd3 w5 where 5: "sys (create_netlink_socket K) w4 = (fd3, w5)" by force
  let ?v5 = "w5\<lparr>netlinkFd := fd3\<rparr>"
  from run 1 2 3 4 5 fd1 fd2 obtain t3 w6 where fd3: "fd3 \<noteq> -1" and 6: "register_input K fd3 NetlinkCb ?v5 = Inr ((True, t3), w6)"
    and w': "w' = SendBroadcastHello K w6"
    by (auto simp: BroadcastManager_Start_def Let_def chain_eq_Inr split: if_splits)
  have n2: "ninv (Suc (Suc b)) pend w2"
  proof (rule ninv_install [OF inv _ _ _ _ _ 2])
    from sys_same [OF 1] have c: "create_broadcast_socket K UDP_PORT (io_kern (nd_io w)) = (fd1, io_kern (nd_io w1))" by simp
    show "kern_ok (io_kern (nd_io w)) (io_kern (nd_io w1))" by (rule kern_ok_broadcast [OF c])
    from create_broadcast_no_leak [OF fds c] fd1
    show "fd1 \<notin> opn (io_kern (nd_io w))" "fd1 \<in> opn (io_kern (nd_io w1))" by auto
    show "same_state ?v1 (set_kern (io_kern (nd_io w1)) w)"
      using sys_same [OF 1] by (simp add: same_state_def conn_part_def peer_part_def)
  qed simp
  have n4: "ninv (Suc b) pend w4"
  proof (rule ninv_install [OF n2 _ _ _ _ _ 4])
    from sys_same [OF 3] have c: "create_timer K BROADCAST_DELAY (io_kern (nd_io w2)) = (fd2, io_kern (nd_io w3))" by simp
    from create_timer_kern [OF c fd2] show "kern_ok (io_kern (nd_io w2)) (io_kern (nd_io w3))"
      "fd2 \<notin> opn (io_kern (nd_io w2))" "fd2 \<in> opn (io_kern (nd_io w3))" by auto
    show "same_state ?v3 (set_kern (io_kern (nd_io w3)) w2)"
      using sys_same [OF 3] by (simp add: same_state_def conn_part_def peer_part_def)
  qed simp
  have n6: "ninv b pend w6"
  proof (rule ninv_install [OF n4 _ _ _ _ _ 6])
    from sys_same [OF 5] have c: "create_netlink_socket K (io_kern (nd_io w4)) = (fd3, io_kern (nd_io w5))" by simp
    show "kern_ok (io_kern (nd_io w4)) (io_kern (nd_io w5))" by (rule kern_ok_netlink [OF c])
    from create_netlink_no_leak [OF fds c] fd3
    show "fd3 \<notin> opn (io_kern (nd_io w4))" "fd3 \<in> opn (io_kern (nd_io w5))" by auto
    show "same_state ?v5 (set_kern (io_kern (nd_io w5)) w4)"
      using sys_same [OF 5] by (simp add: same_state_def conn_part_def peer_part_def)
  qed simp
  show ?thesis unfolding w' by (rule ninv_SendBroadcastHello [OF n6])
qed

lemma ninv_ConnectionManager_Start:
  assumes inv: "ninv (Suc b) pend w" and run: "ConnectionManager_Start K w = Inr (True, w')"
  shows "ninv b pend w'"
proof -
  obtain fd w1 where 1: "sys (create_tcp_socket K TCP_LISTEN_PORT) w = (fd, w1)" by force
  let ?v1 = "w1\<lparr>listenFd := fd\<rparr>"
  obtain r w2 where 2: "sys (k_listen K fd 1000) ?v1 = (r, w2)" by force
  from run 1 2 obtain t where fd: "fd \<noteq> -1" and reg: "register_input K (listenFd w2) AcceptCb w2 = Inr ((True, t), w')"
    by (auto simp: ConnectionManager_Start_def Let_def chain_eq_Inr split: if_splits)
  let ?k1 = "io_kern (nd_io w1)" and ?k2 = "io_kern (nd_io w2)"
  have s1: "create_tcp_socket K TCP_LISTEN_PORT (io_kern (nd_io w)) = (fd, ?k1)" "w1 = set_kern ?k1 w"
    using sys_same [OF 1] by simp_all
  have s2: "k_listen K fd 1000 ?k1 = (r, ?k2)" "w2 = set_kern ?k2 ?v1"
    using sys_same [OF 2] by simp_all
  then have k2: "?k2 = snd (k_listen K fd 1000 ?k1)" by simp
  have l: "listenFd w2 = fd" by (subst s2(2)) simp
  show ?thesis
  proof (rule ninv_install [OF inv _ _ _ _ _ reg [unfolded l]])
    from kern_ok_tcp [OF s1(1)] show "kern_ok (io_kern (nd_io w)) ?k2" by (simp add: kern_ok_def k2)
    from create_tcp_no_leak [OF fds s1(1)] fd
    show "fd \<notin> opn (io_kern (nd_io w))" "fd \<in> opn ?k2" by (auto simp: k2)
    have "conn_part w1 = conn_part w" "peer_part w1 = peer_part w" "nd_trace w1 = nd_trace w" "nd_self w1 = nd_self w"
      by (subst s1(2), simp)+
    moreover have "nd_io w1 = (nd_io w)\<lparr>io_kern := ?k1\<rparr>" by (subst s1(2), simp)
    then have "(nd_io w1)\<lparr>io_kern := ?k2\<rparr> = (nd_io w)\<lparr>io_kern := ?k2\<rparr>" by (rule ssubst) simp
    moreover have "nd_io w2 = (nd_io w1)\<lparr>io_kern := ?k2\<rparr>" by (subst s2(2), simp)
    moreover have "conn_part w2 = conn_part w1" "peer_part w2 = peer_part w1" "nd_trace w2 = nd_trace w1" "nd_self w2 = nd_self w1"
      by (subst s2(2), simp add: conn_part_def peer_part_def)+
    ultimately show "same_state w2 (set_kern ?k2 w)" by (simp only: same_state_def set_kern_simps simp_thms)
  qed simp
qed

lemma ninv_IpTransport_Start:
  assumes run: "IpTransport_Start K (RegisterTransport (new_node self k)) = Inr (True, w)" and "0 \<in> opn k" and "b + 5 < 2 ^ 64"
  shows "ninv b (\<lambda>_. 0) w"
proof -
  obtain ok w1 where i: "on_loop (Init K) (RegisterTransport (new_node self k)) = (ok, w1)" by force
  with run obtain w2 w3 where ok: "ok" and 2: "BroadcastManager_Start K w1 = Inr (True, w2)"
    and 3: "ConnectionManager_Start K w2 = Inr (True, w3)" and w: "w = SendBroadcastHello K w3"
    by (auto simp: IpTransport_Start_def chain_eq_Inr split: if_splits)
  have "ninv (Suc (Suc (Suc (Suc b)))) (\<lambda>_. 0) w1"
    by (rule ninv_Init [OF i [unfolded ok [THEN eqTrueI]] assms(2)]) (use assms(3) in simp)
  from ninv_ConnectionManager_Start [OF ninv_BroadcastManager_Start [OF this 2] 3]
  show ?thesis unfolding w by (rule ninv_SendBroadcastHello)
qed

end

end
