(* ===== verification/Process.thy ===== *)
theory Process
  imports ProcessInv
begin

text \<open>
  What holds in every state a started process reaches, whatever the events, the commands and
  the network, and a complete run on the concrete kernel: a hello arrives, a connection is
  opened to its sender, the hello exchange succeeds, a session is reported.
\<close>

definition os_ok ::
  "'k kernel \<Rightarrow> ('k \<Rightarrow> descr \<Rightarrow> descr \<rightharpoonup> u32) \<Rightarrow> ('k \<Rightarrow> descr set) \<Rightarrow> ('k \<Rightarrow> 'k \<Rightarrow> bool) \<Rightarrow> bool" where
  "os_ok K interest opn env \<longleftrightarrow> epoll_laws K interest \<and> epoll_frame K interest \<and> fd_laws K opn
     \<and> (\<forall>k k'. env k k' \<longrightarrow> interest k' = interest k \<and> opn k' = opn k)"

text \<open>
  A process that started with descriptor 0 open and then made at most so many steps that the
  counter of tokens did not wrap, and will not before another \<open>b\<close> tokens are handed out.
\<close>

definition running_with ::
  "nat \<Rightarrow> nat \<Rightarrow> 'k kernel \<Rightarrow> ('k \<Rightarrow> descr set) \<Rightarrow> ('k \<Rightarrow> 'k \<Rightarrow> bool) \<Rightarrow> peer_id \<Rightarrow> 'k node \<Rightarrow> bool" where
  "running_with b n K opn env self w \<longleftrightarrow> (\<exists>k w0 i. 0 \<in> opn k
     \<and> IpTransport_Start K (RegisterTransport (new_node self k)) = Inr (True, w0)
     \<and> node_steps n K env w0 i w \<and> i * (4 * n + 4) + b + 5 < 2 ^ 64)"

abbreviation running ::
  "nat \<Rightarrow> 'k kernel \<Rightarrow> ('k \<Rightarrow> descr set) \<Rightarrow> ('k \<Rightarrow> 'k \<Rightarrow> bool) \<Rightarrow> peer_id \<Rightarrow> 'k node \<Rightarrow> bool" where
  "running \<equiv> running_with 0"

lemma running_mono: "running_with b n K opn env self w \<Longrightarrow> b' \<le> b \<Longrightarrow> running_with b' n K opn env self w"
  unfolding running_with_def by (meson add_le_mono1 add_left_mono le_less_trans)

lemma running_with_inv:
  assumes "os_ok K interest opn env" and "running_with b n K opn env self w"
  shows "node_inv interest opn b (\<lambda>_. 0) w"
proof -
  from assms(2) obtain k w0 i where "0 \<in> opn k"
    and st: "IpTransport_Start K (RegisterTransport (new_node self k)) = Inr (True, w0)"
    and steps: "node_steps n K env w0 i w" and "i * (4 * n + 4) + b + 5 < 2 ^ 64" by (auto simp: running_with_def)
  from assms(1) have os: "os_contract K interest opn" and env: "\<And>k k'. env k k' \<Longrightarrow> interest k' = interest k \<and> opn k' = opn k"
    by (simp_all add: os_ok_def os_contract_def)
  from os_contract.ninv_IpTransport_Start [OF os st \<open>0 \<in> opn k\<close>, of "i * (4 * n + 4) + b"] \<open>i * (4 * n + 4) + b + 5 < 2 ^ 64\<close>
  have "node_inv interest opn (i * (4 * n + 4) + b) (\<lambda>_. 0) w0" by simp
  from os_contract.ninv_node_steps [OF os env steps this] show ?thesis .
qed

lemmas running_inv = running_with_inv [where b = 0]

section \<open>A run\<close>

datatype act = Event descr u32 | Datagram "byte list" u32 | Bytes descr "byte list"

fun play :: "act list \<Rightarrow> sim node \<Rightarrow> fault + sim node" where
  "play [] w = Inr w"
| "play (Event fd ev # as) w = chain (run_event 5 sim_kernel (fd, ev) w) (\<lambda>(_, w). play as w)"
| "play (Datagram d a # as) w =
     play as (set_kern ((io_kern (nd_io w))\<lparr>sim_datagrams := sim_datagrams (io_kern (nd_io w))
       @ [(d, \<lparr>sin_family = AF_INET, sin_port = 0, sin_addr = a\<rparr>)]\<rparr>) w)"
| "play (Bytes fd bs # as) w =
     play as (set_kern ((io_kern (nd_io w))\<lparr>sim_input := (sim_input (io_kern (nd_io w)))
       (fd := sim_input (io_kern (nd_io w)) fd @ [bs])\<rparr>) w)"

definition sim_env :: "sim \<Rightarrow> sim \<Rightarrow> bool" where
  "sim_env k k' \<longleftrightarrow> sim_interest k' = sim_interest k \<and> sim_open k' = sim_open k"

lemma sim_os_ok: "os_ok sim_kernel (\<lambda>k _. sim_interest k) (\<lambda>k. set (sim_open k)) sim_env"
  by (simp add: os_ok_def sim_epoll_laws sim_epoll_frame sim_fd_laws sim_env_def)

lemma play_steps:
  "node_steps 5 sim_kernel sim_env w0 i w \<Longrightarrow> play as w = Inr w' \<Longrightarrow>
     node_steps 5 sim_kernel sim_env w0 (i + length as) w'"
proof (induction as w arbitrary: i rule: play.induct)
  case (2 fd ev as w)
  from 2(3) obtain b w1 where r: "run_event 5 sim_kernel (fd, ev) w = Inr (b, w1)" "play as w1 = Inr w'"
    by (auto simp: chain_eq_Inr)
  have "node_steps 5 sim_kernel sim_env w0 (Suc i) w1"
    by (rule node_steps.step [OF 2(2)]) (rule node_step.event [OF r(1)])
  from 2(1) [OF r(1) refl this r(2)] show ?case by simp
next
  case (3 d a as w)
  have "node_steps 5 sim_kernel sim_env w0 (Suc i) (set_kern ((io_kern (nd_io w))\<lparr>sim_datagrams := sim_datagrams (io_kern (nd_io w))
       @ [(d, \<lparr>sin_family = AF_INET, sin_port = 0, sin_addr = a\<rparr>)]\<rparr>) w)"
    by (rule node_steps.step [OF 3(2)], rule node_step.environment) (simp add: sim_env_def)
  from 3(1) [OF this] 3(3) show ?case by simp
next
  case (4 fd bs as w)
  have "node_steps 5 sim_kernel sim_env w0 (Suc i) (set_kern ((io_kern (nd_io w))\<lparr>sim_input := (sim_input (io_kern (nd_io w)))
       (fd := sim_input (io_kern (nd_io w)) fd @ [bs])\<rparr>) w)"
    by (rule node_steps.step [OF 4(2)], rule node_step.environment) (simp add: sim_env_def)
  from 4(1) [OF this] 4(3) show ?case by simp
qed simp

text \<open>
  Descriptor 6 is the broadcast socket, 10 the new peer's timer, 11 the connection to it.
\<close>

definition other_peer :: peer_id where
  "other_peer = PeerId 0 0 0 0 0 2"

definition run_acts :: "act list" where
  "run_acts =
     [Datagram (Serialize (make_hello other_peer Notify)) 0x0201A8C0, Event 6 EPOLLIN,
      Event 11 EPOLLOUT, Event 11 EPOLLOUT,
      Bytes 11 (frame (Serialize (make_hello other_peer Answer))), Event 11 EPOLLIN, Event 11 EPOLLIN,
      Bytes 11 [2, 0], Bytes 11 [0, 0, 7, 9]]"

text \<open>The state after a start as \<open>self\<close> on the kernel state \<open>k\<close> and the given acts satisfies \<open>P\<close>.\<close>

definition run_as :: "peer_id \<Rightarrow> sim \<Rightarrow> act list \<Rightarrow> (sim node \<Rightarrow> bool) \<Rightarrow> bool" where
  "run_as self k as P \<longleftrightarrow>
     (case IpTransport_Start sim_kernel (RegisterTransport (new_node self k)) of
        Inl _ \<Rightarrow> False
      | Inr (ok, w) \<Rightarrow> ok \<and> (case play as w of Inl _ \<Rightarrow> False | Inr w \<Rightarrow> P w))"

lemma run_asD:
  assumes "run_as self k as P" and "0 \<in> set (sim_open k)" and "length as \<le> 1000"
  obtains w where "running_with 1000 5 sim_kernel (\<lambda>k. set (sim_open k)) sim_env self w" and "P w"
proof -
  from assms(1) obtain w0 where st: "IpTransport_Start sim_kernel (RegisterTransport (new_node self k)) = Inr (True, w0)"
    and "case play as w0 of Inl _ \<Rightarrow> False | Inr w \<Rightarrow> P w"
    unfolding run_as_def by (cases "IpTransport_Start sim_kernel (RegisterTransport (new_node self k))") auto
  then obtain w where pl: "play as w0 = Inr w" and w: "P w" by (cases "play as w0") auto
  have "node_steps 5 sim_kernel sim_env w0 0 w0" by simp
  from play_steps [OF this pl] have "node_steps 5 sim_kernel sim_env w0 (length as) w" by simp
  with st assms(2,3) have run: "running_with 1000 5 sim_kernel (\<lambda>k. set (sim_open k)) sim_env self w"
    unfolding running_with_def by (intro exI conjI) (assumption | simp)+
  from that [OF this w] show thesis .
qed

definition run_holds :: "sim \<Rightarrow> act list \<Rightarrow> (sim node \<Rightarrow> bool) \<Rightarrow> bool" where
  "run_holds = run_as (PeerId 0 0 0 0 0 1)"

lemma run_holdsD:
  assumes "run_holds k as P" and "0 \<in> set (sim_open k)" and "length as \<le> 1000"
  obtains w where "running_with 1000 5 sim_kernel (\<lambda>k. set (sim_open k)) sim_env (PeerId 0 0 0 0 0 1) w"
    and "running 5 sim_kernel (\<lambda>k. set (sim_open k)) sim_env (PeerId 0 0 0 0 0 1) w" and "P w"
proof (rule run_asD [OF assms(1) [unfolded run_holds_def] assms(2,3)])
  fix w assume w: "running_with 1000 5 sim_kernel (\<lambda>k. set (sim_open k)) sim_env (PeerId 0 0 0 0 0 1) w" "P w"
  with running_mono [OF w(1), of 0] show thesis by (intro that) simp_all
qed

text \<open>The closure of a started \<open>RecvMessage\<close> of the reading loop.\<close>

definition start_of_frame :: "proc_cb \<Rightarrow> bool" where
  "start_of_frame p \<longleftrightarrow> pc_func p = RecvFunctor \<and> pc_resolve p = RecvLen ReadNext \<and> pc_size p = 4 \<and> pc_left p = 4
     \<and> length (pc_data p) = 4"

definition run_summary :: "sim node \<Rightarrow> bool" where
  "run_summary w \<longleftrightarrow>
     nd_trace w = [NewNeighbour 1 other_peer, SessionOpened 1 other_peer OUTGOING]
     \<and> activeConns w 11 = Some (other_peer, OUTGOING) \<and> GetAddress other_peer w = Some 0x0201A8C0
     \<and> (case entry (nd_io w) (11, EPOLLIN) of Some (ProcCb p) \<Rightarrow> start_of_frame p | _ \<Rightarrow> False)
     \<and> concat (sim_input (io_kern (nd_io w)) 11) = [2, 0, 0, 0, 7, 9]
     \<and> sendQueues w 11 = Some [] \<and> conn_for other_peer w = 11
     \<and> connToFd w (other_peer, OUTGOING) = Some 11 \<and> connToFd w (other_peer, INCOMING) = None
     \<and> removeEvent (io_loop (nd_io w)) \<noteq> 11 \<and> stopEvent (io_loop (nd_io w)) \<noteq> 11"

lemma run_summary_holds: "run_holds (sim0\<lparr>sim_ifs := [sim_if]\<rparr>) run_acts run_summary"
  by code_simp

lemma sim_run:
  obtains w where "running 5 sim_kernel (\<lambda>k. set (sim_open k)) sim_env (PeerId 0 0 0 0 0 1) w"
    and "running_with 1000 5 sim_kernel (\<lambda>k. set (sim_open k)) sim_env (PeerId 0 0 0 0 0 1) w"
    and "nd_trace w = [NewNeighbour 1 other_peer, SessionOpened 1 other_peer OUTGOING]"
    and "activeConns w 11 = Some (other_peer, OUTGOING)" and "GetAddress other_peer w = Some 0x0201A8C0"
    and "\<exists>p. entry (nd_io w) (11, EPOLLIN) = Some (ProcCb p) \<and> start_of_frame p"
    and "concat (sim_input (io_kern (nd_io w)) 11) = [2, 0, 0, 0, 7, 9]"
    and "sendQueues w 11 = Some []" "conn_for other_peer w = 11"
    and "connToFd w (other_peer, OUTGOING) = Some 11" "connToFd w (other_peer, INCOMING) = None"
    and "removeEvent (io_loop (nd_io w)) \<noteq> 11" "stopEvent (io_loop (nd_io w)) \<noteq> 11"
proof (rule run_holdsD [OF run_summary_holds])
  fix w assume "running_with 1000 5 sim_kernel (\<lambda>k. set (sim_open k)) sim_env (PeerId 0 0 0 0 0 1) w"
    and "running 5 sim_kernel (\<lambda>k. set (sim_open k)) sim_env (PeerId 0 0 0 0 0 1) w" and "run_summary w"
  then show thesis by (intro that) (auto simp: run_summary_def split: option.splits callback.splits)
qed (simp_all add: sim0_def run_acts_def)

section \<open>Properties of every state\<close>

text \<open>
  C8: the sessions a process reports are its connections. In every state of a started
  process, for every peer and direction, the transport manager has been told of as many
  opened sessions as of lost ones plus the connections that are active.
\<close>

theorem sessions_balance:
  assumes "os_ok K interest opn env" and "running n K opn env self w"
  shows "opened_count (peer, dir) (nd_trace w)
    = lost_count (peer, dir) (nd_trace w) + card {fd. activeConns w fd = Some (peer, dir)}"
  using node_invD(6) [OF running_inv [OF assms]] unfolding balanced_def by (metis add_0_right)

theorem sessions_balance_witness:
  "\<exists>w. running 5 sim_kernel (\<lambda>k. set (sim_open k)) sim_env (PeerId 0 0 0 0 0 1) w
     \<and> card {fd. activeConns w fd = Some (other_peer, OUTGOING)} = 1"
proof -
  obtain w where w: "running 5 sim_kernel (\<lambda>k. set (sim_open k)) sim_env (PeerId 0 0 0 0 0 1) w"
    and t: "nd_trace w = [NewNeighbour 1 other_peer, SessionOpened 1 other_peer OUTGOING]" by (rule sim_run) blast
  from sessions_balance [OF sim_os_ok w, of other_peer OUTGOING] w t show ?thesis
    by (auto simp: opened_count_def lost_count_def GetTransportId_def)
qed

text \<open>
  C19: the tables of the connection manager agree in every state of a started process: the
  descriptor a peer and direction lead to is active for exactly that connection, a
  descriptor has a send queue exactly while it is active, and an active descriptor is open
  and is no peer's timer.
\<close>

theorem connection_tables:
  assumes "os_ok K interest opn env" and "running n K opn env self w"
  shows "(connToFd w c = Some fd \<longrightarrow> activeConns w fd = Some c)
    \<and> (sendQueues w fd = None \<longleftrightarrow> activeConns w fd = None)
    \<and> (activeConns w fd = None \<or> fd \<in> opn (io_kern (nd_io w)) \<and> fdToPeer w fd = None)"
proof -
  note D = conns_invD [OF node_invD(5) [OF running_inv [OF assms]]]
  have "fd \<in> opn (io_kern (nd_io w)) \<and> fdToPeer w fd = None" if "activeConns w fd \<noteq> None"
    using that D(4,5) [of fd] by (force simp: system_fd_def)
  then show ?thesis using D(1) [of c fd] D(2) [of fd] by blast
qed

theorem connection_tables_witness:
  "\<exists>w. running 5 sim_kernel (\<lambda>k. set (sim_open k)) sim_env (PeerId 0 0 0 0 0 1) w
     \<and> activeConns w 11 \<noteq> None \<and> sendQueues w 11 \<noteq> None \<and> 11 \<in> set (sim_open (io_kern (nd_io w)))"
proof -
  obtain w where w: "running 5 sim_kernel (\<lambda>k. set (sim_open k)) sim_env (PeerId 0 0 0 0 0 1) w"
    and a: "activeConns w 11 = Some (other_peer, OUTGOING)" by (rule sim_run) blast
  from connection_tables [OF sim_os_ok w, of _ 11] w a show ?thesis by auto
qed

text \<open>
  C9: every operation in progress is where it belongs. In every state of a started process a
  callback of \<open>ProcData\<close> in the table is owned by its object's token; its descriptor is
  open; a hello exchange has its descriptor to itself, and the descriptor is no connection
  yet; reading happens on connections; a message is being sent only on a connection whose
  queue still holds its place, so that the queue is never popped empty.
\<close>

theorem operations_placed:
  assumes "os_ok K interest opn env" and "running n K opn env self w"
    and "entry (nd_io w) (fd, ev) = Some (ProcCb p)"
  shows "armed (nd_io w) (pc_self p) fd (stage_dir (pc_resolve p)) p \<and> ev = dir_bits (stage_dir (pc_resolve p))
    \<and> fd \<in> opn (io_kern (nd_io w))
    \<and> (case stage_goal (pc_resolve p) of
         Inl ReadNext \<Rightarrow> activeConns w fd \<noteq> None
       | Inr SendNext \<Rightarrow> (\<exists>m q. sendQueues w fd = Some (m # q))
       | _ \<Rightarrow> activeConns w fd = None \<and> (\<forall>ev'. ev' = ev \<or> entry (nd_io w) (fd, ev') = None))"
proof -
  note I = node_invD [OF running_inv [OF assms(1,2)]]
  note D = conns_invD [OF I(5)] and a = entry_armed [OF I(1) assms(3)]
  have q: "\<exists>m q. sendQueues w fd = Some (m # q)" if "activeConns w fd \<noteq> None" "sendQueues w fd \<noteq> Some []"
    using that D(2) [of fd] by (cases "sendQueues w fd") (auto simp: neq_Nil_conv)
  have r: "case goal_role (stage_goal (pc_resolve p)) of
      Handshake \<Rightarrow> activeConns w fd = None \<and> (\<forall>ev'. ev' = ev \<or> entry (nd_io w) (fd, ev') = None)
    | Reading \<Rightarrow> activeConns w fd \<noteq> None | Sending \<Rightarrow> (\<exists>m q. sendQueues w fd = Some (m # q))"
    using D(8) [OF assms(3)] q by (auto simp: role_ok_def split: role.splits)
  then have "case stage_goal (pc_resolve p) of
      Inl ReadNext \<Rightarrow> activeConns w fd \<noteq> None | Inr SendNext \<Rightarrow> (\<exists>m q. sendQueues w fd = Some (m # q))
    | _ \<Rightarrow> activeConns w fd = None \<and> (\<forall>ev'. ev' = ev \<or> entry (nd_io w) (fd, ev') = None)"
    by (cases "stage_goal (pc_resolve p)" rule: goal_role.cases) simp_all
  with a D(6) [OF assms(3)] show ?thesis by blast
qed

theorem operations_placed_witness:
  "\<exists>w p. running 5 sim_kernel (\<lambda>k. set (sim_open k)) sim_env (PeerId 0 0 0 0 0 1) w
     \<and> armed (nd_io w) (pc_self p) 11 INPUT p"
proof -
  obtain w p where w: "running 5 sim_kernel (\<lambda>k. set (sim_open k)) sim_env (PeerId 0 0 0 0 0 1) w"
    and p: "entry (nd_io w) (11, EPOLLIN) = Some (ProcCb p)" "start_of_frame p" by (rule sim_run) blast
  from operations_placed [OF sim_os_ok w p(1)] p(2) have "armed (nd_io w) (pc_self p) 11 INPUT p"
    by (simp add: stage_goal_dir start_of_frame_def)
  with w show ?thesis by blast
qed

text \<open>
  C20: in every state of a started process the tables of visible peers agree: a peer has an
  address exactly while it has a timer, no two peers share a timer, the peer an address
  leads to has that address, and the process never tracks itself.
\<close>

theorem peer_tables:
  assumes "os_ok K interest opn env" and "running n K opn env self w"
  shows "(GetAddress p w = None \<longleftrightarrow> timer w p = 0)
    \<and> (p = q \<or> timer w p = 0 \<or> timer w p \<noteq> timer w q)
    \<and> (GetPeer a w \<noteq> Some p \<or> GetAddress p w = Some a)
    \<and> GetAddress (nd_self w) w = None"
proof -
  have inv: "peers_inv w" by (rule node_invD(3) [OF running_inv [OF assms]])
  have "p = q \<or> timer w p = 0 \<or> timer w p \<noteq> timer w q"
    using inv unfolding peers_inv_def by (metis option.inject)
  moreover have "GetPeer a w \<noteq> Some p \<or> GetAddress p w = Some a"
    using inv unfolding peers_inv_def GetAddress_def GetPeer_def by blast
  moreover have t: "GetAddress r w = None \<longleftrightarrow> timer w r = 0" for r
    using inv unfolding peers_inv_def GetAddress_def by blast
  moreover have "GetAddress (nd_self w) w = None"
    using inv unfolding t peers_inv_def by blast
  ultimately show ?thesis by (intro conjI)
qed

theorem peer_tables_witness:
  "\<exists>w. running 5 sim_kernel (\<lambda>k. set (sim_open k)) sim_env (PeerId 0 0 0 0 0 1) w
     \<and> timer w other_peer \<noteq> 0"
proof -
  obtain w where w: "running 5 sim_kernel (\<lambda>k. set (sim_open k)) sim_env (PeerId 0 0 0 0 0 1) w"
    and a: "GetAddress other_peer w = Some 0x0201A8C0" by (rule sim_run) blast
  from peer_tables [OF sim_os_ok w, of other_peer] w a show ?thesis by auto
qed

text \<open>
  C21: in every state of a started process the kernel watches a descriptor for input exactly
  if it has an input callback and for output exactly if it has an output callback, and does
  not watch a descriptor without callbacks.
\<close>

theorem process_watches:
  assumes "os_ok K interest opn env" and "running n K opn env self w"
    and "l = io_loop (nd_io w)" and "fd \<noteq> removeEvent l" and "fd \<noteq> stopEvent l"
  shows "case interest (io_kern (nd_io w)) (epollHandle l) fd of
      None \<Rightarrow> find_keeper l fd EPOLLIN = None \<and> find_keeper l fd EPOLLOUT = None
    | Some ev \<Rightarrow> (ev AND EPOLLIN \<noteq> 0 \<longleftrightarrow> find_keeper l fd EPOLLIN \<noteq> None)
        \<and> (ev AND EPOLLOUT \<noteq> 0 \<longleftrightarrow> find_keeper l fd EPOLLOUT \<noteq> None)
        \<and> (find_keeper l fd EPOLLIN \<noteq> None \<or> find_keeper l fd EPOLLOUT \<noteq> None)"
proof -
  have "watched interest (nd_io w)" by (rule node_invD(2) [OF running_inv [OF assms(1,2)]])
  with assms(3-5) show ?thesis by (simp add: watched_def watch_inv_def watch_ok_meaning)
qed

theorem process_watches_witness:
  "\<exists>w ev. running 5 sim_kernel (\<lambda>k. set (sim_open k)) sim_env (PeerId 0 0 0 0 0 1) w
     \<and> sim_interest (io_kern (nd_io w)) 11 = Some ev \<and> ev AND EPOLLIN \<noteq> 0"
proof -
  obtain w where w: "running 5 sim_kernel (\<lambda>k. set (sim_open k)) sim_env (PeerId 0 0 0 0 0 1) w"
    and e: "entry (nd_io w) (11, EPOLLIN) \<noteq> None"
    and l: "removeEvent (io_loop (nd_io w)) \<noteq> 11" "stopEvent (io_loop (nd_io w)) \<noteq> 11" by (rule sim_run) blast
  from process_watches [OF sim_os_ok w refl, of 11] w e l show ?thesis
    by (auto simp: entry_def split: option.splits)
qed

end
