(* ===== verification/Progress.thy ===== *)
theory Progress
  imports Process
begin

text \<open>
  An operation in progress ends: a frame that is being sent is on the wire, and a frame in the
  stream is received, after at most as many readiness events as it has bytes, and the resolve
  call then runs. The operating system is that of \<open>os_contract\<close>, with the stream laws of
  theory \<open>Framing\<close>, and accepts an open descriptor it does not watch yet.
\<close>

section \<open>The kernel makes progress\<close>

definition add_live :: "'k kernel \<Rightarrow> ('k \<Rightarrow> descr \<Rightarrow> descr \<rightharpoonup> u32) \<Rightarrow> ('k \<Rightarrow> descr set) \<Rightarrow> bool" where
  "add_live K interest opn \<longleftrightarrow>
     (\<forall>ep fd ev k. fd \<in> opn k \<longrightarrow> interest k ep fd = None \<longrightarrow>
        fst (k_epoll_ctl K ep EPOLL_CTL_ADD fd (Some (ev, fd)) k) \<noteq> -1)"

lemma sim_add_live: "add_live sim_kernel (\<lambda>k _. sim_interest k) (\<lambda>k. set (sim_open k))"
  by (simp add: add_live_def sim_kernel_def sim_epoll_ctl_def epoll_cmd_defs)

text \<open>The descriptors of the loop itself, which no operation changes.\<close>

definition loop_fds :: "'k io \<Rightarrow> descr \<times> descr \<times> descr" where
  "loop_fds io = (epollHandle (io_loop io), removeEvent (io_loop io), stopEvent (io_loop io))"

definition plain :: "'k node \<Rightarrow> descr \<Rightarrow> bool" where
  "plain w fd \<longleftrightarrow> fd \<noteq> removeEvent (io_loop (nd_io w)) \<and> fd \<noteq> stopEvent (io_loop (nd_io w))"

lemma plain_cong: "loop_fds (nd_io w') = loop_fds (nd_io w) \<Longrightarrow> plain w' fd = plain w fd"
  by (simp add: plain_def loop_fds_def)

lemma loop_fds_simps [simp]:
  "loop_fds (io\<lparr>io_kern := k\<rparr>) = loop_fds io" "loop_fds (set_token a t io) = loop_fds io"
  "loop_fds (snd (Create fd io)) = loop_fds io" "loop_fds (io\<lparr>io_afds := g\<rparr>) = loop_fds io"
  by (simp_all add: loop_fds_def)

lemma loop_fds_Deregister [simp]: "loop_fds (Deregister K a io) = loop_fds io"
  by (auto simp: Deregister_def loop_fds_def Let_def DeregisterAction_table split: prod.split)

lemma loop_fds_Release [simp]: "loop_fds (snd (Release K a io)) = loop_fds io"
  by (simp add: Release_def Let_def)

lemma loop_fds_start_stage:
  assumes "start_stage K a func data sz st io = Inr (c, io')"
  shows "loop_fds io' = loop_fds io"
proof -
  have r: "loop_fds (set_loop l k io) = loop_fds io"
    if "RegisterAction K fd d cb t own (io_loop io) (io_kern io) = Inr (x, l, k)" for fd d cb t own x l k
    using RegisterAction_handles [OF that] by (simp add: loop_fds_def)
  have "loop_fds (set_loop l k io) = loop_fds io"
    if "ReplaceAction K t cb (io_loop io) (io_kern io) = Inr (b, l, k)" for t cb b l k
  proof (cases b)
    case True
    with that have "ReplaceAction K t cb (io_loop io) (io_kern io) = Inr (True, l, k)" by simp
    then show ?thesis by (rule ReplaceAction_True) (simp add: loop_fds_def)
  next
    case False
    with that have "ReplaceAction K t cb (io_loop io) (io_kern io) = Inr (False, l, k)" by simp
    from ReplaceAction_False [OF this] show ?thesis by (simp add: loop_fds_def)
  qed
  with assms r show ?thesis
    by (auto simp: start_stage_def ProcData_def chain_eq_Inr Let_def stage_error_def split: if_splits option.splits)
qed

lemma loop_fds_stage_ok: "stage_ok K a st buf io = Inr (c, io') \<Longrightarrow> loop_fds io' = loop_fds io"
  by (cases st) (auto simp: loop_fds_start_stage split: option.splits if_splits)

lemma loop_fds_store [simp]: "loop_fds (store_proc key p io) = loop_fds io"
  by (simp add: store_proc_def loop_fds_def split: option.split)

lemma loop_fds_advance: "proc_advance K key p len data io = Inr (c, io') \<Longrightarrow> loop_fds io' = loop_fds io"
  by (auto simp: proc_advance_def Let_def loop_fds_stage_ok split: if_splits)

lemma loop_fds_run_proc: "run_proc K key p res io = Inr (c, io') \<Longrightarrow> loop_fds io' = loop_fds io"
  by (auto simp: run_proc_def Let_def stage_error_def loop_fds_advance
      split: io_result.splits if_splits io_func.splits recv_result.splits prod.splits)

text \<open>The messages the two ends can carry: not empty, the length in 32 bits.\<close>

definition sendable :: "message \<Rightarrow> bool" where
  "sendable m \<longleftrightarrow> m \<noteq> [] \<and> length m < 2 ^ 32"

lemma send_state_unsent: "send_state wire W s p fd k \<Longrightarrow> unsent p \<noteq> []"
proof -
  assume st: "send_state wire W s p fd k"
  then have "pc_left p \<noteq> 0" "unat (pc_left p) \<le> unat (pc_size p)" "length (pc_data p) = unat (pc_size p)"
    by (simp_all add: send_state_def word_le_nat_alt)
  moreover from this(1) have "unat (pc_left p) \<noteq> 0" by (simp add: unat_eq_zero)
  ultimately show ?thesis by (simp add: unsent_def)
qed

text \<open>One readiness event for an operation in progress.\<close>

lemma run_event_proc:
  assumes "entry (nd_io w) (fd, ev) = Some (ProcCb p)" and "plain w fd" and "ev = EPOLLIN \<or> ev = EPOLLOUT"
    and "run_proc K (fd, ev) p (Ok ()) (nd_io w) = Inr (c, io')"
  shows "run_event n K (fd, ev) w =
    chain (case c of None \<Rightarrow> Inr (w\<lparr>nd_io := io'\<rparr>) | Some c \<Rightarrow> perform K (pc_self p) c (w\<lparr>nd_io := io'\<rparr>)) (\<lambda>w. Inr (False, w))"
proof -
  from assms(3) have "callbacks_of_event ev = [(ev, Ok ())]"
    by (auto simp: callbacks_of_event_def EPOLLIN_def EPOLLOUT_def EPOLLHUP_def EPOLLERR_def)
  with assms(1,2,4) show ?thesis
    by (cases c) (auto simp: run_event_def plain_def RunCallback_def run_keeper_def entry_def chain_def Let_def split: option.split sum.split)
qed

lemma armed_entry: "armed io a fd dir p \<Longrightarrow> entry io (fd, dir_bits dir) = Some (ProcCb p)"
  by (auto simp: armed_def entry_def)

section \<open>Operations make progress\<close>

text \<open>
  A message is being sent, or received, on a descriptor: \<open>W\<close> is what the wire will have carried
  when it is out; \<open>S\<close> are the bytes of the stream from the start of the awaited frame on.
\<close>

definition putting :: "('k \<Rightarrow> descr \<Rightarrow> byte list) \<Rightarrow> 'k node \<Rightarrow> descr \<Rightarrow> send_resolve \<Rightarrow> byte list \<Rightarrow> bool" where
  "putting wire w fd s W \<longleftrightarrow>
     (\<exists>p. entry (nd_io w) (fd, EPOLLOUT) = Some (ProcCb p) \<and> send_state wire W s p fd (io_kern (nd_io w)))"

definition taking :: "('k \<Rightarrow> descr \<Rightarrow> byte list) \<Rightarrow> 'k node \<Rightarrow> descr \<Rightarrow> recv_resolve \<Rightarrow> byte list \<Rightarrow> bool" where
  "taking stream w fd r S \<longleftrightarrow>
     (\<exists>p. entry (nd_io w) (fd, EPOLLIN) = Some (ProcCb p) \<and> recv_state stream S r p fd (io_kern (nd_io w)))"

lemma putting_left: "putting wire w fd s W \<Longrightarrow> length (wire (io_kern (nd_io w)) fd) < length W"
  by (auto simp: putting_def dest: send_state_left)

lemma taking_left: "taking stream w fd r (frame m @ rest) \<Longrightarrow> sendable m \<Longrightarrow> length rest < length (stream (io_kern (nd_io w)) fd)"
  by (auto simp: taking_def sendable_def dest: recv_state_unread)

text \<open>More bytes arrive.\<close>

lemma taking_more:
  assumes "taking stream w fd r S" and "stream k fd = stream (io_kern (nd_io w)) fd @ bs"
  shows "taking stream (set_kern k w) fd r (S @ bs)"
  using assms by (auto simp: taking_def recv_state_def entry_def set_kern_def)

text \<open>What neither \<open>send(2)\<close> nor the loop's own calls change.\<close>

definition silent :: "'k kernel \<Rightarrow> ('k \<Rightarrow> 'a) \<Rightarrow> bool" where
  "silent K obs \<longleftrightarrow> quiet K obs \<and> (\<forall>f bs fl k. obs (snd (k_send K f bs fl k)) = obs k)"

lemma run_proc_silent:
  assumes "silent K obs" and "pc_func p = SendFunctor u" and "run_proc K key p (Ok ()) io = Inr (c, io')"
  shows "obs (io_kern io') = obs (io_kern io)"
proof -
  from assms(1) have q: "quiet K obs" and sent: "obs (snd (k_send K f bs fl k)) = obs k" for f bs fl k
    by (simp_all add: silent_def)
  have stage: "obs (io_kern io2) = obs (io_kern io1)" if "stage_ok K a (pc_resolve p) buf io1 = Inr (c, io2)" for a buf io1 io2
    using that by (cases "pc_resolve p")
      (auto simp: quiet_Deregister [OF q] dest: quiet_start_stage [OF q] split: if_splits option.splits)
  show ?thesis
    using assms(2,3) sent quiet_Deregister [OF q]
    by (auto simp: run_proc_def proc_advance_def stage_error_def Let_def case_prod_beta dest!: stage
        split: if_splits io_result.splits)
qed

section \<open>Operations start\<close>

locale live_os = os_contract K interest opn
  for K :: "'k kernel" and interest :: "'k \<Rightarrow> descr \<Rightarrow> descr \<rightharpoonup> u32" and opn :: "'k \<Rightarrow> descr set" +
  assumes adds: "add_live K interest opn"
begin

lemma start_succeeds:
  assumes inv: "ninv (Suc b) pend w" and rdy: "ready opn w a (goal_role (stage_goal st))"
    and func: "func_dir func = stage_dir st"
    and free: "entry (nd_io w) (Get a (nd_io w), dir_bits (stage_dir st)) = None" and plain: "plain w (Get a (nd_io w))"
  shows "\<exists>io'. start_stage K a func data sz st (nd_io w) = Inr (None, io')
    \<and> armed io' a (Get a (nd_io w)) (stage_dir st)
        \<lparr>pc_self = a, pc_func = func, pc_left = sz, pc_size = sz, pc_data = data, pc_resolve = st\<rparr>"
proof -
  let ?io = "nd_io w" and ?fd = "Get a (nd_io w)"
  let ?l = "io_loop ?io" and ?k = "io_kern ?io"
  let ?d = "stage_dir st" and ?cb = "ProcCb \<lparr>pc_self = a, pc_func = func, pc_left = sz, pc_size = sz, pc_data = data, pc_resolve = st\<rparr>"
  note I = node_invD [OF inv]
  from rdy have tok: "afd_token (io_afds ?io a) = 0" and fd: "?fd \<in> opn ?k" by (auto simp: ready_def idle_object_def slot_def)
  have none: "find_keeper ?l ?fd (dir_bits ?d) = None" using free by (simp add: entry_def)
  have ok: "watch_ok (interest ?k (epollHandle ?l) ?fd) ?l ?fd"
    using I(2) plain by (simp add: watched_def watch_inv_def plain_def)
  have nz: "m OR EPOLLHUP OR EPOLLERR \<noteq> 0" for m :: u32 by (simp add: or_eq_0_iff EPOLLERR_def EPOLLHUP_def)
  obtain r l k where reg: "RegisterAction K ?fd ?d ?cb 0 (Some a) ?l ?k = Inr (r, l, k)"
    using RegisterAction_no_fault [of 0] by (metis prod_cases3)
  have "fst r"
  proof (cases "find_keeper ?l ?fd (dir_bits (GetOpposite ?d))")
    case None
    with mask_of_eq_opposite [OF none] ok have "interest ?k (epollHandle ?l) ?fd = None"
      by (auto simp: watch_ok_def split: option.splits)
    with adds fd have "k_epoll_ctl K (epollHandle ?l) EPOLL_CTL_ADD ?fd (Some (ev, ?fd)) ?k \<noteq> (-1, k')" for ev k'
      unfolding add_live_def by (metis fst_conv)
    with reg none None nz show ?thesis
      by (auto simp: RegisterAction_def Let_def EpollCtl_def split: if_splits prod.splits)
  next
    case (Some c)
    then have "mask_of ?l ?fd \<noteq> 0" by (intro mask_of_dir) auto
    with ok have "interest ?k (epollHandle ?l) ?fd \<noteq> None" by (auto simp: watch_ok_def split: option.splits)
    from epoll_laws_mod_ok [OF laws _ this] have "k_epoll_ctl K (epollHandle ?l) EPOLL_CTL_MOD ?fd (Some (ev, ?fd)) ?k \<noteq> (-1, k')" for ev k'
      by blast
    with reg none Some nz show ?thesis
      by (auto simp: RegisterAction_def Let_def EpollCtl_def split: if_splits prod.splits)
  qed
  with reg tok func obtain io' where s: "start_stage K a func data sz st ?io = Inr (None, io')"
    by (cases r) (auto simp: start_stage_def ProcData_def Let_def)
  from start_stage_idle [OF tok io_inv_fresh [OF I(1)] io_invD(2) [OF I(1)], of K func data sz st] s func
  show ?thesis by (auto simp: stage_error_def)
qed

end

locale sending_os = live_os K interest opn
  for K :: "'k kernel" and interest :: "'k \<Rightarrow> descr \<Rightarrow> descr \<rightharpoonup> u32" and opn :: "'k \<Rightarrow> descr set" +
  fixes wire :: "'k \<Rightarrow> descr \<Rightarrow> byte list"
  assumes sends: "send_laws K wire" "send_live K"
begin

lemma send_starts:
  assumes inv: "ninv (Suc b) pend w" and rdy: "ready opn w a (goal_role (Inr s))"
    and free: "entry (nd_io w) (Get a (nd_io w), EPOLLOUT) = None" and plain: "plain w (Get a (nd_io w))" and m: "sendable m"
  obtains io' where "SendMessage K a m s u (nd_io w) = Inr (True, None, io')" and "ninv b pend (w\<lparr>nd_io := io'\<rparr>)"
    and "putting wire (w\<lparr>nd_io := io'\<rparr>) (Get a (nd_io w)) s (wire (io_kern (nd_io w)) (Get a (nd_io w)) @ frame m)"
    and "loop_fds io' = loop_fds (nd_io w)" and "quiet K obs \<Longrightarrow> obs (io_kern io') = obs (io_kern (nd_io w))"
proof -
  from rdy have tok: "afd_token (io_afds (nd_io w) a) = 0" by (simp add: ready_def idle_object_def)
  from start_succeeds [OF inv, of a "SendLen u m s" "SendFunctor u" "le32 (of_nat (length m))" 4] rdy free plain
  obtain io' where st: "start_stage K a (SendFunctor u) (le32 (of_nat (length m))) 4 (SendLen u m s) (nd_io w) = Inr (None, io')"
    by auto
  have "unat (of_nat (length m) :: u32) \<noteq> 0" using m by (simp add: sendable_def unat_of_nat)
  then have pos: "(of_nat (length m) :: u32) > 0" by (metis unat_eq_zero word_gt_0)
  from st pos tok have s: "SendMessage K a m s u (nd_io w) = Inr (True, None, io')" by (simp add: SendMessage_def Let_def)
  have "can_start (nd_io w) a"
    using io_invD(2) [OF node_invD(1) [OF inv]] io_inv_fresh [OF node_invD(1) [OF inv]] tok by (simp add: can_start_def)
  from SendMessage_started [OF this s sends(1)] m obtain p where "armed io' a (Get a (nd_io w)) OUTPUT p"
    and p: "send_state wire (wire (io_kern (nd_io w)) (Get a (nd_io w)) @ frame m) s p (Get a (nd_io w)) (io_kern io')"
    by (auto simp: sendable_def)
  from armed_entry [OF this(1)] p
  have put: "putting wire (w\<lparr>nd_io := io'\<rparr>) (Get a (nd_io w)) s (wire (io_kern (nd_io w)) (Get a (nd_io w)) @ frame m)"
    by (auto simp: putting_def)
  have "start_io (SendMessage K a m s u) w = Inr (None, w\<lparr>nd_io := io'\<rparr>)" by (simp add: start_io_def s)
  from started_send [OF inv rdy this] have "ninv b pend (w\<lparr>nd_io := io'\<rparr>)" by (simp add: started_ok_def)
  with s put loop_fds_start_stage [OF st] quiet_start_stage [OF _ st, of obs] show thesis by (intro that)
qed

lemma put_event:
  assumes inv: "ninv (Suc b) pend w" and s: "putting wire w fd s W" and plain: "plain w fd"
  obtains (more) io' where "run_event n K (fd, EPOLLOUT) w = Inr (False, w\<lparr>nd_io := io'\<rparr>)" and "ninv b pend (w\<lparr>nd_io := io'\<rparr>)"
      "putting wire (w\<lparr>nd_io := io'\<rparr>) fd s W" "loop_fds io' = loop_fds (nd_io w)"
      "length (wire (io_kern (nd_io w)) fd) < length (wire (io_kern io') fd)"
      "silent K obs \<Longrightarrow> obs (io_kern io') = obs (io_kern (nd_io w))"
  | (out) io' a where "run_event n K (fd, EPOLLOUT) w = chain (perform K a (SendResolved s (Ok ())) (w\<lparr>nd_io := io'\<rparr>)) (\<lambda>w. Inr (False, w))"
      "ninv (Suc b) pend (w\<lparr>nd_io := io'\<rparr>)" "ready opn (w\<lparr>nd_io := io'\<rparr>) a (goal_role (Inr s))" "Get a io' = fd"
      "loop_fds io' = loop_fds (nd_io w)" "wire (io_kern io') fd = W" "afd_token (io_afds io' a) = 0"
      "silent K obs \<Longrightarrow> obs (io_kern io') = obs (io_kern (nd_io w))"
proof -
  from s obtain p where e: "entry (nd_io w) (fd, EPOLLOUT) = Some (ProcCb p)"
    and st: "send_state wire W s p fd (io_kern (nd_io w))" by (auto simp: putting_def)
  let ?a = "pc_self p"
  have arm: "armed (nd_io w) ?a fd OUTPUT p"
    using entry_armed [OF node_invD(1) [OF inv] e] by (cases "stage_dir (pc_resolve p)") auto
  from st obtain u where func: "pc_func p = SendFunctor u" by (auto simp: send_state_def)
  from sends(2) obtain r k1 where send: "k_send K fd (unsent p) (send_flags u) (io_kern (nd_io w)) = (r, k1)" "0 < r"
    using send_state_unsent [OF st] unfolding send_live_def by (metis prod.collapse)
  note event = run_event_proc [OF e plain, simplified]
  from sends(1) arm st func send show thesis
  proof (cases rule: send_step)
    case (more io' p')
    show thesis
    proof (rule that(1))
      show "run_event n K (fd, EPOLLOUT) w = Inr (False, w\<lparr>nd_io := io'\<rparr>)" using event [OF more(1)] by simp
      show "ninv b pend (w\<lparr>nd_io := io'\<rparr>)" by (rule run_proc_node(1) [OF node_inv_mono [OF inv] e more(1)]) simp
      show "putting wire (w\<lparr>nd_io := io'\<rparr>) fd s W" using armed_entry [OF more(2)] more(3) by (auto simp: putting_def)
      show "loop_fds io' = loop_fds (nd_io w)" by (rule loop_fds_run_proc [OF more(1)])
      show "length (wire (io_kern (nd_io w)) fd) < length (wire (io_kern io') fd)"
        using more(4) send(2) send_state_unsent [OF st] by simp
    qed (rule run_proc_silent [OF _ func more(1)])
  next
    case (finished io')
    note R = run_proc_node [OF inv e finished(1)]
    show thesis
    proof (rule that(2))
      show "run_event n K (fd, EPOLLOUT) w = chain (perform K ?a (SendResolved s (Ok ())) (w\<lparr>nd_io := io'\<rparr>)) (\<lambda>w. Inr (False, w))"
        using event [OF finished(1)] by simp
      show "ninv (Suc b) pend (w\<lparr>nd_io := io'\<rparr>)" by (rule R(1))
      show "ready opn (w\<lparr>nd_io := io'\<rparr>) ?a (goal_role (Inr s))" using R(2) [OF refl] by simp
      show "Get ?a io' = fd" "afd_token (io_afds io' ?a) = 0" using finished(2) by (simp_all add: idle_def)
      show "loop_fds io' = loop_fds (nd_io w)" by (rule loop_fds_run_proc [OF finished(1)])
      show "wire (io_kern io') fd = W" by (rule finished(3))
    qed (rule run_proc_silent [OF _ func finished(1)])
  qed
qed

text \<open>As many events as bytes are left bring the message out and run what waits for it.\<close>

lemma put_all:
  "putting wire w fd s W \<Longrightarrow> plain w fd \<Longrightarrow> ninv (i + b) pend w \<Longrightarrow> length W \<le> i + length (wire (io_kern (nd_io w)) fd) \<Longrightarrow>
     \<exists>j io' a. j \<le> i \<and> (\<forall>w'. perform K a (SendResolved s (Ok ())) (w\<lparr>nd_io := io'\<rparr>) = Inr w' \<longrightarrow>
           run_batch n K (replicate j (fd, EPOLLOUT)) w = Inr (False, w'))
       \<and> ninv (Suc b) pend (w\<lparr>nd_io := io'\<rparr>) \<and> ready opn (w\<lparr>nd_io := io'\<rparr>) a (goal_role (Inr s)) \<and> Get a io' = fd
       \<and> loop_fds io' = loop_fds (nd_io w) \<and> wire (io_kern io') fd = W
       \<and> (silent K obs \<longrightarrow> obs (io_kern io') = obs (io_kern (nd_io w)))"
proof (induction i arbitrary: w)
  case 0
  with putting_left [OF 0(1)] show ?case by simp
next
  case (Suc i)
  from Suc.prems(3) have inv: "ninv (Suc (i + b)) pend w" by simp
  from inv Suc.prems(1,2) show ?case
  proof (cases rule: put_event [where n = n and obs = obs])
    case (more io')
    let ?w = "w\<lparr>nd_io := io'\<rparr>"
    have "plain ?w fd" using Suc.prems(2) plain_cong [of ?w w] more(4) by simp
    moreover have "length W \<le> i + length (wire (io_kern (nd_io ?w)) fd)" using Suc.prems(4) more(5) by simp
    ultimately obtain j io2 a where j: "j \<le> i"
      and run: "\<forall>w'. perform K a (SendResolved s (Ok ())) (?w\<lparr>nd_io := io2\<rparr>) = Inr w' \<longrightarrow>
           run_batch n K (replicate j (fd, EPOLLOUT)) ?w = Inr (False, w')"
      and rest: "ninv (Suc b) pend (?w\<lparr>nd_io := io2\<rparr>)" "ready opn (?w\<lparr>nd_io := io2\<rparr>) a (goal_role (Inr s))" "Get a io2 = fd"
        "loop_fds io2 = loop_fds (nd_io ?w)" "wire (io_kern io2) fd = W"
      and quiet: "silent K obs \<longrightarrow> obs (io_kern io2) = obs (io_kern (nd_io ?w))"
      using Suc.IH [OF more(3) _ more(2)] by blast
    from run more(1) have "\<forall>w'. perform K a (SendResolved s (Ok ())) (w\<lparr>nd_io := io2\<rparr>) = Inr w' \<longrightarrow>
           run_batch n K (replicate (Suc j) (fd, EPOLLOUT)) w = Inr (False, w')" by simp
    with j rest quiet more(4,6) show ?thesis by (intro exI [of _ "Suc j"], intro exI [of _ io2], intro exI [of _ a]) simp
  next
    case (out io' a)
    have "ninv (Suc b) pend (w\<lparr>nd_io := io'\<rparr>)" by (rule node_inv_mono [OF out(2)]) simp
    with out show ?thesis by (intro exI [of _ 1], intro exI [of _ io'], intro exI [of _ a]) simp
  qed
qed

end

locale receiving_os = live_os K interest opn
  for K :: "'k kernel" and interest :: "'k \<Rightarrow> descr \<Rightarrow> descr \<rightharpoonup> u32" and opn :: "'k \<Rightarrow> descr set" +
  fixes stream :: "'k \<Rightarrow> descr \<Rightarrow> byte list"
  assumes receives: "recv_laws K stream" "recv_live K stream"
begin

lemma recv_starts:
  assumes inv: "ninv (Suc b) pend w" and rdy: "ready opn w a (goal_role (Inl r))"
    and free: "entry (nd_io w) (Get a (nd_io w), EPOLLIN) = None" and plain: "plain w (Get a (nd_io w))"
  obtains io' where "RecvMessage K a r (nd_io w) = Inr (True, None, io')" and "ninv b pend (w\<lparr>nd_io := io'\<rparr>)"
    and "taking stream (w\<lparr>nd_io := io'\<rparr>) (Get a (nd_io w)) r (stream (io_kern (nd_io w)) (Get a (nd_io w)))"
    and "loop_fds io' = loop_fds (nd_io w)" and "quiet K obs \<Longrightarrow> obs (io_kern io') = obs (io_kern (nd_io w))"
proof -
  from rdy have tok: "afd_token (io_afds (nd_io w) a) = 0" by (simp add: ready_def idle_object_def)
  from start_succeeds [OF inv, of a "RecvLen r" RecvFunctor "replicate 4 0" 4] rdy free plain
  obtain io' where st: "start_stage K a RecvFunctor (replicate 4 0) 4 (RecvLen r) (nd_io w) = Inr (None, io')" by auto
  from st tok have s: "RecvMessage K a r (nd_io w) = Inr (True, None, io')" by (simp add: RecvMessage_def)
  have "can_start (nd_io w) a"
    using io_invD(2) [OF node_invD(1) [OF inv]] io_inv_fresh [OF node_invD(1) [OF inv]] tok by (simp add: can_start_def)
  from RecvMessage_started [OF this s receives(1)] obtain p where "armed io' a (Get a (nd_io w)) INPUT p"
    and p: "recv_state stream (stream (io_kern (nd_io w)) (Get a (nd_io w))) r p (Get a (nd_io w)) (io_kern io')" by auto
  from armed_entry [OF this(1)] p
  have take: "taking stream (w\<lparr>nd_io := io'\<rparr>) (Get a (nd_io w)) r (stream (io_kern (nd_io w)) (Get a (nd_io w)))"
    by (auto simp: taking_def)
  have "start_io (RecvMessage K a r) w = Inr (None, w\<lparr>nd_io := io'\<rparr>)" by (simp add: start_io_def s)
  from started_recv [OF inv rdy this] have "ninv b pend (w\<lparr>nd_io := io'\<rparr>)" by (simp add: started_ok_def)
  with s take loop_fds_start_stage [OF st] quiet_start_stage [OF _ st, of obs] show thesis by (intro that)
qed

lemma take_event:
  assumes inv: "ninv (Suc b) pend w" and s: "taking stream w fd r (frame m @ rest)" and plain: "plain w fd" and m: "sendable m"
  obtains (more) io' where "run_event n K (fd, EPOLLIN) w = Inr (False, w\<lparr>nd_io := io'\<rparr>)" "ninv b pend (w\<lparr>nd_io := io'\<rparr>)"
      "taking stream (w\<lparr>nd_io := io'\<rparr>) fd r (frame m @ rest)" "loop_fds io' = loop_fds (nd_io w)"
      "length (stream (io_kern io') fd) < length (stream (io_kern (nd_io w)) fd)"
  | (got) io' a where "run_event n K (fd, EPOLLIN) w = chain (perform K a (RecvResolved r (Ok m)) (w\<lparr>nd_io := io'\<rparr>)) (\<lambda>w. Inr (False, w))"
      "ninv (Suc b) pend (w\<lparr>nd_io := io'\<rparr>)" "ready opn (w\<lparr>nd_io := io'\<rparr>) a (goal_role (Inl r))" "Get a io' = fd"
      "loop_fds io' = loop_fds (nd_io w)" "stream (io_kern io') fd = rest" "afd_token (io_afds io' a) = 0"
      "find_keeper (io_loop io') fd EPOLLIN = None" "length rest < length (stream (io_kern (nd_io w)) fd)"
proof -
  from s obtain p where e: "entry (nd_io w) (fd, EPOLLIN) = Some (ProcCb p)"
    and st: "recv_state stream (frame m @ rest) r p fd (io_kern (nd_io w))" by (auto simp: taking_def)
  let ?a = "pc_self p"
  have arm: "armed (nd_io w) ?a fd INPUT p"
    using entry_armed [OF node_invD(1) [OF inv] e] by (cases "stage_dir (pc_resolve p)") auto
  from m have m32: "length m < 2 ^ 32" by (simp add: sendable_def)
  from st have "pc_left p \<noteq> 0" by (simp add: recv_state_def)
  with recv_state_unread [OF st m32] receives(2) obtain bs k1
    where recv: "k_recv K fd (pc_left p) (io_kern (nd_io w)) = (Received bs, k1)" "bs \<noteq> []"
    unfolding recv_live_def by (metis gr_implies_not0 length_0_conv)
  have shrink: "length (stream k1 fd) < length (stream (io_kern (nd_io w)) fd)"
    using recv_lawsD(1) [OF receives(1) recv(1)] recv(2) by simp
  note event = run_event_proc [OF e plain, simplified]
  from receives(1) arm st recv show thesis
  proof (cases rule: recv_step)
    case (more io' p')
    show thesis
    proof (rule that(1))
      show "run_event n K (fd, EPOLLIN) w = Inr (False, w\<lparr>nd_io := io'\<rparr>)" using event [OF more(1)] by simp
      show "ninv b pend (w\<lparr>nd_io := io'\<rparr>)" by (rule run_proc_node(1) [OF node_inv_mono [OF inv] e more(1)]) simp
      show "taking stream (w\<lparr>nd_io := io'\<rparr>) fd r (frame m @ rest)" using armed_entry [OF more(2)] more(3) by (auto simp: taking_def)
      show "loop_fds io' = loop_fds (nd_io w)" by (rule loop_fds_run_proc [OF more(1)])
      show "length (stream (io_kern io') fd) < length (stream (io_kern (nd_io w)) fd)" using more(4) shrink by simp
    qed
  next
    case (finished io' m')
    from frame_inject [OF finished(3) m32 finished(5)] have m': "m' = m" "stream k1 fd = rest" by simp_all
    note R = run_proc_node [OF inv e finished(1)]
    show thesis
    proof (rule that(2))
      show "run_event n K (fd, EPOLLIN) w = chain (perform K ?a (RecvResolved r (Ok m)) (w\<lparr>nd_io := io'\<rparr>)) (\<lambda>w. Inr (False, w))"
        using event [OF finished(1)] m' by simp
      show "ninv (Suc b) pend (w\<lparr>nd_io := io'\<rparr>)" by (rule R(1))
      show "ready opn (w\<lparr>nd_io := io'\<rparr>) ?a (goal_role (Inl r))" using R(2) [OF refl] by simp
      show "Get ?a io' = fd" "afd_token (io_afds io' ?a) = 0" "find_keeper (io_loop io') fd EPOLLIN = None"
        using finished(2) by (simp_all add: idle_def)
      show "loop_fds io' = loop_fds (nd_io w)" by (rule loop_fds_run_proc [OF finished(1)])
      show "stream (io_kern io') fd = rest" using finished(6) m'(2) by simp
      show "length rest < length (stream (io_kern (nd_io w)) fd)" using shrink m'(2) by simp
    qed
  next
    case empty
    have "take 4 (frame m @ rest) = le32 (of_nat (length m))" by (simp add: frame_def)
    with empty(2) have "(of_nat (length m) :: u32) = 0" by (simp add: len32.enc_inject)
    then have "unat (of_nat (length m) :: u32) = 0" by simp
    with m show ?thesis by (simp add: sendable_def unat_of_nat)
  qed
qed

lemma take_all:
  "taking stream w fd r (frame m @ rest) \<Longrightarrow> sendable m \<Longrightarrow> plain w fd \<Longrightarrow>
     ninv (length (stream (io_kern (nd_io w)) fd) + b) pend w \<Longrightarrow>
     \<exists>j io' a. j \<le> length (stream (io_kern (nd_io w)) fd)
       \<and> (\<forall>w'. perform K a (RecvResolved r (Ok m)) (w\<lparr>nd_io := io'\<rparr>) = Inr w' \<longrightarrow>
           run_batch n K (replicate j (fd, EPOLLIN)) w = Inr (False, w'))
       \<and> ninv (Suc b) pend (w\<lparr>nd_io := io'\<rparr>) \<and> ready opn (w\<lparr>nd_io := io'\<rparr>) a (goal_role (Inl r)) \<and> Get a io' = fd
       \<and> loop_fds io' = loop_fds (nd_io w) \<and> stream (io_kern io') fd = rest"
proof (induction "length (stream (io_kern (nd_io w)) fd)" arbitrary: w rule: less_induct)
  case less
  let ?j = "length (stream (io_kern (nd_io w)) fd)"
  from taking_left [OF less.prems(1,2)] have "0 < ?j" by linarith
  then obtain i where i: "?j = Suc i" by (metis gr0_implies_Suc)
  with less.prems(4) have inv: "ninv (Suc (i + b)) pend w" by simp
  from inv less.prems(1,3,2) show ?case
  proof (cases rule: take_event [where n = n])
    case (more io')
    let ?w = "w\<lparr>nd_io := io'\<rparr>"
    have short: "length (stream (io_kern (nd_io ?w)) fd) < ?j" using more(5) by simp
    have "plain ?w fd" using less.prems(3) plain_cong [of ?w w] more(4) by simp
    moreover have "ninv (length (stream (io_kern (nd_io ?w)) fd) + b) pend ?w"
      by (rule node_inv_mono [OF more(2)]) (use short i in simp)
    ultimately obtain j io2 a where j: "j \<le> length (stream (io_kern (nd_io ?w)) fd)"
      and run: "\<forall>w'. perform K a (RecvResolved r (Ok m)) (?w\<lparr>nd_io := io2\<rparr>) = Inr w' \<longrightarrow>
           run_batch n K (replicate j (fd, EPOLLIN)) ?w = Inr (False, w')"
      and rest: "ninv (Suc b) pend (?w\<lparr>nd_io := io2\<rparr>)" "ready opn (?w\<lparr>nd_io := io2\<rparr>) a (goal_role (Inl r))" "Get a io2 = fd"
        "loop_fds io2 = loop_fds (nd_io ?w)" "stream (io_kern io2) fd = rest"
      using less.hyps [OF short more(3) less.prems(2)] by blast
    from run more(1) have "\<forall>w'. perform K a (RecvResolved r (Ok m)) (w\<lparr>nd_io := io2\<rparr>) = Inr w' \<longrightarrow>
           run_batch n K (replicate (Suc j) (fd, EPOLLIN)) w = Inr (False, w')" by simp
    with j rest more(4,5) show ?thesis by (intro exI [of _ "Suc j"], intro exI [of _ io2], intro exI [of _ a]) simp
  next
    case (got io' a)
    have "ninv (Suc b) pend (w\<lparr>nd_io := io'\<rparr>)" by (rule node_inv_mono [OF got(2)]) simp
    moreover have "stream (io_kern (nd_io w)) fd \<noteq> []" using i by auto
    ultimately show ?thesis using got by (intro exI [of _ 1], intro exI [of _ io'], intro exI [of _ a]) simp
  qed
qed

end

end
