(* ===== verification/Delivery.thy ===== *)
theory Delivery
  imports Progress
begin

text \<open>
  Progress of an established connection: queued messages reach the wire, one frame after the
  other in the order of the calls, as the descriptor becomes writable; the frames of the
  incoming stream are handed to the manager, in order, as it becomes readable.
\<close>

section \<open>A connection that sends\<close>

text \<open>
  The first message of the queue is being sent; when it is out the wire will have carried
  \<open>W\<close>, and \<open>ms\<close> are the messages behind it.
\<close>

definition sending :: "('k \<Rightarrow> descr \<Rightarrow> byte list) \<Rightarrow> 'k node \<Rightarrow> descr \<Rightarrow> byte list \<Rightarrow> message list \<Rightarrow> bool" where
  "sending wire w fd W ms \<longleftrightarrow>
     (\<exists>p m. entry (nd_io w) (fd, EPOLLOUT) = Some (ProcCb p) \<and> send_state wire W SendNext p fd (io_kern (nd_io w))
        \<and> sendQueues w fd = Some (m # ms))"

lemma sending_putting: "sending wire w fd W ms \<longleftrightarrow> putting wire w fd SendNext W \<and> (\<exists>m. sendQueues w fd = Some (m # ms))"
  by (auto simp: sending_def putting_def)

definition frames :: "message list \<Rightarrow> byte list" where
  "frames ms = concat (map frame ms)"

lemma frames_simps [simp]: "frames [] = []" "frames (m # ms) = frame m @ frames ms" "frames (ms @ ms') = frames ms @ frames ms'"
  by (simp_all add: frames_def)

text \<open>Only the part of the loop and the queues changed.\<close>

definition queue_step :: "'k node \<Rightarrow> 'k node \<Rightarrow> bool" where
  "queue_step w w' \<longleftrightarrow> w' = w\<lparr>nd_io := nd_io w', sendQueues := sendQueues w'\<rparr> \<and> loop_fds (nd_io w') = loop_fds (nd_io w)"

lemma queue_stepD:
  assumes "queue_step w w'"
  shows "activeConns w' = activeConns w" "connToFd w' = connToFd w" "nd_trace w' = nd_trace w" "plain w' fd = plain w fd"
    "conn_for peer w' = conn_for peer w"
proof -
  from assms have w: "w' = w\<lparr>nd_io := nd_io w', sendQueues := sendQueues w'\<rparr>" by (simp add: queue_step_def)
  show "activeConns w' = activeConns w" "nd_trace w' = nd_trace w" by (subst w; simp)+
  show c: "connToFd w' = connToFd w" by (subst w) simp
  show "conn_for peer w' = conn_for peer w" by (simp add: conn_for_def c split: option.split)
  show "plain w' fd = plain w fd" using assms by (intro plain_cong) (simp only: queue_step_def)
qed

lemma queue_step_trans: "queue_step w w1 \<Longrightarrow> queue_step w1 w2 \<Longrightarrow> queue_step w w2"
  by (cases w; cases w1; cases w2) (auto simp: queue_step_def)

section \<open>Sending\<close>

context sending_os
begin

lemma SendMessageFd_live:
  assumes inv: "ninv (Suc b) pend w" and slot: "slot opn w fd Sending" and plain: "plain w fd"
    and q: "sendQueues w fd = Some (m # ms)" and m: "sendable m"
  shows "\<exists>w'. SendMessageFd K fd w = Inr w' \<and> ninv b pend w' \<and> queue_step w w'
    \<and> sending wire w' fd (wire (io_kern (nd_io w)) fd @ frame m) ms
    \<and> wire (io_kern (nd_io w')) fd = wire (io_kern (nd_io w)) fd"
proof -
  let ?a = "io_next (nd_io w)" and ?w = "w\<lparr>nd_io := snd (Create fd (nd_io w))\<rparr>"
  let ?w1 = "?w\<lparr>sendQueues := (sendQueues ?w)(fd \<mapsto> [] # ms)\<rparr>"
  note C = create_ready [OF inv slot]
  have n1: "ninv (Suc b) pend ?w1" by (rule ninv_queue [OF C(1)]) (simp_all add: q)
  have r1: "ready opn ?w1 ?a (goal_role (Inr SendNext))" using C(2) by (simp add: ready_def slot_def system_fd_def)
  have G: "Get ?a (nd_io ?w1) = fd" by simp
  have free: "entry (nd_io ?w1) (Get ?a (nd_io ?w1), EPOLLOUT) = None" using r1 by (simp add: ready_def slot_def)
  have "plain ?w1 (Get ?a (nd_io ?w1))" using plain by (simp add: plain_def)
  from send_starts [OF n1 r1 free this m, of True "\<lambda>k. wire k fd", unfolded G]
  obtain io' where s: "SendMessage K ?a m SendNext True (nd_io ?w1) = Inr (True, None, io')" "ninv b pend (?w1\<lparr>nd_io := io'\<rparr>)"
    "putting wire (?w1\<lparr>nd_io := io'\<rparr>) fd SendNext (wire (io_kern (nd_io w)) fd @ frame m)" "loop_fds io' = loop_fds (nd_io w)"
    "wire (io_kern io') fd = wire (io_kern (nd_io w)) fd" using send_laws_quiet [OF sends(1)] by auto
  have "SendMessageFd K fd w = Inr (?w1\<lparr>nd_io := io'\<rparr>)"
    using s(1) q by (simp add: SendMessageFd.simps [of K fd w] on_io_Create take_front_def start_io_def)
  moreover have "queue_step w (?w1\<lparr>nd_io := io'\<rparr>)" using s(4) by (simp add: queue_step_def)
  ultimately show ?thesis using s(2,3,5) by (auto simp: sending_putting)
qed

lemma sent_event:
  assumes inv: "ninv (Suc b) pend w" and s: "sending wire w fd W ms" and plain: "plain w fd" and ms: "list_all sendable ms"
  shows "\<exists>w'. run_event n K (fd, EPOLLOUT) w = Inr (False, w') \<and> ninv b pend w' \<and> queue_step w w'
    \<and> (sending wire w' fd W ms \<and> length (wire (io_kern (nd_io w)) fd) < length (wire (io_kern (nd_io w')) fd)
       \<or> wire (io_kern (nd_io w')) fd = W
         \<and> (case ms of [] \<Rightarrow> sendQueues w' fd = Some [] | m # ms' \<Rightarrow> sending wire w' fd (W @ frame m) ms'))"
proof -
  from s obtain m0 where put: "putting wire w fd SendNext W" and q: "sendQueues w fd = Some (m0 # ms)"
    by (auto simp: sending_putting)
  from inv put plain show ?thesis
  proof (cases rule: put_event [where n = n and obs = "\<lambda>k. wire k fd"])
    case (more io')
    moreover have "queue_step w (w\<lparr>nd_io := io'\<rparr>)" using more(4) by (simp add: queue_step_def)
    ultimately show ?thesis using q by (auto simp: sending_putting)
  next
    case (out io' a)
    let ?v = "w\<lparr>nd_io := io'\<rparr>"
    have slot: "slot opn ?v fd Sending" using out(3,4) by (simp add: ready_def)
    let ?v1 = "?v\<lparr>sendQueues := (sendQueues ?v)(fd \<mapsto> ms)\<rparr>"
    let ?v2 = "?v1\<lparr>nd_io := snd (Release K a (nd_io ?v1))\<rparr>"
    have n1: "ninv (Suc b) pend ?v1" by (rule ninv_queue [OF out(2)]) (use q slot in \<open>simp_all add: slot_def\<close>)
    have n2: "ninv (Suc b) pend ?v2" by (rule release_node(1) [OF n1])
    have act: "activeConns w fd \<noteq> None" using slot by (simp add: slot_def)
    have kern: "io_kern (nd_io ?v2) = io_kern io'" using out(7) by (simp add: Release_def)
    have step: "queue_step w ?v2" using out(5) by (simp add: queue_step_def)
    have "sent_cb K a ?v = (if ms \<noteq> [] then SendMessageFd K fd ?v2 else Inr ?v2)"
      using act q out(4) by (auto simp: sent_cb.simps [of K a ?v] sent_pop_def on_io_Release)
    with out(1) have run: "run_event n K (fd, EPOLLOUT) w =
        chain (if ms \<noteq> [] then SendMessageFd K fd ?v2 else Inr ?v2) (\<lambda>w. Inr (False, w))"
      by (simp add: perform_def)
    show ?thesis
    proof (cases ms)
      case Nil
      have "ninv b pend ?v2" by (rule node_inv_mono [OF n2]) simp
      with Nil run step kern out(6) show ?thesis by auto
    next
      case (Cons m ms')
      have "slot opn ?v1 fd Sending" using slot Cons by (simp add: slot_def system_fd_def)
      then have slot2: "slot opn ?v2 fd Sending" by (rule release_node(2) [OF n1])
      have "plain ?v2 fd" using plain queue_stepD(4) [OF step] by simp
      from SendMessageFd_live [OF n2 slot2 this, of m ms'] Cons ms
      obtain w' where w': "SendMessageFd K fd ?v2 = Inr w'" "ninv b pend w'" "queue_step ?v2 w'"
        "sending wire w' fd (wire (io_kern (nd_io ?v2)) fd @ frame m) ms'"
        "wire (io_kern (nd_io w')) fd = wire (io_kern (nd_io ?v2)) fd" by auto
      with kern out(6) have "sending wire w' fd (W @ frame m) ms'" "wire (io_kern (nd_io w')) fd = W" by simp_all
      with w'(1-3) Cons run queue_step_trans [OF step w'(3)] show ?thesis by auto
    qed
  qed
qed

text \<open>Readiness of a connection with nothing to send runs no callback.\<close>

lemma idle_event:
  assumes inv: "ninv b pend w" and act: "activeConns w fd = Some c" and q: "sendQueues w fd = Some []" and plain: "plain w fd"
  shows "run_event n K (fd, EPOLLOUT) w = Inr (False, w)"
proof -
  have "find_keeper (io_loop (nd_io w)) fd EPOLLOUT = None"
    using quiet_output [OF inv act q] by (simp add: entry_def)
  moreover have "callbacks_of_event EPOLLOUT = [(EPOLLOUT, Ok ())]"
    by (simp add: callbacks_of_event_def EPOLLIN_def EPOLLOUT_def EPOLLHUP_def EPOLLERR_def)
  ultimately show ?thesis using plain by (simp add: run_event_def plain_def RunCallback_def)
qed

lemma idle_batch:
  assumes "ninv b pend w" and "activeConns w fd = Some c" and "sendQueues w fd = Some []" and "plain w fd"
  shows "run_batch n K (replicate i (fd, EPOLLOUT)) w = Inr (False, w)"
  by (induction i) (simp_all add: idle_event [OF assms])

lemma queue_drains:
  assumes act: "activeConns w fd = Some c"
  shows "sending wire w fd W ms \<Longrightarrow> list_all sendable ms \<Longrightarrow> plain w fd \<Longrightarrow> ninv (i + b) pend w \<Longrightarrow>
     length (W @ frames ms) \<le> i + length (wire (io_kern (nd_io w)) fd) \<Longrightarrow>
     \<exists>w'. run_batch n K (replicate i (fd, EPOLLOUT)) w = Inr (False, w') \<and> ninv b pend w' \<and> queue_step w w'
       \<and> wire (io_kern (nd_io w')) fd = W @ frames ms \<and> sendQueues w' fd = Some []"
  using act
proof (induction i arbitrary: w W ms)
  case 0
  then show ?case by (auto simp: sending_def dest: send_state_left)
next
  case (Suc i)
  from Suc.prems(4) have inv: "ninv (Suc (i + b)) pend w" by simp
  from Suc.prems(1) have left: "length (wire (io_kern (nd_io w)) fd) < length W"
    by (auto simp: sending_def dest: send_state_left)
  from sent_event [OF inv Suc.prems(1,3,2)] obtain w1 where w1: "run_event n K (fd, EPOLLOUT) w = Inr (False, w1)"
    "ninv (i + b) pend w1" "queue_step w w1" and progress: "sending wire w1 fd W ms
      \<and> length (wire (io_kern (nd_io w)) fd) < length (wire (io_kern (nd_io w1)) fd)
     \<or> wire (io_kern (nd_io w1)) fd = W
      \<and> (case ms of [] \<Rightarrow> sendQueues w1 fd = Some [] | m # ms' \<Rightarrow> sending wire w1 fd (W @ frame m) ms')" by blast
  note Q = queue_stepD [OF w1(3)]
  have p1: "plain w1 fd" and a1: "activeConns w1 fd = Some c" using Suc.prems(3,6) Q by simp_all
  consider (more) W' ms' where "sending wire w1 fd W' ms'" "list_all sendable ms'" "W' @ frames ms' = W @ frames ms"
      "length (wire (io_kern (nd_io w)) fd) < length (wire (io_kern (nd_io w1)) fd)"
    | (out) "sendQueues w1 fd = Some []" "wire (io_kern (nd_io w1)) fd = W" "ms = []"
    using progress Suc.prems(2) left by (cases ms) auto
  then show ?case
  proof cases
    case (more W' ms')
    have "length (W' @ frames ms') \<le> i + length (wire (io_kern (nd_io w1)) fd)"
      unfolding more(3) using more(4) Suc.prems(5) by linarith
    from Suc.IH [OF more(1,2) p1 w1(2) this a1] more(3) show ?thesis
      using w1(1) queue_step_trans [OF w1(3)] by (auto simp del: append_assoc)
  next
    case out
    have "ninv b pend w1" by (rule node_inv_mono [OF w1(2)]) simp
    with idle_batch [OF w1(2) a1 out(1) p1] w1(1,3) out show ?thesis by simp
  qed
qed

text \<open>Queueing behind a message that is being sent, and on an idle connection.\<close>

lemma queue_more:
  assumes inv: "ninv (Suc b) pend w" and s: "sending wire w fd W ms" and fd: "conn_for peer w = fd" "fd \<noteq> -1"
  shows "\<exists>w'. conn_SendMessage K peer m w = Inr w' \<and> ninv b pend w' \<and> queue_step w w'
    \<and> sending wire w' fd W (ms @ [m]) \<and> wire (io_kern (nd_io w')) fd = wire (io_kern (nd_io w)) fd"
proof -
  from s obtain m0 where q: "sendQueues w fd = Some (m0 # ms)" by (auto simp: sending_def)
  let ?w' = "w\<lparr>sendQueues := (sendQueues w)(fd \<mapsto> (m0 # ms) @ [m])\<rparr>"
  have run: "conn_SendMessage K peer m w = Inr ?w'" using fd q by (simp add: conn_SendMessage_def)
  have "queue_step w ?w'" by (simp add: queue_step_def)
  moreover have "sending wire ?w' fd W (ms @ [m])" using s q by (auto simp: sending_def)
  ultimately show ?thesis using run ninv_conn_SendMessage [OF inv run] by auto
qed

lemma queue_first:
  assumes inv: "ninv (Suc b) pend w" and act: "activeConns w fd = Some c" and q: "sendQueues w fd = Some []"
    and fd: "conn_for peer w = fd" "fd \<noteq> -1" and plain: "plain w fd" and m: "sendable m"
  shows "\<exists>w'. conn_SendMessage K peer m w = Inr w' \<and> ninv b pend w' \<and> queue_step w w'
    \<and> sending wire w' fd (wire (io_kern (nd_io w)) fd @ frame m) [] \<and> wire (io_kern (nd_io w')) fd = wire (io_kern (nd_io w)) fd"
proof -
  let ?v = "w\<lparr>sendQueues := (sendQueues w)(fd \<mapsto> [m])\<rparr>"
  have run: "conn_SendMessage K peer m w = SendMessageFd K fd ?v" using fd q by (simp add: conn_SendMessage_def)
  have n: "ninv (Suc b) pend ?v" by (rule ninv_queue [OF inv q]) simp
  have "slot opn ?v fd Sending"
    using slot_reading [OF inv act] act quiet_output [OF inv act q] by (simp add: slot_def system_fd_def)
  from SendMessageFd_live [OF n this _ _ m, of "[]"] plain obtain w' where w': "SendMessageFd K fd ?v = Inr w'"
    "ninv b pend w'" "queue_step ?v w'" "sending wire w' fd (wire (io_kern (nd_io w)) fd @ frame m) []"
    "wire (io_kern (nd_io w')) fd = wire (io_kern (nd_io w)) fd" by (auto simp: plain_def)
  have "queue_step w ?v" by (simp add: queue_step_def)
  from queue_step_trans [OF this w'(3)] w' run show ?thesis by auto
qed

end

interpretation sim_sending: sending_os sim_kernel "\<lambda>k _. sim_interest k" "\<lambda>k. set (sim_open k)" sim_wire
  by unfold_locales (rule sim_add_live sim_send_laws sim_send_live)+

text \<open>The transport is given the messages one after the other.\<close>

fun send_all :: "'k kernel \<Rightarrow> peer_id \<Rightarrow> message list \<Rightarrow> 'k node \<Rightarrow> fault + 'k node" where
  "send_all K peer [] w = Inr w"
| "send_all K peer (m # ms) w = chain (transport_SendMessage K peer m w) (send_all K peer ms)"

context sending_os
begin

lemma queue_all:
  "sending wire w fd W ms0 \<Longrightarrow> ninv (length ms + b) pend w \<Longrightarrow> conn_for peer w = fd \<Longrightarrow> fd \<noteq> -1 \<Longrightarrow>
     \<exists>w'. send_all K peer ms w = Inr w' \<and> ninv b pend w' \<and> queue_step w w' \<and> sending wire w' fd W (ms0 @ ms)
       \<and> wire (io_kern (nd_io w')) fd = wire (io_kern (nd_io w)) fd"
proof (induction ms arbitrary: w ms0)
  case Nil
  then show ?case by (auto simp: queue_step_def)
next
  case (Cons m ms)
  from Cons.prems(2) have "ninv (Suc (length ms + b)) pend w" by simp
  from queue_more [OF this Cons.prems(1,3,4)] obtain w1 where w1: "conn_SendMessage K peer m w = Inr w1"
    "ninv (length ms + b) pend w1" "queue_step w w1" "sending wire w1 fd W (ms0 @ [m])"
    "wire (io_kern (nd_io w1)) fd = wire (io_kern (nd_io w)) fd" by blast
  have "conn_for peer w1 = fd" using Cons.prems(3) queue_stepD(5) [OF w1(3)] by simp
  from Cons.IH [OF w1(4,2) this Cons.prems(4)] w1(1,5) queue_step_trans [OF w1(3)] show ?case
    by (auto simp: transport_SendMessage_def)
qed

lemma sent_in_order:
  assumes inv: "ninv (length ms + length (frames ms)) pend w" and fd: "conn_for peer w = fd" "fd \<noteq> -1"
    and q: "sendQueues w fd = Some []" and plain: "plain w fd" and ms: "list_all sendable ms"
  shows "\<exists>w1 w2. send_all K peer ms w = Inr w1
    \<and> run_batch n K (replicate (length (frames ms)) (fd, EPOLLOUT)) w1 = Inr (False, w2)
    \<and> wire (io_kern (nd_io w2)) fd = wire (io_kern (nd_io w)) fd @ frames ms
    \<and> sendQueues w2 fd = Some [] \<and> nd_trace w2 = nd_trace w \<and> activeConns w2 = activeConns w"
proof (cases ms)
  case Nil
  with q show ?thesis by simp
next
  case (Cons m ms')
  from conns_invD(2) [OF node_invD(5) [OF inv], of fd] q obtain c where act: "activeConns w fd = Some c" by auto
  from inv Cons have "ninv (Suc (length ms' + length (frames ms))) pend w" by simp
  from queue_first [OF this act q fd plain] Cons ms obtain v where v: "conn_SendMessage K peer m w = Inr v"
    "ninv (length ms' + length (frames ms)) pend v" "queue_step w v"
    "sending wire v fd (wire (io_kern (nd_io w)) fd @ frame m) []" "wire (io_kern (nd_io v)) fd = wire (io_kern (nd_io w)) fd"
    by auto
  have "conn_for peer v = fd" using fd(1) queue_stepD(5) [OF v(3)] by simp
  from queue_all [OF v(4,2) this fd(2)] v(5) obtain w1 where w1: "send_all K peer ms' v = Inr w1"
    "ninv (length (frames ms) + 0) pend w1" "queue_step v w1"
    "sending wire w1 fd (wire (io_kern (nd_io w)) fd @ frame m) ms'" "wire (io_kern (nd_io w1)) fd = wire (io_kern (nd_io w)) fd"
    by auto
  note step = queue_step_trans [OF v(3) w1(3)]
  have act1: "activeConns w1 fd = Some c" and plain1: "plain w1 fd" using act plain queue_stepD [OF step] by simp_all
  have "list_all sendable ms'" using ms Cons by simp
  from queue_drains [OF act1 w1(4) this plain1 w1(2)] w1(5) Cons
  obtain w2 where w2: "run_batch n K (replicate (length (frames ms)) (fd, EPOLLOUT)) w1 = Inr (False, w2)" "queue_step w1 w2"
    "wire (io_kern (nd_io w2)) fd = wire (io_kern (nd_io w)) fd @ frames ms" "sendQueues w2 fd = Some []" by auto
  from queue_stepD [OF queue_step_trans [OF step w2(2)]] w2 w1(1) v(1) Cons show ?thesis
    by (auto simp: transport_SendMessage_def)
qed

end

section \<open>Receiving\<close>

text \<open>A message is being read; the bytes \<open>S\<close> of the stream from the start of its frame on are read or waiting.\<close>

definition reading :: "('k \<Rightarrow> descr \<Rightarrow> byte list) \<Rightarrow> 'k node \<Rightarrow> descr \<Rightarrow> byte list \<Rightarrow> bool" where
  "reading stream w fd S \<longleftrightarrow>
     (\<exists>p. entry (nd_io w) (fd, EPOLLIN) = Some (ProcCb p) \<and> recv_state stream S ReadNext p fd (io_kern (nd_io w)))"

lemma reading_taking: "reading stream w fd S \<longleftrightarrow> taking stream w fd ReadNext S"
  by (simp add: reading_def taking_def)

context receiving_os
begin

lemma ReadMessage_live:
  assumes inv: "ninv (Suc b) pend w" and act: "activeConns w fd = Some c" and plain: "plain w fd"
    and free: "entry (nd_io w) (fd, EPOLLIN) = None"
  shows "\<exists>io'. ReadMessage K fd w = Inr (w\<lparr>nd_io := io'\<rparr>) \<and> ninv b pend (w\<lparr>nd_io := io'\<rparr>) \<and> loop_fds io' = loop_fds (nd_io w)
    \<and> reading stream (w\<lparr>nd_io := io'\<rparr>) fd (stream (io_kern (nd_io w)) fd)
    \<and> (quiet K obs \<longrightarrow> obs (io_kern io') = obs (io_kern (nd_io w)))"
proof -
  let ?a = "io_next (nd_io w)" and ?w = "w\<lparr>nd_io := snd (Create fd (nd_io w))\<rparr>"
  note C = create_ready [OF inv slot_reading [OF inv act]]
  have rdy: "ready opn ?w ?a (goal_role (Inl ReadNext))" using C(2) by simp
  have G: "Get ?a (nd_io ?w) = fd" by simp
  have "plain ?w (Get ?a (nd_io ?w))" "entry (nd_io ?w) (Get ?a (nd_io ?w), EPOLLIN) = None"
    using plain free by (simp_all add: plain_def entry_def)
  from recv_starts [OF C(1) rdy this(2,1), of obs, unfolded G]
  obtain io' where s: "RecvMessage K ?a ReadNext (nd_io ?w) = Inr (True, None, io')" "ninv b pend (?w\<lparr>nd_io := io'\<rparr>)"
    "taking stream (?w\<lparr>nd_io := io'\<rparr>) fd ReadNext (stream (io_kern (nd_io w)) fd)" "loop_fds io' = loop_fds (nd_io w)"
    "quiet K obs \<longrightarrow> obs (io_kern io') = obs (io_kern (nd_io w))" by auto
  have "ReadMessage K fd w = Inr (w\<lparr>nd_io := io'\<rparr>)" using s(1) by (simp add: ReadMessage_def on_io_Create start_io_def)
  with s show ?thesis by (intro exI [of _ io']) (simp add: reading_taking)
qed

lemma read_event:
  assumes inv: "ninv (Suc b) pend w" and act: "activeConns w fd = Some (peer, dir)" and plain: "plain w fd"
    and rd: "reading stream w fd (frame m @ rest)" and m: "sendable m"
  shows "\<exists>w'. run_event n K (fd, EPOLLIN) w = Inr (False, w') \<and> ninv b pend w' \<and> activeConns w' = activeConns w \<and> plain w' fd
    \<and> length (stream (io_kern (nd_io w')) fd) < length (stream (io_kern (nd_io w)) fd)
    \<and> (reading stream w' fd (frame m @ rest) \<and> nd_trace w' = nd_trace w
       \<or> reading stream w' fd rest \<and> nd_trace w' = nd_trace w @ [MessageReceived GetTransportId peer m])"
proof -
  from inv rd [unfolded reading_taking] plain m show ?thesis
  proof (cases rule: take_event [where n = n])
    case (more io')
    moreover have "plain (w\<lparr>nd_io := io'\<rparr>) fd" using plain more(4) plain_cong [of "w\<lparr>nd_io := io'\<rparr>" w] by simp
    ultimately show ?thesis by (auto simp: reading_taking)
  next
    case (got io' a)
    let ?v = "notify (MessageReceived GetTransportId peer m) (w\<lparr>nd_io := io'\<rparr>)"
    let ?v2 = "?v\<lparr>nd_io := snd (Release K a (nd_io ?v))\<rparr>"
    have "ninv (Suc b) pend ?v" by (rule ninv_notify [OF got(2)]) simp_all
    then have n2: "ninv (Suc b) pend ?v2" by (rule release_node(1))
    have io2: "io_loop (nd_io ?v2) = io_loop io'" "io_kern (nd_io ?v2) = io_kern io'" using got(7) by (simp_all add: Release_def)
    have lf: "loop_fds (nd_io ?v2) = loop_fds (nd_io w)" using got(5) by simp
    have "plain ?v2 fd" using plain plain_cong [OF lf] by simp
    moreover have "activeConns ?v2 fd = Some (peer, dir)" using act by simp
    moreover have "entry (nd_io ?v2) (fd, EPOLLIN) = None" using got(8) io2(1) by (simp add: entry_def)
    ultimately obtain io2 where w': "ReadMessage K fd ?v2 = Inr (?v2\<lparr>nd_io := io2\<rparr>)" "ninv b pend (?v2\<lparr>nd_io := io2\<rparr>)"
      "loop_fds io2 = loop_fds (nd_io ?v2)" "reading stream (?v2\<lparr>nd_io := io2\<rparr>) fd rest" "stream (io_kern io2) fd = rest"
      using ReadMessage_live [OF n2, of fd "(peer, dir)" "\<lambda>k. stream k fd"] recv_laws_quiet [OF receives(1)] io2(2) got(6) by metis
    let ?w' = "?v2\<lparr>nd_io := io2\<rparr>"
    have "read_cb K a (Ok m) (w\<lparr>nd_io := io'\<rparr>) = Inr ?w'"
      using act got(4) w'(1) by (simp add: read_cb_def OnMessageReceived_def on_io_Release)
    with got(1) have "run_event n K (fd, EPOLLIN) w = Inr (False, ?w')" by (simp add: perform_def)
    moreover have "plain ?w' fd" using plain plain_cong [of ?w' w] w'(3) lf by simp
    moreover have "nd_trace ?w' = nd_trace w @ [MessageReceived GetTransportId peer m]" by simp
    moreover have "activeConns ?w' = activeConns w" by simp
    moreover have "length (stream (io_kern (nd_io ?w')) fd) < length (stream (io_kern (nd_io w)) fd)"
      using got(9) w'(5) by simp
    ultimately show ?thesis using w'(2,4) by blast
  qed
qed

lemma read_in_order:
  "reading stream w fd (frames ms @ rest) \<Longrightarrow> list_all sendable ms \<Longrightarrow> activeConns w fd = Some (peer, dir) \<Longrightarrow> plain w fd \<Longrightarrow>
     ninv (length (stream (io_kern (nd_io w)) fd)) pend w \<Longrightarrow>
     \<exists>i w'. i \<le> length (stream (io_kern (nd_io w)) fd) \<and> run_batch n K (replicate i (fd, EPOLLIN)) w = Inr (False, w')
       \<and> nd_trace w' = nd_trace w @ map (MessageReceived GetTransportId peer) ms
       \<and> reading stream w' fd rest \<and> activeConns w' = activeConns w"
proof (induction "length (stream (io_kern (nd_io w)) fd)" arbitrary: w ms rule: less_induct)
  case less
  let ?j = "length (stream (io_kern (nd_io w)) fd)"
  show ?case
  proof (cases ms)
    case Nil
    with less.prems(1) show ?thesis by (intro exI [of _ 0] exI [of _ w]) simp
  next
    case (Cons m ms')
    then have rd: "reading stream w fd (frame m @ (frames ms' @ rest))" and m: "sendable m" and ms': "list_all sendable ms'"
      using less.prems(1,2) by simp_all
    from rd m have "0 < ?j" by (auto simp: reading_def sendable_def dest!: recv_state_unread)
    then have inv: "ninv (Suc (?j - 1)) pend w" using less.prems(5) by simp
    from read_event [OF inv less.prems(3,4) rd m] obtain w1 where w1: "run_event n K (fd, EPOLLIN) w = Inr (False, w1)"
      "ninv (?j - 1) pend w1" "activeConns w1 = activeConns w" "plain w1 fd" "length (stream (io_kern (nd_io w1)) fd) < ?j"
      and out: "reading stream w1 fd (frame m @ (frames ms' @ rest)) \<and> nd_trace w1 = nd_trace w
        \<or> reading stream w1 fd (frames ms' @ rest) \<and> nd_trace w1 = nd_trace w @ [MessageReceived GetTransportId peer m]"
      by blast
    have act1: "activeConns w1 fd = Some (peer, dir)" using less.prems(3) w1(3) by simp
    have inv1: "ninv (length (stream (io_kern (nd_io w1)) fd)) pend w1" by (rule node_inv_mono [OF w1(2)]) (use w1(5) in simp)
    obtain ms1 where ms1: "reading stream w1 fd (frames ms1 @ rest)" "list_all sendable ms1"
      "nd_trace w1 @ map (MessageReceived GetTransportId peer) ms1 = nd_trace w @ map (MessageReceived GetTransportId peer) ms"
      using out less.prems(2) ms' Cons that [of ms] that [of ms'] by auto
    from less.hyps [OF w1(5) ms1(1,2) act1 w1(4) inv1] obtain i w' where
      i: "i \<le> length (stream (io_kern (nd_io w1)) fd)" "run_batch n K (replicate i (fd, EPOLLIN)) w1 = Inr (False, w')"
      "nd_trace w' = nd_trace w1 @ map (MessageReceived GetTransportId peer) ms1" "reading stream w' fd rest"
      "activeConns w' = activeConns w1" by blast
    have "run_batch n K (replicate (Suc i) (fd, EPOLLIN)) w = Inr (False, w')" using w1(1) i(2) by simp
    moreover have "Suc i \<le> ?j" using i(1) w1(5) by linarith
    ultimately show ?thesis using i(3-5) ms1(3) w1(3) by metis
  qed
qed

end

interpretation sim_receiving: receiving_os sim_kernel "\<lambda>k _. sim_interest k" "\<lambda>k. set (sim_open k)"
    "\<lambda>k fd. concat (sim_input k fd)"
  by unfold_locales (rule sim_recv_laws sim_recv_live)+

section \<open>Order and delivery\<close>

lemma sending_osI:
  assumes "os_ok K interest opn env" and "add_live K interest opn" and "send_laws K wire" and "send_live K"
  shows "sending_os K interest opn wire"
  using assms by unfold_locales (simp_all add: os_ok_def)

lemma receiving_osI:
  assumes "os_ok K interest opn env" and "add_live K interest opn" and "recv_laws K stream" and "recv_live K stream"
  shows "receiving_os K interest opn stream"
  using assms by unfold_locales (simp_all add: os_ok_def)


text \<open>Messages of a length the runs below use.\<close>

lemma sim_frames: "frame [7, 9] = [2, 0, 0, 0, 7, 9]" "frame [5] = [1, 0, 0, 0, 5]"
  by (simp_all add: frame_def le32_def)


text \<open>
  C6: in every state a started process reaches, if the stream of an established connection
  holds the frames of some messages and then perhaps more, at most as many readiness events
  as there are unread bytes hand exactly those messages to the manager, in their order, and
  leave the connection reading what follows.
\<close>

theorem messages_received_in_order:
  assumes "os_ok K interest opn env" and "add_live K interest opn" and "recv_laws K stream" and "recv_live K stream"
    and "running_with (length (stream (io_kern (nd_io w)) fd)) n K opn env self w"
    and "activeConns w fd = Some (peer, dir)" and "plain w fd"
    and "reading stream w fd (frames ms @ rest)" and "list_all sendable ms"
  shows "\<exists>i w'. i \<le> length (stream (io_kern (nd_io w)) fd)
    \<and> run_batch n K (replicate i (fd, EPOLLIN)) w = Inr (False, w')
    \<and> nd_trace w' = nd_trace w @ map (MessageReceived GetTransportId peer) ms
    \<and> reading stream w' fd rest \<and> activeConns w' = activeConns w"
  by (rule receiving_os.read_in_order [OF receiving_osI [OF assms(1-4)] assms(8,9,6,7) running_with_inv [OF assms(1,5)]])

theorem messages_received_in_order_witness:
  "\<exists>w i w'. i \<le> 6 \<and> run_batch 5 sim_kernel (replicate i (11, EPOLLIN)) w = Inr (False, w')
     \<and> nd_trace w' = [NewNeighbour 1 other_peer, SessionOpened 1 other_peer OUTGOING, MessageReceived 1 other_peer [7, 9]]"
proof -
  obtain w p where w: "running_with 1000 5 sim_kernel (\<lambda>k. set (sim_open k)) sim_env (PeerId 0 0 0 0 0 1) w"
    and t: "nd_trace w = [NewNeighbour 1 other_peer, SessionOpened 1 other_peer OUTGOING]"
    and a: "activeConns w 11 = Some (other_peer, OUTGOING)" and pl: "plain w 11"
    and p: "entry (nd_io w) (11, EPOLLIN) = Some (ProcCb p)" "start_of_frame p"
    and s: "concat (sim_input (io_kern (nd_io w)) 11) = [2, 0, 0, 0, 7, 9]"
    by (rule sim_run) (auto simp: plain_def)
  have r: "running_with (length (concat (sim_input (io_kern (nd_io w)) 11))) 5 sim_kernel (\<lambda>k. set (sim_open k)) sim_env
      (PeerId 0 0 0 0 0 1) w"
    by (rule running_mono [OF w]) (simp add: s)
  have rd: "reading (\<lambda>k fd. concat (sim_input k fd)) w 11 (frames [[7, 9]] @ [])"
    using p by (auto simp: reading_def recv_state_def got_none s sim_frames start_of_frame_def)
  have ms: "list_all sendable [[7, 9]]" by (simp add: sendable_def)
  have l: "length (concat (sim_input (io_kern (nd_io w)) 11)) = 6" by (simp add: s)
  from messages_received_in_order [OF sim_os_ok sim_add_live sim_recv_laws sim_recv_live r a pl rd ms, unfolded l t]
  show ?thesis unfolding GetTransportId_def list.map append.simps by blast
qed



section \<open>A connection as a pipe of bytes\<close>

text \<open>The bytes on the wire, and those the connection has accepted and not sent yet.\<close>

definition carries :: "('k \<Rightarrow> descr \<Rightarrow> byte list) \<Rightarrow> 'k node \<Rightarrow> descr \<Rightarrow> byte list \<Rightarrow> byte list \<Rightarrow> bool" where
  "carries wire w fd d t \<longleftrightarrow> d = wire (io_kern (nd_io w)) fd \<and>
     (t = [] \<and> sendQueues w fd = Some []
      \<or> (\<exists>W ms. sending wire w fd W ms \<and> W @ frames ms = d @ t \<and> list_all sendable ms))"

context sending_os
begin

lemma pipe_push:
  assumes inv: "ninv (Suc b) pend w" and c: "carries wire w fd d t" and fd: "conn_for peer w = fd" "fd \<noteq> -1"
    and plain: "plain w fd" and m: "sendable m"
  shows "\<exists>w'. transport_SendMessage K peer m w = Inr w' \<and> carries wire w' fd d (t @ frame m)"
proof -
  from c consider "t = []" "sendQueues w fd = Some []"
    | W ms where "sending wire w fd W ms" "W @ frames ms = d @ t" "list_all sendable ms" by (auto simp: carries_def)
  then show ?thesis
  proof cases
    case 1
    from conns_invD(2) [OF node_invD(5) [OF inv], of fd] 1 obtain x where "activeConns w fd = Some x" by auto
    from queue_first [OF inv this 1(2) fd plain m] c 1 show ?thesis
      by (fastforce simp: carries_def transport_SendMessage_def)
  next
    case (2 W ms)
    from queue_more [OF inv 2(1) fd, of m] obtain w' where w': "conn_SendMessage K peer m w = Inr w'"
      "sending wire w' fd W (ms @ [m])" "wire (io_kern (nd_io w')) fd = wire (io_kern (nd_io w)) fd" by blast
    have "W @ frames (ms @ [m]) = d @ (t @ frame m)" using 2(2) by (metis append_assoc append_Nil2 frames_simps)
    moreover have "list_all sendable (ms @ [m])" using 2(3) m by simp
    ultimately have "carries wire w' fd d (t @ frame m)" using w' c unfolding carries_def by metis
    with w'(1) show ?thesis by (simp add: transport_SendMessage_def)
  qed
qed

lemma pipe_event:
  assumes inv: "ninv (Suc b) pend w" and c: "carries wire w fd d t" and act: "activeConns w fd = Some x" and plain: "plain w fd"
  shows "\<exists>w' d' t'. run_event n K (fd, EPOLLOUT) w = Inr (False, w') \<and> carries wire w' fd d' t' \<and> d' @ t' = d @ t
    \<and> (t = [] \<or> length d < length d')"
proof -
  from c consider "t = []" "sendQueues w fd = Some []"
    | W ms where "sending wire w fd W ms" "W @ frames ms = d @ t" "list_all sendable ms" by (auto simp: carries_def)
  then show ?thesis
  proof cases
    case 1
    with idle_event [OF inv act 1(2) plain, of n] c show ?thesis by blast
  next
    case (2 W ms)
    let ?d = "wire (io_kern (nd_io w)) fd"
    from c have d: "d = ?d" by (simp add: carries_def)
    from 2(1) have left: "length ?d < length W" by (auto simp: sending_def dest: send_state_left)
    from sent_event [OF inv 2(1) plain 2(3)] obtain w' where run: "run_event n K (fd, EPOLLOUT) w = Inr (False, w')"
      and progress: "sending wire w' fd W ms \<and> length ?d < length (wire (io_kern (nd_io w')) fd)
       \<or> wire (io_kern (nd_io w')) fd = W
         \<and> (case ms of [] \<Rightarrow> sendQueues w' fd = Some [] | m # ms' \<Rightarrow> sending wire w' fd (W @ frame m) ms')" by blast
    let ?d' = "wire (io_kern (nd_io w')) fd"
    have sent: "\<exists>t'. W' = ?d' @ t'" if "sending wire w' fd W' ms'" for W' ms'
      using that by (auto simp: sending_def send_state_def)
    have "\<exists>t'. carries wire w' fd ?d' t' \<and> ?d' @ t' = W @ frames ms \<and> length ?d < length ?d'"
    proof (cases "sending wire w' fd W ms \<and> length ?d < length ?d'")
      case True
      then obtain t' where t': "W = ?d' @ t'" using sent by blast
      then have "W @ frames ms = ?d' @ (t' @ frames ms)" by (metis append_assoc)
      with True 2(3) show ?thesis unfolding carries_def by metis
    next
      case False
      with progress have W: "?d' = W" and "case ms of [] \<Rightarrow> sendQueues w' fd = Some [] | m # ms' \<Rightarrow> sending wire w' fd (W @ frame m) ms'"
        by auto
      then have "carries wire w' fd ?d' (frames ms)" using 2(3) by (cases ms) (auto simp: carries_def)
      with W left show ?thesis by metis
    qed
    with run 2(2) d show ?thesis by metis
  qed
qed

end



end
