(* ===== verification/Sessions.thy ===== *)
theory Sessions
  imports Delivery
begin

text \<open>
  The life of a session: how the hello exchange ends, what closing a session does, and what
  happens to an attempt to connect that is refused.
\<close>

section \<open>Closing\<close>

context os_contract
begin

lemma CloseFD_effect:
  assumes inv: "ninv b pend w" and act: "activeConns w fd = Some c"
  shows "activeConns (CloseFD K fd w) = (activeConns w)(fd := None)"
    and "connToFd (CloseFD K fd w) = (connToFd w)(c := None)"
    and "sendQueues (CloseFD K fd w) = (sendQueues w)(fd := None)"
    and "nd_trace (CloseFD K fd w) = nd_trace w @ [SessionLost GetTransportId (fst c) (snd c)]"
    and "opn (io_kern (nd_io (CloseFD K fd w))) = opn (io_kern (nd_io w)) - {fd}"
    and "entry (nd_io (CloseFD K fd w)) (f, ev) = (if f = fd then None else entry (nd_io w) (f, ev))"
proof -
  obtain r l k where d: "DeregisterFd K fd (io_loop (nd_io w)) (io_kern (nd_io w)) = (r, l, k)"
    by (metis prod_cases3)
  have opn: "opn k = opn (io_kern (nd_io w))" by (rule quiet_DeregisterFd [OF quiet_opn d])
  note simps = CloseFD_def on_loop_def d OnLinkClosed_def act map_erase_def
  show "activeConns (CloseFD K fd w) = (activeConns w)(fd := None)" "connToFd (CloseFD K fd w) = (connToFd w)(c := None)"
    "sendQueues (CloseFD K fd w) = (sendQueues w)(fd := None)"
    "opn (io_kern (nd_io (CloseFD K fd w))) = opn (io_kern (nd_io w)) - {fd}"
    by (simp_all add: simps) (simp_all add: close_fd_def set_kern_def set_loop_def opn)
  show "nd_trace (CloseFD K fd w) = nd_trace w @ [SessionLost GetTransportId (fst c) (snd c)]"
    by (simp add: simps)
  have e: "entry (nd_io (CloseFD K fd w)) (f, ev) = map_option ck_callback (find_keeper l f ev)"
    by (simp add: simps entry_def)
  have "ev = EPOLLIN \<or> ev = EPOLLOUT" if "entry (nd_io w) (f, ev) = Some cb" for cb
    using io_invD(4) [OF node_invD(1) [OF inv] that] by (metis (full_types) dir_bits.simps io_direction.exhaust)
  then show "entry (nd_io (CloseFD K fd w)) (f, ev) = (if f = fd then None else entry (nd_io w) (f, ev))"
    unfolding e using DeregisterFd_table(1) [OF d, of f ev] by (cases "entry (nd_io w) (f, ev)") (auto simp: entry_def)
qed

lemma close_dir_effect:
  assumes inv: "ninv b pend w" and F: "F = {fd. connToFd w (peer, d) = Some fd}"
  shows "activeConns (close_dir K peer ALL_DIR d w) = activeConns w |` (- F)"
    and "connToFd (close_dir K peer ALL_DIR d w) = (connToFd w)((peer, d) := None)"
    and "sendQueues (close_dir K peer ALL_DIR d w) = sendQueues w |` (- F)"
    and "nd_trace (close_dir K peer ALL_DIR d w) = nd_trace w @
      (if connToFd w (peer, d) = None then [] else [SessionLost GetTransportId peer d])"
    and "opn (io_kern (nd_io (close_dir K peer ALL_DIR d w))) = opn (io_kern (nd_io w)) - F"
    and "entry (nd_io (close_dir K peer ALL_DIR d w)) (f, ev) = (if f \<in> F then None else entry (nd_io w) (f, ev))"
    and "ninv b pend (close_dir K peer ALL_DIR d w)"
proof -
  have "activeConns (close_dir K peer ALL_DIR d w) = activeConns w |` (- F)
    \<and> connToFd (close_dir K peer ALL_DIR d w) = (connToFd w)((peer, d) := None)
    \<and> sendQueues (close_dir K peer ALL_DIR d w) = sendQueues w |` (- F)
    \<and> nd_trace (close_dir K peer ALL_DIR d w) = nd_trace w @
      (if connToFd w (peer, d) = None then [] else [SessionLost GetTransportId peer d])
    \<and> opn (io_kern (nd_io (close_dir K peer ALL_DIR d w))) = opn (io_kern (nd_io w)) - F
    \<and> entry (nd_io (close_dir K peer ALL_DIR d w)) (f, ev) = (if f \<in> F then None else entry (nd_io w) (f, ev))
    \<and> ninv b pend (close_dir K peer ALL_DIR d w)"
  proof (cases "connToFd w (peer, d)")
    case None
    with F inv show ?thesis by (auto simp: close_dir_def)
  next
    case (Some fd)
    with F have F': "F = {fd}" by auto
    from conns_invD(1) [OF node_invD(5) [OF inv] Some] have act: "activeConns w fd = Some (peer, d)" .
    have r: "m |` (- {fd}) = m(fd := None)" for m :: "descr \<rightharpoonup> 'x" by (auto simp: fun_eq_iff restrict_map_def)
    from CloseFD_effect [OF inv act] ninv_CloseFD [OF inv act] Some show ?thesis
      by (simp add: close_dir_def F' r)
  qed
  then show "activeConns (close_dir K peer ALL_DIR d w) = activeConns w |` (- F)"
    "connToFd (close_dir K peer ALL_DIR d w) = (connToFd w)((peer, d) := None)"
    "sendQueues (close_dir K peer ALL_DIR d w) = sendQueues w |` (- F)"
    "nd_trace (close_dir K peer ALL_DIR d w) = nd_trace w @
      (if connToFd w (peer, d) = None then [] else [SessionLost GetTransportId peer d])"
    "opn (io_kern (nd_io (close_dir K peer ALL_DIR d w))) = opn (io_kern (nd_io w)) - F"
    "entry (nd_io (close_dir K peer ALL_DIR d w)) (f, ev) = (if f \<in> F then None else entry (nd_io w) (f, ev))"
    "ninv b pend (close_dir K peer ALL_DIR d w)" by blast+
qed

lemma CloseConn_effect:
  assumes inv: "ninv b pend w"
    and F: "F = {fd. connToFd w (peer, INCOMING) = Some fd \<or> connToFd w (peer, OUTGOING) = Some fd}"
    and w': "w' = CloseConn K peer ALL_DIR w"
  shows "activeConns w' = activeConns w |` (- F) \<and> sendQueues w' = sendQueues w |` (- F)
    \<and> connToFd w' = (connToFd w)((peer, INCOMING) := None, (peer, OUTGOING) := None)
    \<and> opn (io_kern (nd_io w')) = opn (io_kern (nd_io w)) - F
    \<and> entry (nd_io w') (f, ev) = (if f \<in> F then None else entry (nd_io w) (f, ev))
    \<and> nd_trace w' = nd_trace w
        @ (if connToFd w (peer, INCOMING) = None then [] else [SessionLost GetTransportId peer INCOMING])
        @ (if connToFd w (peer, OUTGOING) = None then [] else [SessionLost GetTransportId peer OUTGOING])"
proof -
  let ?F = "\<lambda>d. {fd. connToFd w (peer, d) = Some fd}" and ?w1 = "close_dir K peer ALL_DIR INCOMING w"
  note A = close_dir_effect [OF inv refl, of peer INCOMING]
  have out: "{fd. connToFd ?w1 (peer, OUTGOING) = Some fd} = ?F OUTGOING" by (simp add: A(2))
  note B = close_dir_effect [OF A(7) refl, of peer OUTGOING, unfolded out]
  have w': "w' = close_dir K peer ALL_DIR OUTGOING ?w1" by (simp add: w' CloseConn_def)
  have F: "- F = - ?F INCOMING \<inter> - ?F OUTGOING" "\<And>X. X - F = X - ?F INCOMING - ?F OUTGOING"
    "\<And>f. f \<in> F \<longleftrightarrow> f \<in> ?F INCOMING \<or> f \<in> ?F OUTGOING" using F by auto
  have "activeConns w' = activeConns w |` (- F)" "sendQueues w' = sendQueues w |` (- F)"
    unfolding w' B(1,3) A(1,3) F(1) by (simp_all add: restrict_restrict)
  moreover have "connToFd w' = (connToFd w)((peer, INCOMING) := None, (peer, OUTGOING) := None)"
    unfolding w' B(2) A(2) ..
  moreover have "opn (io_kern (nd_io w')) = opn (io_kern (nd_io w)) - F" unfolding w' B(5) A(5) F(2) ..
  moreover have "entry (nd_io w') (f, ev) = (if f \<in> F then None else entry (nd_io w) (f, ev))"
    unfolding w' B(6) A(6) F(3) by simp
  moreover have "nd_trace w' = nd_trace w
        @ (if connToFd w (peer, INCOMING) = None then [] else [SessionLost GetTransportId peer INCOMING])
        @ (if connToFd w (peer, OUTGOING) = None then [] else [SessionLost GetTransportId peer OUTGOING])"
    unfolding w' B(4) A(4) A(2) by simp
  ultimately show ?thesis by blast
qed

end

text \<open>
  C14: closing a session ends it completely and touches nothing else. In every state a started
  process reaches, closing the sessions with a peer in both directions closes exactly the
  descriptors the table has for the peer, removes their callbacks, queues and table entries,
  and reports each of them lost once, the incoming one first; every other connection,
  callback and open descriptor stays as it is.
\<close>

theorem close_session_ends:
  assumes "os_ok K interest opn env" and "running n K opn env self w"
    and "F = {fd. connToFd w (peer, INCOMING) = Some fd \<or> connToFd w (peer, OUTGOING) = Some fd}"
    and "w' = CloseSession K peer ALL_DIR w"
  shows "activeConns w' = activeConns w |` (- F) \<and> sendQueues w' = sendQueues w |` (- F)
    \<and> connToFd w' = (connToFd w)((peer, INCOMING) := None, (peer, OUTGOING) := None)
    \<and> opn (io_kern (nd_io w')) = opn (io_kern (nd_io w)) - F
    \<and> entry (nd_io w') (f, ev) = (if f \<in> F then None else entry (nd_io w) (f, ev))
    \<and> nd_trace w' = nd_trace w
        @ (if connToFd w (peer, INCOMING) = None then [] else [SessionLost GetTransportId peer INCOMING])
        @ (if connToFd w (peer, OUTGOING) = None then [] else [SessionLost GetTransportId peer OUTGOING])"
  using os_contract.CloseConn_effect [OF _ running_inv [OF assms(1,2)] assms(3) assms(4) [unfolded CloseSession_def]] assms(1)
  by (simp add: os_ok_def os_contract_def)

theorem close_session_ends_witness:
  "\<exists>w. activeConns w 11 = Some (other_peer, OUTGOING)
     \<and> nd_trace (CloseSession sim_kernel other_peer ALL_DIR w) = nd_trace w @ [SessionLost 1 other_peer OUTGOING]
     \<and> 11 \<notin> set (sim_open (io_kern (nd_io (CloseSession sim_kernel other_peer ALL_DIR w))))"
proof -
  obtain w where w: "running 5 sim_kernel (\<lambda>k. set (sim_open k)) sim_env (PeerId 0 0 0 0 0 1) w"
    and a: "activeConns w 11 = Some (other_peer, OUTGOING)" and c: "connToFd w (other_peer, OUTGOING) = Some 11"
      "connToFd w (other_peer, INCOMING) = None" by (rule sim_run) blast
  from close_session_ends [OF sim_os_ok w refl refl, of other_peer] a c show ?thesis by (auto simp: GetTransportId_def)
qed

section \<open>The answer to an outgoing hello\<close>

lemma answer_of_peer:
  assumes "Deserialize m = Some h" and "hm_id h = peer" and "hm_type h = t"
  shows "m = Serialize (make_hello peer t)"
proof -
  note D = Deserialize_SomeD [OF assms(1)]
  have "hm_identifier h = HELLO_ID" using D(1,2) by (simp add: IsValid_iff)
  then have "h = make_hello peer t" using assms(2,3) by (simp add: make_hello_def default_hello_def)
  with D(3) show ?thesis by simp
qed

lemma outgoing_answer_refused:
  assumes "res \<noteq> Ok (Serialize (make_hello peer Answer))"
  shows "outgoing_answer_cb K peer a res w = Inr (abandon K a w)"
proof (cases res)
  case (Ok m)
  show ?thesis
  proof (cases "Deserialize m")
    case (Some h)
    with assms Ok answer_of_peer [OF Some, of peer Answer] have "\<not> (hm_id h = peer \<and> hm_type h = Answer)" by auto
    with Some Ok show ?thesis by (auto simp: outgoing_answer_cb_def)
  qed (simp add: outgoing_answer_cb_def Ok)
qed (simp add: outgoing_answer_cb_def)

context os_contract
begin

lemma abandon_effect:
  assumes inv: "ninv b pend w" and rdy: "ready opn w a Handshake" and fd: "Get a (nd_io w) = fd"
  shows "activeConns (abandon K a w) = activeConns w" "nd_trace (abandon K a w) = nd_trace w"
    "opn (io_kern (nd_io (abandon K a w))) = opn (io_kern (nd_io w)) - {fd}"
    "entry (nd_io (abandon K a w)) (fd, ev) = None"
proof -
  let ?w = "w\<lparr>nd_io := snd (Release K a (nd_io w))\<rparr>"
  from rdy fd have "slot opn w fd Handshake" by (simp add: ready_def)
  from release_node(2) [OF inv this, of a] have "entry (nd_io ?w) (fd, ev) = None" by (simp add: slot_def)
  then show "entry (nd_io (abandon K a w)) (fd, ev) = None"
    by (simp add: abandon_def on_io_Release fd entry_def)
  show "activeConns (abandon K a w) = activeConns w" "nd_trace (abandon K a w) = nd_trace w"
    "opn (io_kern (nd_io (abandon K a w))) = opn (io_kern (nd_io w)) - {fd}"
    by (simp_all add: abandon_def on_io_Release fd opn_Release)
qed

end

context receiving_os
begin

lemma outgoing_answer_opens:
  assumes inv: "ninv (Suc b) pend w" and rdy: "ready opn w a Handshake" and fd: "Get a (nd_io w) = fd" and plain: "plain w fd"
  shows "\<exists>w'. outgoing_answer_cb K peer a (Ok (Serialize (make_hello peer Answer))) w = Inr w'
    \<and> nd_trace w' = nd_trace w @ [SessionOpened GetTransportId peer OUTGOING]
    \<and> activeConns w' = (activeConns w)(fd \<mapsto> (peer, OUTGOING)) \<and> sendQueues w' fd = Some []
    \<and> connToFd w' = map_emplace (peer, OUTGOING) fd (connToFd w) \<and> plain w' fd
    \<and> reading stream w' fd (stream (io_kern (nd_io (snd (on_io (Release K a) w)))) fd)"
proof -
  let ?w1 = "activate fd peer OUTGOING w"
  let ?w2 = "?w1\<lparr>nd_io := snd (Release K a (nd_io ?w1))\<rparr>"
  from rdy fd have slot: "slot opn w fd Handshake" by (simp add: ready_def)
  note A = ninv_activate [OF inv slot, of peer OUTGOING]
  have io: "nd_io ?w1 = nd_io w" by (simp add: activate_def)
  have act: "activeConns ?w1 = (activeConns w)(fd \<mapsto> (peer, OUTGOING))"
    using slot by (simp add: activate_def slot_def)
  have "slot opn (w\<lparr>nd_io := snd (Release K a (nd_io w))\<rparr>) fd Handshake" by (rule release_node(2) [OF inv slot])
  then have "entry (nd_io ?w2) (fd, EPOLLIN) = None" by (simp add: slot_def io)
  moreover have p2: "plain ?w2 fd" using plain plain_cong [of ?w2 w] by (simp add: io)
  moreover have "activeConns ?w2 fd = Some (peer, OUTGOING)" by (simp add: act)
  ultimately obtain io' where read: "ReadMessage K fd ?w2 = Inr (?w2\<lparr>nd_io := io'\<rparr>)"
    "reading stream (?w2\<lparr>nd_io := io'\<rparr>) fd (stream (io_kern (nd_io ?w2)) fd)" "loop_fds io' = loop_fds (nd_io ?w2)"
    using ReadMessage_live [OF release_node(1) [OF A(1)]] by blast
  let ?w' = "OnLinkEstablishing peer OUTGOING (?w2\<lparr>nd_io := io'\<rparr>)"
  have "outgoing_answer_cb K peer a (Ok (Serialize (make_hello peer Answer))) w = Inr ?w'"
    using read(1) by (simp add: outgoing_answer_cb_def Let_def on_io_Release io fd)
  moreover have "nd_trace ?w' = nd_trace w @ [SessionOpened GetTransportId peer OUTGOING]"
    by (simp add: OnLinkEstablishing_def activate_def)
  moreover have "activeConns ?w' = (activeConns w)(fd \<mapsto> (peer, OUTGOING))"
    using act by (simp add: OnLinkEstablishing_def)
  moreover have "sendQueues w fd = None" using conns_invD(2) [OF node_invD(5) [OF inv], of fd] slot by (simp add: slot_def)
  then have "sendQueues ?w' fd = Some [] \<and> connToFd ?w' = map_emplace (peer, OUTGOING) fd (connToFd w)"
    by (simp add: OnLinkEstablishing_def activate_def)
  moreover have "plain ?w' fd" using p2 read(3) plain_cong [of ?w' ?w2] by (simp add: OnLinkEstablishing_def)
  moreover have "reading stream ?w' fd (stream (io_kern (nd_io (snd (on_io (Release K a) w)))) fd)"
    using read(2) by (simp add: reading_def OnLinkEstablishing_def on_io_Release io)
  ultimately show ?thesis by blast
qed

end


text \<open>The state before the last event of the exchange.\<close>

definition answer_acts :: "act list" where
  "answer_acts = take 6 run_acts"

definition answer_summary :: "sim node \<Rightarrow> bool" where
  "answer_summary w \<longleftrightarrow>
     nd_trace w = [NewNeighbour 1 other_peer] \<and> connToFd w (other_peer, OUTGOING) = None
     \<and> removeEvent (io_loop (nd_io w)) = 4 \<and> stopEvent (io_loop (nd_io w)) = 5
     \<and> GetAddress other_peer w = Some 0x0201A8C0
     \<and> (case create_tcp_socket sim_kernel 0 ((io_kern (nd_io w))\<lparr>sim_connect := (-1, ECONNREFUSED)\<rparr>) of
          (fd, k) \<Rightarrow> fd = 12 \<and> sim_connect k = (-1, ECONNREFUSED))
     \<and> (case entry (nd_io w) (11, EPOLLIN) of
          Some (ProcCb p) \<Rightarrow>
            (case run_proc sim_kernel (11, EPOLLIN) p (Ok ()) (nd_io w) of
               Inr (c, _) \<Rightarrow> c = Some (RecvResolved (OutgoingAnswer other_peer) (Ok (Serialize (make_hello other_peer Answer))))
             | _ \<Rightarrow> False)
        | _ \<Rightarrow> False)"

lemma answer_summary_holds: "run_holds (sim0\<lparr>sim_ifs := [sim_if]\<rparr>) answer_acts answer_summary"
  by code_simp


section \<open>A refused connection\<close>

context live_os
begin

lemma outgoing_starts:
  assumes inv: "ninv (Suc b) pend w" and slot: "slot opn w fd Handshake" and plain: "plain w fd"
  shows "\<exists>io' p. OutgoingHelloExchange K fd peer w = Inr (w\<lparr>nd_io := io'\<rparr>) \<and> ninv b pend (w\<lparr>nd_io := io'\<rparr>)
    \<and> loop_fds io' = loop_fds (nd_io w) \<and> entry io' (fd, EPOLLOUT) = Some (ProcCb p)
    \<and> stage_goal (pc_resolve p) = Inr (OutgoingNotifySent peer)"
proof -
  let ?a = "io_next (nd_io w)" and ?w = "w\<lparr>nd_io := snd (Create fd (nd_io w))\<rparr>"
  let ?m = "Serialize (make_hello (nd_self w) Notify)"
  note C = create_ready [OF inv slot]
  have "plain ?w fd" "entry (nd_io ?w) (fd, EPOLLOUT) = None" using plain slot by (simp_all add: plain_def entry_def slot_def)
  with start_succeeds [OF C(1), of ?a "SendLen False ?m (OutgoingNotifySent peer)" "SendFunctor False" "le32 (of_nat (length ?m))" 4] C(2)
  obtain io' where st: "start_stage K ?a (SendFunctor False) (le32 (of_nat (length ?m))) 4 (SendLen False ?m (OutgoingNotifySent peer)) (nd_io ?w) = Inr (None, io')"
    and arm: "armed io' ?a fd OUTPUT \<lparr>pc_self = ?a, pc_func = SendFunctor False, pc_left = 4, pc_size = 4,
        pc_data = le32 (of_nat (length ?m)), pc_resolve = SendLen False ?m (OutgoingNotifySent peer)\<rparr>"
    by auto
  have "SendMessage K ?a ?m (OutgoingNotifySent peer) False (nd_io ?w) = Inr (True, None, io')"
    using st by (simp add: SendMessage_def Let_def sizeof_HelloMsg_def)
  then have run: "OutgoingHelloExchange K fd peer w = Inr (w\<lparr>nd_io := io'\<rparr>)"
    by (simp add: OutgoingHelloExchange_def on_io_Create start_io_def)
  have "loop_fds io' = loop_fds (nd_io w)" using loop_fds_start_stage [OF st] by simp
  with run armed_entry [OF arm] ninv_outgoing_exchange [OF inv slot run] show ?thesis by auto
qed

text \<open>An error event on a descriptor whose only operation is the sending of the first hello.\<close>

lemma notify_fails:
  assumes inv: "ninv (Suc b) pend w" and plain: "plain w fd" and e: "entry (nd_io w) (fd, EPOLLOUT) = Some (ProcCb p)"
    and g: "stage_goal (pc_resolve p) = Inr (OutgoingNotifySent peer)"
  shows "\<exists>w'. run_event n K (fd, EPOLLHUP) w = Inr (False, w')
    \<and> nd_trace w' = nd_trace w @ [SessionError GetTransportId peer (MakeError ERROR OUTGOING)]
    \<and> fd \<notin> opn (io_kern (nd_io w'))"
proof -
  let ?a = "pc_self p" and ?io = "Deregister K (pc_self p) (nd_io w)"
  let ?u = "SendResolved (OutgoingNotifySent peer) (Err IoFailed)"
  from g have call: "stage_call (pc_resolve p) IoFailed = ?u" by (cases "pc_resolve p") auto
  have run: "run_proc K (fd, EPOLLOUT) p (Err IoFailed) (nd_io w) = Inr (Some ?u, ?io)"
    by (simp add: run_proc_def stage_error_def call)
  note R = run_proc_node [OF inv e run]
  have rdy: "ready opn (w\<lparr>nd_io := ?io\<rparr>) ?a Handshake" using R(2) [OF refl] by simp
  have G: "Get ?a (nd_io (w\<lparr>nd_io := ?io\<rparr>)) = fd" using entry_armed [OF node_invD(1) [OF inv] e] by (auto simp: armed_def)
  let ?v = "OnLinkEstablishingError peer OUTGOING ERROR (w\<lparr>nd_io := ?io\<rparr>)"
  have nv: "ninv (Suc b) pend ?v" unfolding OnLinkEstablishingError_def by (rule ninv_notify [OF R(1)]) simp_all
  have "ready opn ?v ?a Handshake" "Get ?a (nd_io ?v) = fd" using rdy G by (simp_all add: OnLinkEstablishingError_def)
  note A = abandon_effect [OF nv this]
  have "find_keeper (io_loop (nd_io w)) fd EPOLLIN = None"
    using conns_invD(8) [OF node_invD(5) [OF inv] e] g by (auto simp: role_ok_def entry_def EPOLLIN_def EPOLLOUT_def)
  moreover have "callbacks_of_event EPOLLHUP = [(EPOLLIN, Err IoFailed), (EPOLLOUT, Err IoFailed)]"
    by (simp add: callbacks_of_event_def EPOLLHUP_def)
  ultimately have "run_event n K (fd, EPOLLHUP) w = Inr (False, abandon K ?a ?v)"
    using plain e run
    by (auto simp: run_event_def plain_def RunCallback_def run_keeper_def entry_def Let_def perform_def notify_sent_cb_def)
  with A(2,3) show ?thesis by (simp add: OnLinkEstablishingError_def)
qed

end

text \<open>
  C31: a refused connection is reported twice. In every state a started process reaches, when
  \<open>connect\<close> fails at once, opening the session reports the error and starts the hello
  exchange on the unconnected socket all the same; the error event that follows on it reports
  the error a second time.
\<close>

theorem refused_connect_reported_twice:
  assumes "os_ok K interest opn env" and "add_live K interest opn" and "running_with 2 n K opn env self w"
    and "connToFd w (peer, OUTGOING) = None" and "GetAddress peer w = Some addr"
    and "create_tcp_socket K 0 (io_kern (nd_io w)) = (fd, k1)" and "fd \<noteq> -1" and "plain w fd"
    and "k_connect K fd \<lparr>sin_family = AF_INET, sin_port = htons (of_int TCP_LISTEN_PORT), sin_addr = addr\<rparr> k1
      = ((res, errno), k2)" and "res < 0" and "errno \<noteq> EINPROGRESS"
  shows "\<exists>w1 w2. OpenSession K peer w = Inr w1 \<and> run_event n K (fd, EPOLLHUP) w1 = Inr (False, w2)
    \<and> nd_trace w1 = nd_trace w @ [SessionError GetTransportId peer (MakeError ERROR OUTGOING)]
    \<and> nd_trace w2 = nd_trace w1 @ [SessionError GetTransportId peer (MakeError ERROR OUTGOING)]"
proof -
  from assms(1) have os: "os_contract K interest opn" by (simp add: os_ok_def os_contract_def)
  from os assms(2) have live: "live_os K interest opn" by (simp add: live_os_def live_os_axioms_def)
  have inv: "node_inv interest opn (Suc (Suc 0)) (\<lambda>_. 0) w"
    using running_with_inv [OF assms(1,3)] by (simp add: numeral_2_eq_2)
  note c = os_contract.kern_ok_tcp [OF os assms(6)]
  note n = os_contract.ninv_kern [OF os inv c]
  from assms(1) have fds: "fd_laws K opn" by (simp add: os_ok_def)
  from create_tcp_no_leak [OF fds assms(6)] assms(7) have "fd \<notin> opn (io_kern (nd_io w))" "fd \<in> opn k1" by auto
  note sl = os_contract.fresh_slot [OF os inv this]
  let ?w2 = "set_kern k2 (set_kern k1 w)"
  let ?ep = "\<lparr>sin_family = AF_INET, sin_port = htons (of_int TCP_LISTEN_PORT), sin_addr = addr\<rparr>"
  have "interest k2 = interest k1" "opn k2 = opn k1"
    using os_contract.interest_keep(4) [OF os, of fd ?ep k1] fd_laws_keep(13) [OF fds, of fd ?ep k1]
    unfolding assms(9) snd_conv .
  then have "os_contract.kern_ok interest opn (io_kern (nd_io (set_kern k1 w))) k2"
    by (intro os_contract.kern_ok_same [OF os]) simp_all
  note n2 = os_contract.ninv_kern [OF os n(1) this]
  let ?w3 = "OnLinkEstablishingError peer OUTGOING ERROR ?w2"
  have n3: "node_inv interest opn (Suc (Suc 0)) (\<lambda>_. 0) ?w3"
    unfolding OnLinkEstablishingError_def by (rule os_contract.ninv_notify [OF os n2(1)]) simp_all
  have slot: "slot opn ?w3 fd Handshake" using n2(2) [OF sl] by (simp add: OnLinkEstablishingError_def os_contract.notify_frame [OF os])
  have plain: "plain ?w3 fd" using assms(8) by (simp add: plain_def OnLinkEstablishingError_def)
  from live_os.outgoing_starts [OF live n3 slot plain, of peer] obtain io' p where
    x: "OutgoingHelloExchange K fd peer ?w3 = Inr (?w3\<lparr>nd_io := io'\<rparr>)" "node_inv interest opn (Suc 0) (\<lambda>_. 0) (?w3\<lparr>nd_io := io'\<rparr>)"
      "loop_fds io' = loop_fds (nd_io ?w3)" "entry io' (fd, EPOLLOUT) = Some (ProcCb p)"
      "stage_goal (pc_resolve p) = Inr (OutgoingNotifySent peer)" by blast
  let ?w1 = "?w3\<lparr>nd_io := io'\<rparr>"
  have "plain ?w1 fd" using plain plain_cong [of ?w1 ?w3] x(3) by simp
  from live_os.notify_fails [OF live x(2) this _ x(5)] x(4) obtain w2 where
    w2: "run_event n K (fd, EPOLLHUP) ?w1 = Inr (False, w2)"
      "nd_trace w2 = nd_trace ?w1 @ [SessionError GetTransportId peer (MakeError ERROR OUTGOING)]" by auto
  have "OpenSession K peer w = Inr ?w1"
    using assms(4-7,9-11) x(1) by (simp add: OpenSession_def EstablishConnection_def sys_def Let_def)
  with w2 show ?thesis by (auto simp: OnLinkEstablishingError_def)
qed

text \<open>A process that is told of a peer nobody listens at.\<close>

lemma running_step:
  assumes "running_with (4 * n + 4 + b) n K opn env self w" and "node_step n K env w w'"
  shows "running_with b n K opn env self w'"
proof -
  from assms(1) obtain k w0 i where "0 \<in> opn k" "IpTransport_Start K (RegisterTransport (new_node self k)) = Inr (True, w0)"
    and s: "node_steps n K env w0 i w" and "i * (4 * n + 4) + (4 * n + 4 + b) + 5 < 2 ^ 64" by (auto simp: running_with_def)
  moreover from node_steps.step [OF s assms(2)] have "node_steps n K env w0 (Suc i) w'" .
  ultimately show ?thesis unfolding running_with_def by (intro exI [of _ k] exI [of _ w0] exI [of _ "Suc i"]) simp
qed

theorem refused_connect_reported_twice_witness:
  "\<exists>w w1 w2. OpenSession sim_kernel other_peer w = Inr w1 \<and> run_event 5 sim_kernel (12, EPOLLHUP) w1 = Inr (False, w2)
     \<and> nd_trace w2 = [NewNeighbour 1 other_peer, SessionError 1 other_peer (MakeError ERROR OUTGOING),
         SessionError 1 other_peer (MakeError ERROR OUTGOING)]"
proof (rule run_holdsD [OF answer_summary_holds])
  fix w assume w: "running_with 1000 5 sim_kernel (\<lambda>k. set (sim_open k)) sim_env (PeerId 0 0 0 0 0 1) w" and s: "answer_summary w"
  let ?w = "set_kern ((io_kern (nd_io w))\<lparr>sim_connect := (-1, ECONNREFUSED)\<rparr>) w"
  have "node_step 5 sim_kernel sim_env w ?w" by (rule node_step.environment) (simp add: sim_env_def)
  from running_step [OF running_mono [OF w] this, of 2]
  have r: "running_with 2 5 sim_kernel (\<lambda>k. set (sim_open k)) sim_env (PeerId 0 0 0 0 0 1) ?w" by simp
  from s obtain k1 where k1: "create_tcp_socket sim_kernel 0 (io_kern (nd_io ?w)) = (12, k1)" "sim_connect k1 = (-1, ECONNREFUSED)"
    and c: "connToFd ?w (other_peer, OUTGOING) = None" "GetAddress other_peer ?w = Some 0x0201A8C0" "plain ?w 12"
    and t: "nd_trace ?w = [NewNeighbour 1 other_peer]"
    by (auto simp: answer_summary_def plain_def GetAddress_def split: option.splits callback.splits sum.splits)
  have conn: "k_connect sim_kernel 12 a k1 = ((-1, ECONNREFUSED), k1)" for a using k1(2) by (simp add: sim_kernel_def)
  have ne: "12 \<noteq> (-1 :: descr)" "(-1 :: int) < 0" "ECONNREFUSED \<noteq> EINPROGRESS"
    by (simp_all add: ECONNREFUSED_def EINPROGRESS_def)
  from refused_connect_reported_twice [OF sim_os_ok sim_add_live r c(1,2) k1(1) ne(1) c(3) conn ne(2,3)]
  show ?thesis unfolding t GetTransportId_def by (metis append_Cons append_Nil)
qed (simp_all add: sim0_def answer_acts_def run_acts_def)

section \<open>Two connections with one name\<close>

text \<open>
  C32: nothing stops a peer from opening a second connection in the same direction, and the
  table that leads from a peer and direction to a descriptor has room for one. In every state
  a started process reaches with two such connections, closing either leaves the other active
  and open but out of reach: closing the session does nothing, and messages to the peer are
  dropped without a word.
\<close>

theorem duplicate_connection_orphaned:
  assumes "os_ok K interest opn env" and "running n K opn env self w"
    and "activeConns w fd1 = Some (peer, dir)" and "activeConns w fd2 = Some (peer, dir)" and "fd1 \<noteq> fd2"
    and "dir = INCOMING \<and> connToFd w (peer, OUTGOING) = None \<or> dir = OUTGOING \<and> connToFd w (peer, INCOMING) = None"
    and "w' = CloseFD K fd2 w"
  shows "activeConns w' fd1 = Some (peer, dir) \<and> fd1 \<in> opn (io_kern (nd_io w'))
    \<and> CloseSession K peer dir' w' = w' \<and> transport_SendMessage K peer m w' = Inr w'"
proof -
  from assms(1) have os: "os_contract K interest opn" by (simp add: os_ok_def os_contract_def)
  note inv = running_inv [OF assms(1,2)]
  note E = os_contract.CloseFD_effect [OF os inv assms(4)]
  have "fd1 \<in> opn (io_kern (nd_io w))" by (rule conns_invD(4) [OF node_invD(5) [OF inv] assms(3)])
  moreover have "connToFd w' (peer, d) = None" if "d = INCOMING \<or> d = OUTGOING" for d
    using that assms(6) by (auto simp: assms(7) E(2))
  ultimately show ?thesis
    using assms(3,5)
    by (simp add: assms(7) E(1,5)) (simp add: CloseSession_def CloseConn_def close_dir_def transport_SendMessage_def
        conn_SendMessage_def conn_for_def)
qed

text \<open>
  Descriptor 9 is the listening socket; the peer connects twice, on 10 and, with its timer on
  11, on 12.
\<close>

definition greet :: "descr \<Rightarrow> act list" where
  "greet fd = [Event 9 EPOLLIN, Bytes fd (frame (Serialize (make_hello other_peer Notify))),
     Event fd EPOLLIN, Event fd EPOLLIN, Event fd EPOLLOUT, Event fd EPOLLOUT]"

definition greeted :: "sim node \<Rightarrow> bool" where
  "greeted w \<longleftrightarrow> activeConns w 10 = Some (other_peer, INCOMING) \<and> activeConns w 12 = Some (other_peer, INCOMING)
     \<and> connToFd w (other_peer, OUTGOING) = None"

lemma greeted_holds:
  "run_holds (sim0\<lparr>sim_ifs := [sim_if], sim_peer := \<lparr>sin_family = AF_INET, sin_port = 0, sin_addr = 0x0201A8C0\<rparr>\<rparr>)
     (greet 10 @ greet 12) greeted"
  by code_simp

theorem duplicate_connection_orphaned_witness:
  "\<exists>w. activeConns w 10 = Some (other_peer, INCOMING) \<and> 10 \<in> set (sim_open (io_kern (nd_io w)))
     \<and> CloseSession sim_kernel other_peer ALL_DIR w = w \<and> transport_SendMessage sim_kernel other_peer [7] w = Inr w"
proof (rule run_holdsD [OF greeted_holds])
  fix w assume w: "running 5 sim_kernel (\<lambda>k. set (sim_open k)) sim_env (PeerId 0 0 0 0 0 1) w" and g: "greeted w"
  then have a: "activeConns w 10 = Some (other_peer, INCOMING)" "activeConns w 12 = Some (other_peer, INCOMING)"
    and c: "INCOMING = INCOMING \<and> connToFd w (other_peer, OUTGOING) = None \<or> INCOMING = OUTGOING \<and> connToFd w (other_peer, INCOMING) = None"
    by (simp_all add: greeted_def)
  have "10 \<noteq> (12 :: descr)" by simp
  from duplicate_connection_orphaned [OF sim_os_ok w a this c refl] show ?thesis by blast
qed (simp_all add: sim0_def greet_def)

end
