(* ===== verification/Frames.thy ===== *)
theory Frames
  imports Process
begin

text \<open>
  What an operation leaves alone. \<open>obs\<close> is something read off the state of the process; if the
  fields an operation writes and the notifications it makes do not show in it, no operation
  built from them changes it.
\<close>

section \<open>The operations of the connections\<close>

locale conn_frame =
  fixes obs :: "'k node \<Rightarrow> 'a"
  assumes io [simp]: "obs (w\<lparr>nd_io := i\<rparr>) = obs w"
    and conns [simp]: "obs (w\<lparr>activeConns := a\<rparr>) = obs w" "obs (w\<lparr>connToFd := c\<rparr>) = obs w" "obs (w\<lparr>sendQueues := q\<rparr>) = obs w"
    and session [simp]: "obs (notify (SessionOpened t p d) w) = obs w" "obs (notify (SessionLost t p d) w) = obs w"
      "obs (notify (SessionError t p e) w) = obs w" "obs (notify (MessageReceived t p m) w) = obs w"
begin

lemma frame_kern [simp]: "obs (set_kern k w) = obs w" "obs (close_fd K fd w) = obs w"
  by (simp_all add: set_kern_def close_fd_def)

lemma frame_snd [simp]:
  "obs (snd (sys f w)) = obs w" "obs (snd (on_loop g w)) = obs w" "obs (snd (on_io h w)) = obs w" "obs (activate fd p d w) = obs w"
  by (simp_all add: sys_def on_loop_def on_io_def activate_def Let_def split: prod.split)

lemma frame_register_input:
  "register_input K fd cb w = Inr (r, w') \<Longrightarrow> obs w' = obs w"
  by (auto simp: register_input_def chain_eq_Inr)

lemma frame_start_io: "start_io f w = Inr (c, w') \<Longrightarrow> obs w' = obs w"
  by (auto simp: start_io_def chain_eq_Inr)

lemma frame_SendBroadcastHello [simp]: "obs (SendBroadcastHello K w) = obs w"
  by (simp add: SendBroadcastHello_def case_prod_beta Let_def)

lemma frame_broadcast_timer [simp]: "obs (broadcast_timer_cb K w) = obs w"
  by (simp add: broadcast_timer_cb_def Let_def)

lemma frame_abandon [simp]: "obs (abandon K a w) = obs w"
  by (simp add: abandon_def case_prod_beta)

lemma frame_CloseFD [simp]: "obs (CloseFD K fd w) = obs w"
  by (simp add: CloseFD_def OnLinkClosed_def case_prod_beta Let_def split: option.split)

lemma frame_CloseConn [simp]: "obs (CloseConn K p d w) = obs w"
  by (simp add: CloseConn_def close_dir_def split: option.split)

lemma frame_read_err [simp]: "obs (read_err_cb K a w) = obs w"
  by (simp add: read_err_cb_def case_prod_beta split: option.split)

lemma frame_ReadMessage: "ReadMessage K fd w = Inr w' \<Longrightarrow> obs w' = obs w"
  by (auto simp: ReadMessage_def on_io_Create chain_eq_Inr dest!: frame_start_io split: option.split_asm)

lemma frame_read_cb: "read_cb K a res w = Inr w' \<Longrightarrow> obs w' = obs w"
  by (auto simp: read_cb_def on_io_Release OnMessageReceived_def dest!: frame_ReadMessage
      split: option.split_asm io_result.split_asm)

lemma frame_take_front: "take_front fd w = Some (m, w') \<Longrightarrow> obs w' = obs w"
  by (auto simp: take_front_def split: option.split_asm list.splits)

lemma frame_sent_pop: "sent_pop a w = Inr (r, w') \<Longrightarrow> obs w' = obs w"
  by (auto simp: sent_pop_def Let_def split: option.split_asm list.splits)

lemma frame_sending:
  "SendMessageFd K fd w = Inr w' \<Longrightarrow> obs w' = obs w"
  "sent_cb K a w = Inr w' \<Longrightarrow> obs w' = obs w"
proof (induction K fd w and K a w arbitrary: w' and w' rule: SendMessageFd_sent_cb.induct)
  case (1 K fd w)
  let ?a = "io_next (nd_io w)" and ?w = "w\<lparr>nd_io := snd (Create fd (nd_io w))\<rparr>"
  show ?case
  proof (cases "take_front fd ?w")
    case None
    with 1(2) show ?thesis by (auto simp: SendMessageFd.simps [of K fd w] on_io_Create)
  next
    case (Some x)
    then obtain m w1 where t: "take_front fd ?w = Some (m, w1)" by (cases x) auto
    with 1(2) obtain c w2 where s: "start_io (SendMessage K ?a m SendNext True) w1 = Inr (c, w2)"
      and w': "(case c of None \<Rightarrow> Inr w2 | Some _ \<Rightarrow> sent_cb K ?a w2) = Inr w'"
      by (auto simp: SendMessageFd.simps [of K fd w] on_io_Create chain_eq_Inr)
    have "obs w2 = obs w" using frame_start_io [OF s] frame_take_front [OF t] by simp
    moreover have "obs w' = obs w2" if "c = Some u" for u
      by (rule 1(1) [OF refl on_io_Create [symmetric] t refl s refl that]) (use w' that in simp)
    ultimately show ?thesis using w' by (cases c) auto
  qed
next
  case (2 K a w)
  from 2(2) obtain r w1 where s: "sent_pop a w = Inr (r, w1)"
    and w': "(case r of None \<Rightarrow> Inr w1 | Some rest \<Rightarrow>
      (if rest then SendMessageFd K (Get a (nd_io w1)) (w1\<lparr>nd_io := snd (Release K a (nd_io w1))\<rparr>)
       else Inr (w1\<lparr>nd_io := snd (Release K a (nd_io w1))\<rparr>))) = Inr w'"
    by (auto simp: sent_cb.simps [of K a w] on_io_Release chain_eq_Inr cong del: option.case_cong_weak)
  have "obs w' = obs w1" if "r = Some True"
    using 2(1) [OF s refl that refl on_io_Release [symmetric] TrueI] w' that by simp
  with w' frame_sent_pop [OF s] show ?case by (auto split: option.split_asm if_split_asm)
qed

lemma frame_conn_SendMessage: "conn_SendMessage K p m w = Inr w' \<Longrightarrow> obs w' = obs w"
  by (auto simp: conn_SendMessage_def Let_def dest!: frame_sending(1) split: option.split_asm if_split_asm)

lemma frame_answer_sent: "answer_sent_cb K p a res w = Inr w' \<Longrightarrow> obs w' = obs w"
  by (auto simp: answer_sent_cb_def on_io_Release OnLinkEstablishing_def Let_def dest!: frame_ReadMessage
      split: io_result.split_asm)

lemma frame_outgoing_answer: "outgoing_answer_cb K p a res w = Inr w' \<Longrightarrow> obs w' = obs w"
  by (auto simp: outgoing_answer_cb_def on_io_Release OnLinkEstablishing_def Let_def chain_eq_Inr dest!: frame_ReadMessage
      split: io_result.split_asm option.split_asm if_split_asm)

lemma frame_notify_sent: "notify_sent_cb K p a res w = Inr w' \<Longrightarrow> obs w' = obs w"
  by (cases res; auto simp: notify_sent_cb_def OnLinkEstablishingError_def chain_eq_Inr dest!: frame_start_io)
    (auto dest!: frame_outgoing_answer split: option.split_asm user_call.split_asm)

lemma frame_outgoing_exchange: "OutgoingHelloExchange K fd p w = Inr w' \<Longrightarrow> obs w' = obs w"
  by (auto simp: OutgoingHelloExchange_def on_io_Create chain_eq_Inr dest!: frame_start_io)
    (auto dest!: frame_notify_sent split: option.split_asm user_call.split_asm)

lemma frame_EstablishConnection: "EstablishConnection K p w = Inr w' \<Longrightarrow> obs w' = obs w"
  by (auto simp: EstablishConnection_def OnLinkEstablishingError_def sys_def case_prod_beta Let_def
      dest!: frame_outgoing_exchange split: option.split_asm if_split_asm)

end

section \<open>The operations that touch the peers\<close>

text \<open>
  What is read off the state may change where a peer is added or lost, if it changes in one
  direction only; \<open>good b\<close> is an invariant that allows at least \<open>b\<close> more tokens.
\<close>

locale peer_frame = conn_frame obs for obs :: "'k node \<Rightarrow> 'a" +
  fixes K :: "'k kernel" and le :: "'a \<Rightarrow> 'a \<Rightarrow> bool" and good :: "nat \<Rightarrow> 'k node \<Rightarrow> bool"
  assumes refl [simp]: "le x x" and trans: "le x y \<Longrightarrow> le y z \<Longrightarrow> le x z"
    and tracked: "good b w \<Longrightarrow> track_peer K s msg w = Inr (r, w') \<Longrightarrow> le (obs w') (obs w)"
    and found: "good b w \<Longrightarrow> track_peer K s msg w = Inr (True, w') \<Longrightarrow>
      le (obs (notify (NewNeighbour GetTransportId (hm_id msg)) w')) (obs w)"
    and lost: "le (obs (ProcessPeerLost K fd w)) (obs w)" and gone: "le (obs (notify (LostNeighbour GetTransportId p) w)) (obs w)"
    and interfaces [simp]: "obs (w\<lparr>ifToPeer := e\<rparr>) = obs w"
    and again: "obs v = obs w \<Longrightarrow> obs (notify (NewNeighbour t p) v) = obs (notify (NewNeighbour t p) w)"
    and good_mono: "good b w \<Longrightarrow> b' \<le> b \<Longrightarrow> good b' w"
    and good_reads: "good b w \<Longrightarrow> good b (snd (sys (get_fd_addr K fd) w))" "good b w \<Longrightarrow> good b (snd (sys (read_broadcast K fd) w))"
    and good_hello: "good (Suc (Suc b)) w \<Longrightarrow> ProcessHello K s msg nn w = Inr w' \<Longrightarrow> good b w'"
    and good_proc: "good b w \<Longrightarrow> entry (nd_io w) (fd, ev) = Some (ProcCb pc) \<Longrightarrow>
      run_proc K (fd, ev) pc res (nd_io w) = Inr (c, io') \<Longrightarrow> good b (w\<lparr>nd_io := io'\<rparr>)"
    and good_callback: "good (2 * n + 2 + b) w \<Longrightarrow> RunCallback n K fd ev res w = Inr w' \<Longrightarrow> good b w'"
begin

lemma frame_incoming_hello:
  assumes "good b w" and run: "incoming_hello_cb K a res w = Inr w'"
  shows "le (obs w') (obs w)"
proof -
  obtain addr v where v: "sys (get_fd_addr K (Get a (nd_io w))) w = (addr, v)" by force
  with good_reads(1) [OF assms(1), of "Get a (nd_io w)"] frame_snd(1) [of "get_fd_addr K (Get a (nd_io w))" w]
  have g: "good b v" "obs v = obs w" by simp_all
  have t: "le (obs u) (obs w)" if "track_peer K s msg v = Inr (r, u)" for s msg r u
    using tracked [OF g(1) that] g(2) by simp
  from run v g(2) show ?thesis
    by (cases res; auto simp: incoming_hello_cb_def Let_def chain_eq_Inr split: option.split_asm if_split_asm)
      (auto dest!: frame_start_io frame_answer_sent t split: option.split_asm user_call.split_asm)
qed

lemma frame_incoming_exchange: "IncomingHelloExchange K fd w = Inr w' \<Longrightarrow> obs w' = obs w"
  by (auto simp: IncomingHelloExchange_def on_io_Create chain_eq_Inr incoming_hello_cb_def start_io_def
      dest!: RecvMessage_call split: option.split_asm)

lemma frame_AcceptConn: "AcceptConn K w = Inr w' \<Longrightarrow> obs w' = obs w"
  by (auto simp: AcceptConn_def sys_def case_prod_beta Let_def dest!: frame_incoming_exchange split: if_split_asm)

lemma frame_perform: "good b w \<Longrightarrow> perform K a c w = Inr w' \<Longrightarrow> le (obs w') (obs w)"
  by (auto simp: perform_def frame_incoming_hello frame_outgoing_answer frame_read_cb frame_answer_sent
      frame_notify_sent frame_sending split: user_call.split_asm recv_resolve.split_asm send_resolve.split_asm)

lemma frame_OnNeighborFound:
  assumes "OnNeighborFound K p w = Inr w'"
  shows "obs w' = obs (notify (NewNeighbour GetTransportId p) w)"
proof -
  have "obs (notify (NewNeighbour GetTransportId p) (SendBroadcastHello K w)) = obs (notify (NewNeighbour GetTransportId p) w)"
    by (rule again) simp
  with assms show ?thesis
    by (auto simp: OnNeighborFound_def NotifyNewNeighbour_def mgr_OpenSession_def OpenSession_def
        dest!: frame_EstablishConnection split: if_split_asm)
qed

lemma frame_ProcessHello: "good b w \<Longrightarrow> ProcessHello K a msg n w = Inr w' \<Longrightarrow> le (obs w') (obs w)"
  by (auto simp: ProcessHello_def chain_eq_Inr tracked found dest!: frame_OnNeighborFound split: if_split_asm)

lemma frame_ReceiveBroadcasts: "good (2 * n + b) w \<Longrightarrow> ReceiveBroadcasts n K w = Inr w' \<Longrightarrow> le (obs w') (obs w)"
proof (induction n arbitrary: w)
  case (Suc n)
  obtain r v where r: "sys (read_broadcast K (broadcastFd w)) w = (r, v)" by force
  with good_reads(2) [OF Suc.prems(1), of "broadcastFd w"] frame_snd(1) [of "read_broadcast K (broadcastFd w)" w]
  have g: "good (Suc (Suc (2 * n + b))) v" "obs v = obs w" by simp_all
  have "good (2 * n + b) v" by (rule good_mono [OF g(1)]) simp
  then have skip: "le (obs w') (obs w)" if "ReceiveBroadcasts n K v = Inr w'" using Suc.IH [OF _ that] g(2) by simp
  have more: "le (obs w') (obs w)" if "ProcessHello K a m True v = Inr u" "ReceiveBroadcasts n K u = Inr w'" for a m u
    using trans [OF Suc.IH [OF good_hello [OF g(1) that(1)] that(2)] frame_ProcessHello [OF g(1) that(1)]] g(2) by simp
  from Suc.prems(2) r g(2) skip more show ?case by (auto simp: chain_eq_Inr split: option.split_asm if_split_asm)
qed simp

lemma frame_lost_interfaces: "lost_interfaces K ifs xs w = (r, w') \<Longrightarrow> le (obs w') (obs w)"
proof (induction xs arbitrary: w w' r)
  case (Cons x xs)
  obtain i p where x: "x = (i, p)" by (cases x)
  let ?w = "OnNeighborLost p (CloseSession K p ALL_DIR w)"
  obtain q v where v: "lost_interfaces K ifs xs ?w = (q, v)" by force
  have "le (obs ?w) (obs w)"
    using gone [of p "CloseSession K p ALL_DIR w"] by (simp add: OnNeighborLost_def CloseSession_def)
  with Cons.prems x v show ?case using trans [OF Cons.IH [OF v]] by (auto simp: Let_def dest: Cons.IH split: if_split_asm)
qed simp

lemma frame_ProcessNetworkUpdate: "ProcessNetworkUpdate n K w = Inr w' \<Longrightarrow> le (obs w') (obs w)"
proof -
  have "le (obs (snd (lost_interfaces K ifs xs v))) (obs v)" for ifs xs v
    by (rule frame_lost_interfaces) (rule prod.collapse [symmetric])
  then show "ProcessNetworkUpdate n K w = Inr w' \<Longrightarrow> le (obs w') (obs w)"
    by (auto simp: ProcessNetworkUpdate_def case_prod_beta Let_def chain_eq_Inr) (metis frame_kern(1) frame_snd(1))
qed

lemma frame_RunCallback:
  assumes g: "good (2 * n + 2 + b) w" and run: "RunCallback n K fd ev res w = Inr w'"
  shows "le (obs w') (obs w)"
proof (cases "find_keeper (io_loop (nd_io w)) fd ev")
  case (Some keeper)
  with run have keeper: "run_keeper n K (fd, ev) (ck_callback keeper) res w = Inr w'" by (simp add: RunCallback_def)
  have "good (2 * n + b) w" by (rule good_mono [OF g]) simp
  then have recv: "le (obs w') (obs w)" if "ReceiveBroadcasts n K w = Inr w'" using frame_ReceiveBroadcasts that by blast
  show ?thesis
  proof (cases "ck_callback keeper")
    case (ProcCb p)
    with keeper obtain c io' where p: "run_proc K (fd, ev) p res (nd_io w) = Inr (c, io')"
      and w': "(case c of None \<Rightarrow> Inr (w\<lparr>nd_io := io'\<rparr>) | Some c \<Rightarrow> perform K (pc_self p) c (w\<lparr>nd_io := io'\<rparr>)) = Inr w'"
      by (auto simp: run_keeper_def chain_eq_Inr Let_def)
    have "entry (nd_io w) (fd, ev) = Some (ProcCb p)" using Some ProcCb by (simp add: entry_def)
    from frame_perform [OF good_proc [OF g this p]] w' show ?thesis by (cases c) auto
  qed (use keeper recv lost in \<open>auto simp: run_keeper_def frame_AcceptConn frame_ProcessNetworkUpdate\<close>)
qed (use run in \<open>simp add: RunCallback_def\<close>)

lemma frame_run_callbacks:
  "good ((2 * n + 2) * length evs + b) w \<Longrightarrow> run_callbacks n K fd evs w = Inr w' \<Longrightarrow> le (obs w') (obs w)"
proof (induction evs arbitrary: w)
  case (Cons x evs)
  obtain ev res where x: "x = (ev, res)" by (cases x)
  with Cons.prems(2) obtain v where v: "RunCallback n K fd ev res w = Inr v" "run_callbacks n K fd evs v = Inr w'"
    by (auto simp: chain_eq_Inr)
  have g: "good (2 * n + 2 + ((2 * n + 2) * length evs + b)) w" using Cons.prems(1) by (simp add: algebra_simps)
  show ?case by (rule trans [OF Cons.IH [OF good_callback [OF g v(1)] v(2)] frame_RunCallback [OF g v(1)]])
qed simp

lemma frame_run_event:
  assumes g: "good (4 * n + 4 + b) w" and run: "run_event n K e w = Inr (stop, w')"
  shows "le (obs w') (obs w)"
proof -
  have "(2 * n + 2) * length (callbacks_of_event (snd e)) \<le> (2 * n + 2) * 2"
    by (rule mult_le_mono2) (simp add: callbacks_of_event_def)
  then have "(2 * n + 2) * length (callbacks_of_event (snd e)) + b \<le> 4 * n + 4 + b" by simp
  from frame_run_callbacks [OF good_mono [OF g this]] run show ?thesis
    by (auto simp: run_event_def Let_def chain_eq_Inr split: if_split_asm)
qed

lemma frame_node_step: "good (4 * n + 4 + b) w \<Longrightarrow> node_step n K env w w' \<Longrightarrow> le (obs w') (obs w)"
  by (erule node_stepE)
    (auto simp: mgr_OpenSession_def mgr_SendMessage_def mgr_CloseSession_def CloseSession_def OpenSession_def
        transport_SendMessage_def Let_def frame_run_event
        dest!: frame_EstablishConnection frame_conn_SendMessage split: if_split_asm)

lemma frame_node_steps:
  assumes step: "\<And>b w w'. good (4 * n + 4 + b) w \<Longrightarrow> node_step n K env w w' \<Longrightarrow> good b w'"
  shows "node_steps n K env w0 i w \<Longrightarrow> good (i * (4 * n + 4) + b) w0 \<Longrightarrow> le (obs w) (obs w0) \<and> good b w"
proof (induction arbitrary: b rule: node_steps.induct)
  case (step i w w')
  then have "le (obs w) (obs w0)" and g: "good (4 * n + 4 + b) w" using step.IH [of "4 * n + 4 + b"] by (simp_all add: algebra_simps)
  with assms [OF g step.hyps(2)] frame_node_step [OF g step.hyps(2)] show ?case by (auto intro: trans)
qed simp

end

section \<open>All operations\<close>

locale node_frame = conn_frame obs for obs :: "'k node \<Rightarrow> 'a" +
  assumes peers [simp]: "obs (w\<lparr>fdToPeer := a\<rparr>) = obs w" "obs (w\<lparr>peerToFd := b\<rparr>) = obs w" "obs (w\<lparr>peerToAddr := c\<rparr>) = obs w"
      "obs (w\<lparr>addrToPeer := d\<rparr>) = obs w" "obs (w\<lparr>ifToPeer := e\<rparr>) = obs w"
    and neighbour [simp]: "obs (notify (NewNeighbour t p) w) = obs w" "obs (notify (LostNeighbour t p) w) = obs w"
begin

lemma frame_ProcessPeerLost: "obs (ProcessPeerLost K fd w) = obs w"
  by (simp add: ProcessPeerLost_def OnNeighborLost_def case_prod_beta Let_def split: option.split)

lemma frame_track_peer: "track_peer K a msg w = Inr (r, w') \<Longrightarrow> obs w' = obs w"
  by (auto simp: track_peer_def sys_def case_prod_beta Let_def chain_eq_Inr dest!: frame_register_input
      split: option.split_asm if_split_asm)

end

sublocale node_frame \<subseteq> peer_frame obs K "(=)" "\<lambda>_ _. True" for K
  by unfold_locales (simp_all add: frame_track_peer frame_ProcessPeerLost)

end
