(* ===== verification/Faults.thy ===== *)
theory Faults
  imports Frames
begin

text \<open>
  Which faults a started process can run into. An operation never takes the first element
  of an empty queue, never addresses a transport that is not registered, never starts an
  operation on an object that has one; what is left is named by \<open>faults_of\<close>: the
  assertion on the length of a message, an address on no interface, and the address
  computation of \<open>ProcData\<close>.
\<close>

section \<open>The registered transports\<close>

text \<open>No operation after \<open>RegisterTransport\<close> changes the registered transports.\<close>

interpretation transports: node_frame nd_transports
  by unfold_locales (simp_all add: notify_def)

lemmas transports_steps = transports.frame_node_steps [OF TrueI _ TrueI, THEN conjunct1]

lemma transports_start: "IpTransport_Start K w = Inr (True, w') \<Longrightarrow> nd_transports w' = nd_transports w"
  by (auto simp: IpTransport_Start_def BroadcastManager_Start_def ConnectionManager_Start_def case_prod_beta Let_def chain_eq_Inr
      dest!: transports.frame_register_input split: if_split_asm)

lemma running_transports: "running_with b n K opn env self w \<Longrightarrow> nd_transports w = [GetTransportId]"
  by (auto simp: running_with_def RegisterTransport_def new_node_def dest!: transports_start transports_steps)

section \<open>Operations that never fault\<close>

lemma register_not_Inl:
  "RegisterAction K fd dir cb 0 afd l k \<noteq> Inl f" "register_input K fd c w \<noteq> Inl f"
proof -
  show "RegisterAction K fd dir cb 0 afd l k \<noteq> Inl f"
    using RegisterAction_no_fault [OF refl, of K fd dir cb afd l k] by auto
  show "register_input K fd c w \<noteq> Inl f" using register_input_no_fault [of K fd c w] by auto
qed

lemma start_stage_no_fault: "start_stage K a func data sz st w \<noteq> Inl f"
proof (cases "afd_token (io_afds w a) = 0")
  case True
  then show ?thesis by (auto simp: start_stage_def ProcData_def Let_def chain_eq_Inl register_not_Inl)
next
  case False
  then show ?thesis
    by (auto simp: start_stage_def ProcData_def Let_def chain_eq_Inl ReplaceAction_def word_gt_0
        split: option.split_asm prod.split_asm if_split_asm)
qed

lemma start_recv_no_fault: "start_io (RecvMessage K a r) w \<noteq> Inl f"
  by (auto simp: start_io_def RecvMessage_def chain_eq_Inl start_stage_no_fault)

lemma start_send_fault: "start_io (SendMessage K a m s u) w = Inl f \<Longrightarrow> f = AssertFailure \<and> of_nat (length m) = (0 :: u32)"
  by (auto simp: start_io_def SendMessage_def chain_eq_Inl start_stage_no_fault Let_def word_gt_0 split: if_split_asm)

lemma start_hello_no_fault: "start_io (SendMessage K a (Serialize (make_hello p t)) s u) w \<noteq> Inl f"
  by (auto dest: start_send_fault simp: sizeof_HelloMsg_def)

lemma start_recv_call: "start_io (RecvMessage K a r) w = Inr (Some u, w') \<Longrightarrow> u = RecvResolved r (Err IoFailed)"
  by (auto simp: start_io_def chain_eq_Inr dest: RecvMessage_call)

lemma start_send_call: "start_io (SendMessage K a m s b) w = Inr (Some u, w') \<Longrightarrow> u = SendResolved s (Err IoFailed)"
  by (auto simp: start_io_def chain_eq_Inr dest: SendMessage_call)

lemma ReadMessage_no_fault: "ReadMessage K fd w \<noteq> Inl f"
  by (auto simp: ReadMessage_def on_io_Create chain_eq_Inl start_recv_no_fault)

lemma read_cb_no_fault: "read_cb K a res w \<noteq> Inl f"
  by (auto simp: read_cb_def on_io_Release ReadMessage_no_fault Let_def split: option.split io_result.split)

lemma answer_sent_no_fault: "answer_sent_cb K p a res w \<noteq> Inl f"
  by (auto simp: answer_sent_cb_def on_io_Release ReadMessage_no_fault Let_def split: io_result.split)

lemma outgoing_answer_no_fault: "outgoing_answer_cb K p a res w \<noteq> Inl f"
  by (auto simp: outgoing_answer_cb_def on_io_Release ReadMessage_no_fault chain_eq_Inl Let_def split: io_result.split option.split)

lemma notify_sent_no_fault: "notify_sent_cb K p a res w \<noteq> Inl f"
  by (cases res; auto simp: notify_sent_cb_def chain_eq_Inl start_recv_no_fault)
    (auto simp: outgoing_answer_no_fault split: option.split_asm user_call.split_asm)

lemma outgoing_exchange_no_fault: "OutgoingHelloExchange K fd p w \<noteq> Inl f"
  by (auto simp: OutgoingHelloExchange_def on_io_Create chain_eq_Inl start_hello_no_fault)
    (auto simp: notify_sent_no_fault split: option.split_asm user_call.split_asm)

lemma EstablishConnection_no_fault: "EstablishConnection K p w \<noteq> Inl f"
  by (auto simp: EstablishConnection_def outgoing_exchange_no_fault case_prod_beta Let_def split: option.split)

lemma incoming_exchange_no_fault: "IncomingHelloExchange K fd w \<noteq> Inl f"
  by (auto simp: IncomingHelloExchange_def on_io_Create chain_eq_Inl start_recv_no_fault)
    (auto simp: incoming_hello_cb_def dest: start_recv_call split: option.split_asm user_call.split_asm)

lemma AcceptConn_no_fault: "AcceptConn K w \<noteq> Inl f"
  by (auto simp: AcceptConn_def incoming_exchange_no_fault case_prod_beta)

section \<open>Operations that may\<close>

lemma track_peer_fault: "track_peer K a msg w = Inl f \<Longrightarrow> f = NullString"
  by (auto simp: track_peer_def case_prod_beta Let_def chain_eq_Inl register_not_Inl split: option.split_asm if_split_asm)

lemma incoming_hello_fault: "incoming_hello_cb K a res w = Inl f \<Longrightarrow> f = NullString \<and> (\<exists>m. res = Ok m)"
  by (cases res; auto simp: incoming_hello_cb_def case_prod_beta Let_def chain_eq_Inl start_hello_no_fault
        dest!: track_peer_fault split: option.split_asm if_split_asm)
    (auto simp: answer_sent_no_fault split: option.split_asm user_call.split_asm)

lemma OnNeighborFound_no_fault: "GetTransportId \<in> set (nd_transports w) \<Longrightarrow> OnNeighborFound K p w \<noteq> Inl f"
  by (simp add: OnNeighborFound_def NotifyNewNeighbour_def mgr_OpenSession_def OpenSession_def EstablishConnection_no_fault)

lemma ProcessHello_fault:
  assumes "GetTransportId \<in> set (nd_transports w)" and "ProcessHello K a msg n w = Inl f"
  shows "f = NullString"
  using assms transports.frame_track_peer [of K a msg w]
  by (fastforce simp: ProcessHello_def chain_eq_Inl OnNeighborFound_no_fault dest: track_peer_fault split: if_split_asm)

lemma ReceiveBroadcasts_fault:
  "GetTransportId \<in> set (nd_transports w) \<Longrightarrow> ReceiveBroadcasts n K w = Inl f \<Longrightarrow> f = OutOfFuel \<or> f = NullString"
proof (induction n arbitrary: w)
  case (Suc n)
  have more: "f = OutOfFuel \<or> f = NullString" if "ProcessHello K a m True v = Inr u" "nd_transports v = nd_transports w"
    "ReceiveBroadcasts n K u = Inl f" for a m u v
    by (rule Suc.IH [OF _ that(3)]) (use transports.frame_ProcessHello [OF TrueI that(1)] that(2) Suc.prems(1) in simp)
  have bad: "f = NullString" if "ProcessHello K a m True v = Inl f" "nd_transports v = nd_transports w" for a m v
    by (rule ProcessHello_fault [OF _ that(1)]) (use that(2) Suc.prems(1) in simp)
  from Suc.prems(2) show ?case
    by (auto simp: case_prod_beta chain_eq_Inl Suc.prems(1) dest: Suc.IH [rotated] more bad split: option.split_asm if_split_asm)
qed simp

lemma clear_netlink_fault: "clear_netlink_socker n K fd k = Inl f \<Longrightarrow> f = OutOfFuel"
proof (induction n arbitrary: k)
  case (Suc n)
  then show ?case by (auto split: recv_result.split_asm prod.split_asm if_split_asm)
qed simp

lemma ProcessNetworkUpdate_fault: "ProcessNetworkUpdate n K w = Inl f \<Longrightarrow> f = OutOfFuel"
  by (auto simp: ProcessNetworkUpdate_def chain_eq_Inl case_prod_beta Let_def dest: clear_netlink_fault)

text \<open>
  Sending asserts that the message is not empty (its length is taken modulo \<open>2 ^ 32\<close>). The
  queue is never empty when its first element is taken away.
\<close>

definition empty_message :: "message \<Rightarrow> bool" where
  "empty_message m \<longleftrightarrow> of_nat (length m) = (0 :: u32)"

definition empty_queued :: "descr \<Rightarrow> 'k node \<Rightarrow> bool" where
  "empty_queued fd w \<longleftrightarrow> (case sendQueues w fd of None \<Rightarrow> False | Some q \<Rightarrow> \<exists>m\<in>set q. empty_message m)"

context os_contract
begin

lemma sent_cb_fault_step:
  assumes IH: "\<And>w fd. queue_len fd w < queue_len (Get a (nd_io v)) v \<Longrightarrow> ninv (Suc b) pend w \<Longrightarrow>
      slot opn w fd Sending \<Longrightarrow> SendMessageFd K fd w = Inl f \<Longrightarrow> f = AssertFailure \<and> empty_queued fd w"
    and inv: "ninv (Suc b) pend v" and rdy: "ready opn v a Sending" and run: "sent_cb K a v = Inl f"
  shows "f = AssertFailure \<and> (\<exists>m q. sendQueues v (Get a (nd_io v)) = Some (m # q) \<and> (\<exists>m\<in>set q. empty_message m))"
proof -
  let ?fd = "Get a (nd_io v)"
  from rdy have slot: "slot opn v ?fd Sending" by (simp add: ready_def)
  then obtain c where act: "activeConns v ?fd = Some c" by (auto simp: slot_def)
  note D = conns_invD [OF node_invD(5) [OF inv]]
  from D(2) [of ?fd] act slot obtain m q where q: "sendQueues v ?fd = Some (m # q)"
    by (cases "sendQueues v ?fd") (auto simp: slot_def neq_Nil_conv)
  let ?v1 = "v\<lparr>sendQueues := (sendQueues v)(?fd \<mapsto> q)\<rparr>"
  have n1: "ninv (Suc b) pend ?v1" by (rule ninv_queue [OF inv q]) (use slot in \<open>simp add: slot_def\<close>)
  let ?v2 = "?v1\<lparr>nd_io := snd (Release K a (nd_io ?v1))\<rparr>"
  from run act q have r: "q \<noteq> []" "SendMessageFd K ?fd ?v2 = Inl f"
    by (auto simp: sent_cb.simps [of K a v] sent_pop_def Let_def on_io_Release split: if_splits)
  from slot r(1) have "slot opn ?v1 ?fd Sending" by (simp add: slot_def system_fd_def)
  then have s2: "slot opn ?v2 ?fd Sending" by (rule release_node(2) [OF n1])
  have "queue_len ?fd ?v2 < queue_len ?fd v" using q by (simp add: queue_len_def)
  from IH [OF this release_node(1) [OF n1] s2 r(2)] q show ?thesis by (simp add: empty_queued_def)
qed

lemma SendMessageFd_fault:
  "ninv (Suc b) pend w \<Longrightarrow> slot opn w fd Sending \<Longrightarrow> SendMessageFd K fd w = Inl f \<Longrightarrow>
     f = AssertFailure \<and> empty_queued fd w"
proof (induction "queue_len fd w" arbitrary: fd w rule: less_induct)
  case less
  let ?a = "io_next (nd_io w)" and ?w = "w\<lparr>nd_io := snd (Create fd (nd_io w))\<rparr>"
  note C = create_ready [OF less.prems(1,2)]
  from less.prems(3) obtain m w1 where t: "take_front fd ?w = Some (m, w1)"
    by (cases "take_front fd ?w") (auto simp: SendMessageFd.simps [of K fd w] on_io_Create)
  then obtain q where q: "sendQueues w fd = Some (m # q)" and w1: "w1 = ?w\<lparr>sendQueues := (sendQueues ?w)(fd \<mapsto> [] # q)\<rparr>"
    by (auto simp: take_front_def split: option.splits list.splits)
  have n1: "ninv (Suc b) pend w1" unfolding w1 by (rule ninv_queue [OF C(1)]) (simp_all add: q)
  have r1: "ready opn w1 ?a (goal_role (Inr SendNext))"
    using C(2) by (simp add: ready_def w1 slot_def system_fd_def)
  show ?case
  proof (cases "start_io (SendMessage K ?a m SendNext True) w1")
    case (Inl e)
    with less.prems(3) t have "e = f" by (simp add: SendMessageFd.simps [of K fd w] on_io_Create)
    with start_send_fault [OF Inl] q show ?thesis by (simp add: empty_queued_def empty_message_def)
  next
    case (Inr x)
    then obtain u w2 where start: "start_io (SendMessage K ?a m SendNext True) w1 = Inr (u, w2)" by (cases x) auto
    note S = started_send [OF n1 r1 start, unfolded started_ok_def]
    from less.prems(3) t start have f: "(case u of None \<Rightarrow> Inr w2 | Some _ \<Rightarrow> sent_cb K ?a w2) = Inl f"
      by (simp add: SendMessageFd.simps [of K fd w] on_io_Create)
    then obtain x where Some: "u = Some x" and c: "sent_cb K ?a w2 = Inl f" by (cases u) auto
    from S Some have n2: "ninv (Suc b) pend w2" "ready opn w2 ?a Sending" and w2: "w2 = w1\<lparr>nd_io := nd_io w2\<rparr>"
      and G: "Get ?a (nd_io w2) = Get ?a (nd_io w1)" by simp_all
    have fd: "Get ?a (nd_io w2) = fd" using G by (simp add: w1)
    have sq: "sendQueues w2 fd = Some ([] # q)" by (subst w2) (simp add: w1)
    have len: "queue_len (Get ?a (nd_io w2)) w2 = queue_len fd w" by (simp add: fd queue_len_def q sq)
    have "f = AssertFailure \<and> (\<exists>m q. sendQueues w2 (Get ?a (nd_io w2)) = Some (m # q) \<and> (\<exists>m\<in>set q. empty_message m))"
      by (rule sent_cb_fault_step [OF _ n2 c]) (rule less.hyps, simp_all only: len)
    then show ?thesis by (simp add: fd sq q empty_queued_def)
  qed
qed

lemmas sent_cb_fault = sent_cb_fault_step [OF SendMessageFd_fault]

lemma conn_SendMessage_fault:
  assumes inv: "ninv (Suc b) pend w" and run: "conn_SendMessage K peer m w = Inl f"
  shows "f = AssertFailure \<and> empty_message m"
proof -
  let ?fd = "conn_for peer w"
  from run have q: "sendQueues w ?fd = Some []"
    and r: "SendMessageFd K ?fd (w\<lparr>sendQueues := (sendQueues w)(?fd \<mapsto> [m])\<rparr>) = Inl f" (is "SendMessageFd K _ ?w = _")
    by (auto simp: conn_SendMessage_def Let_def split: option.split_asm if_split_asm)
  note D = conns_invD [OF node_invD(5) [OF inv]]
  from D(2) [of ?fd] q obtain c where act: "activeConns w ?fd = Some c" by auto
  have n: "ninv (Suc b) pend ?w" by (rule ninv_queue [OF inv q]) simp
  from quiet_output [OF inv act] q have "entry (nd_io w) (?fd, EPOLLOUT) = None" by simp
  with slot_reading [OF inv act] act have "slot opn ?w ?fd Sending" by (simp add: slot_def system_fd_def)
  from SendMessageFd_fault [OF n this r] show ?thesis by (simp add: empty_queued_def)
qed

end

section \<open>The faults of a callback\<close>

text \<open>What can go wrong in a callback of the loop, by what it does.\<close>

fun goal_faults :: "recv_resolve + send_resolve \<Rightarrow> fault set" where
  "goal_faults (Inl IncomingHello) = {NullString}"
| "goal_faults (Inl _) = {}"
| "goal_faults (Inr SendNext) = {AssertFailure}"
| "goal_faults (Inr _) = {}"

fun stage_faults :: "stage \<Rightarrow> fault set" where
  "stage_faults (RecvLen r) = {AssertFailure, BufferOverrun}"
| "stage_faults (RecvBody r) = insert BufferOverrun (goal_faults (Inl r))"
| "stage_faults (SendLen u m s) = insert BufferOverrun (goal_faults (Inr s))"
| "stage_faults (SendBody s) = insert BufferOverrun (goal_faults (Inr s))"

fun faults_of :: "callback \<Rightarrow> fault set" where
  "faults_of BroadcastCb = {NullString, OutOfFuel}"
| "faults_of NetlinkCb = {OutOfFuel}"
| "faults_of (ProcCb p) = stage_faults (pc_resolve p)"
| "faults_of _ = {}"

lemma callback_faults:
  assumes "f \<in> faults_of cb"
  shows "f \<notin> {OutOfRange, EmptyContainer, Uninitialised}"
proof (cases cb)
  case (ProcCb p)
  have "goal_faults g \<subseteq> {NullString, AssertFailure}" for g by (cases g rule: goal_faults.cases) simp_all
  from this [of "Inl _"] this [of "Inr _"] assms ProcCb show ?thesis by (cases "pc_resolve p") auto
qed (use assms in auto)

lemma stage_ok_fault: "stage_ok K a st buf w = Inl f \<Longrightarrow> f \<in> stage_faults st"
  by (cases st) (auto simp: start_stage_no_fault split: option.split_asm if_split_asm)

lemma advance_fault: "proc_advance K key p len data w = Inl f \<Longrightarrow> f \<in> stage_faults (pc_resolve p)"
  by (auto simp: proc_advance_def Let_def dest!: stage_ok_fault split: if_split_asm)

lemma run_proc_fault:
  assumes "run_proc K key p res w = Inl f"
  shows "f \<in> stage_faults (pc_resolve p)"
proof -
  have "BufferOverrun \<in> stage_faults (pc_resolve p)" by (cases "pc_resolve p") simp_all
  with assms show ?thesis
    by (auto simp: run_proc_def Let_def dest!: advance_fault
        split: io_result.split_asm io_func.split_asm recv_result.split_asm prod.split_asm if_split_asm)
qed

text \<open>A received message is handed over by the stage that read its body, never before.\<close>

lemma run_proc_Ok:
  assumes "run_proc K key p res w = Inr (Some (RecvResolved r (Ok m)), w')"
  shows "pc_resolve p = RecvBody r"
  using assms
proof (rule run_proc_cases)
  fix k assume "(\<exists>e. stage_error K (pc_self p) (pc_resolve p) e (w\<lparr>io_kern := k\<rparr>) = (Some (RecvResolved r (Ok m)), w'))
      \<or> (\<exists>len data. proc_advance K key p len data (w\<lparr>io_kern := k\<rparr>) = Inr (Some (RecvResolved r (Ok m)), w'))"
  moreover have "stage_call st e \<noteq> RecvResolved r (Ok m)" for st e by (cases st) simp_all
  ultimately obtain data io where "stage_ok K (pc_self p) (pc_resolve p) data io = Inr (Some (RecvResolved r (Ok m)), w')"
    by (auto simp: stage_error_def proc_advance_def Let_def split: if_split_asm)
  then show ?thesis
    by (cases "pc_resolve p") (auto dest: start_stage_call split: option.split_asm if_split_asm)
qed

context os_contract
begin

lemma perform_fault:
  assumes inv: "ninv (Suc b) pend w" and rdy: "ready opn w a (goal_role (call_goal c))" and run: "perform K a c w = Inl f"
  shows "f \<in> goal_faults (call_goal c) \<and> (\<forall>r res. c = RecvResolved r res \<longrightarrow> (\<exists>m. res = Ok m))"
proof (cases c)
  case (RecvResolved r res)
  with run show ?thesis
    by (cases r) (auto simp: perform_def outgoing_answer_no_fault read_cb_no_fault dest!: incoming_hello_fault)
next
  case (SendResolved s res)
  with run rdy sent_cb_fault [OF _ _ _ inv] show ?thesis
    by (cases s) (auto simp: perform_def answer_sent_no_fault notify_sent_no_fault)
qed

lemma run_keeper_fault:
  assumes inv: "ninv (Suc b) pend w" and e: "entry (nd_io w) (fd, ev) = Some cb"
    and reg: "GetTransportId \<in> set (nd_transports w)" and run: "run_keeper n K (fd, ev) cb res w = Inl f"
  shows "f \<in> faults_of cb"
proof (cases cb)
  case (ProcCb p)
  note e = e [unfolded ProcCb]
  show ?thesis
  proof (cases "run_proc K (fd, ev) p res (nd_io w)")
    case (Inl g)
    with run have "g = f" by (simp add: run_keeper_def ProcCb)
    with run_proc_fault [OF Inl] show ?thesis by (simp add: ProcCb)
  next
    case (Inr x)
    obtain c io where r: "run_proc K (fd, ev) p res (nd_io w) = Inr (c, io)" using Inr by (cases x) simp
    with run obtain u where u: "c = Some u" "perform K (pc_self p) u (w\<lparr>nd_io := io\<rparr>) = Inl f"
      by (auto simp: run_keeper_def ProcCb Let_def split: option.split_asm)
    have goal: "call_goal u = stage_goal (pc_resolve p)"
      using run_proc_inv [OF node_invD(1) [OF inv] e r] u(1) by (simp add: ran_def)
    note P = perform_fault [OF run_proc_node(1) [OF inv e r] run_proc_node(2) [OF inv e r u(1)] u(2)]
    have "pc_resolve p \<noteq> RecvLen q" for q
    proof
      assume st: "pc_resolve p = RecvLen q"
      with goal obtain res' where "u = RecvResolved q res'" by (cases u) auto
      with P obtain m where "u = RecvResolved q (Ok m)" by blast
      with run_proc_Ok [of K "(fd, ev)" p res "nd_io w" q m io] r u(1) st show False by simp
    qed
    with P goal show ?thesis by (cases "pc_resolve p") (auto simp: ProcCb)
  qed
qed (use run in \<open>auto simp: run_keeper_def AcceptConn_no_fault dest: ReceiveBroadcasts_fault [OF reg] ProcessNetworkUpdate_fault\<close>)

lemma RunCallback_fault:
  assumes "ninv (Suc b) pend w" and "GetTransportId \<in> set (nd_transports w)" and "RunCallback n K fd ev res w = Inl f"
  shows "\<exists>cb. entry (nd_io w) (fd, ev) = Some cb \<and> f \<in> faults_of cb"
proof (cases "find_keeper (io_loop (nd_io w)) fd ev")
  case (Some c)
  then have e: "entry (nd_io w) (fd, ev) = Some (ck_callback c)" by (simp add: entry_def)
  from Some assms(3) have "run_keeper n K (fd, ev) (ck_callback c) res w = Inl f" by (simp add: RunCallback_def)
  from run_keeper_fault [OF assms(1) e assms(2) this] e show ?thesis by blast
qed (use assms(3) in \<open>simp add: RunCallback_def\<close>)

lemma RunCallback_keeps:
  assumes inv: "ninv (2 * n + 2 + b) pend w" and r: "RunCallback n K fd ev res w = Inr w'"
  shows "ninv b pend w'"
  using ninv_run_callbacks [of n "[(ev, res)]" b pend w fd w'] assms by simp

lemma run_event_fault:
  assumes inv: "ninv (2 * n + 3) pend w" and reg: "GetTransportId \<in> set (nd_transports w)" and run: "run_event n K (fd, ev) w = Inl f"
  shows "(\<exists>w' d cb. entry (nd_io w') (fd, d) = Some cb \<and> f \<in> faults_of cb \<and> (ev AND (EPOLLHUP OR EPOLLERR) = 0 \<longrightarrow> w' = w))"
proof -
  have inv1: "ninv (Suc 0) pend w" by (rule node_inv_mono [OF inv]) simp
  from run have r: "run_callbacks n K fd (callbacks_of_event ev) w = Inl f"
    by (auto simp: run_event_def Let_def chain_eq_Inl split: if_split_asm)
  show ?thesis
  proof (cases "ev AND (EPOLLHUP OR EPOLLERR) = 0")
    case True
    then have "ev AND EPOLLHUP = 0 \<and> ev AND EPOLLERR = 0"
      by (metis bit.conj_disj_distrib or_eq_0_iff)
    with r obtain d res where "RunCallback n K fd d res w = Inl f"
      by (auto simp: callbacks_of_event_def chain_eq_Inl split: if_split_asm)
    from RunCallback_fault [OF inv1 reg this] show ?thesis by blast
  next
    case False
    then have "ev AND EPOLLHUP \<noteq> 0 \<or> ev AND EPOLLERR \<noteq> 0"
      by (metis bit.conj_disj_distrib or_eq_0_iff)
    with r consider "RunCallback n K fd EPOLLIN (Err IoFailed) w = Inl f"
      | w1 where "RunCallback n K fd EPOLLIN (Err IoFailed) w = Inr w1" "RunCallback n K fd EPOLLOUT (Err IoFailed) w1 = Inl f"
      by (auto simp: callbacks_of_event_def chain_eq_Inl split: if_split_asm)
    then show ?thesis
    proof cases
      case 1
      from RunCallback_fault [OF inv1 reg this] show ?thesis by blast
    next
      case 2
      have "ninv (2 * n + 2 + Suc 0) pend w" by (rule node_inv_mono [OF inv]) simp
      from RunCallback_fault [OF RunCallback_keeps [OF this 2(1)] _ 2(2)] transports.frame_RunCallback [OF TrueI 2(1)] reg False
      show ?thesis by fastforce
    qed
  qed
qed

end

section \<open>The faults of a process\<close>

text \<open>The four bytes of a zero length arrive on the connection of the run.\<close>

definition zero_length_acts :: "act list" where
  "zero_length_acts = take 7 run_acts @ [Bytes 11 [0, 0, 0, 0]]"

definition zero_length_fault :: "sim node \<Rightarrow> bool" where
  "zero_length_fault w \<longleftrightarrow> (case run_event 5 sim_kernel (11, EPOLLIN) w of Inl f \<Rightarrow> f = AssertFailure | Inr _ \<Rightarrow> False)"

lemma zero_length_holds: "run_holds (sim0\<lparr>sim_ifs := [sim_if]\<rparr>) zero_length_acts zero_length_fault"
  by code_simp

text \<open>
  C10: progress of the event loop. In every state of a started process an event is handled
  without a fault, except for the faults of its callback: a connection may be cut off by the
  assertion on a length or by the address computation of \<open>ProcData\<close>, a hello may come from
  an address on no interface, the two reading loops may exceed the model's rounds. Accepting,
  the periodic hello and a lost peer's timer never fault, and no event, whatever its mask,
  takes from an empty queue, addresses an unregistered transport or reads what was never set.
\<close>

theorem event_faults:
  assumes "os_ok K interest opn env" and "running_with (2 * n + 3) n K opn env self w"
    and "run_event n K (fd, ev) w = Inl f"
  shows "f \<notin> {OutOfRange, EmptyContainer, Uninitialised}
    \<and> (ev AND (EPOLLHUP OR EPOLLERR) = 0 \<longrightarrow> (\<exists>d cb. entry (nd_io w) (fd, d) = Some cb \<and> f \<in> faults_of cb))"
proof -
  from assms(1) have os: "os_contract K interest opn" by (simp add: os_ok_def os_contract_def)
  have "GetTransportId \<in> set (nd_transports w)" by (simp add: running_transports [OF assms(2)])
  from os_contract.run_event_fault [OF os running_with_inv [OF assms(1,2)] this assms(3)]
  obtain w' d cb where "entry (nd_io w') (fd, d) = Some cb" and f: "f \<in> faults_of cb"
    and "ev AND (EPOLLHUP OR EPOLLERR) = 0 \<longrightarrow> w' = w" by blast
  then have "ev AND (EPOLLHUP OR EPOLLERR) = 0 \<longrightarrow> (\<exists>d cb. entry (nd_io w) (fd, d) = Some cb \<and> f \<in> faults_of cb)" by blast
  with callback_faults [OF f] show ?thesis by blast
qed

theorem event_faults_witness:
  "\<exists>w d cb. running 5 sim_kernel (\<lambda>k. set (sim_open k)) sim_env (PeerId 0 0 0 0 0 1) w
     \<and> run_event 5 sim_kernel (11, EPOLLIN) w = Inl AssertFailure
     \<and> entry (nd_io w) (11, d) = Some cb \<and> AssertFailure \<in> faults_of cb"
proof (rule run_holdsD [OF zero_length_holds])
  fix w assume r: "running_with 1000 5 sim_kernel (\<lambda>k. set (sim_open k)) sim_env (PeerId 0 0 0 0 0 1) w"
    and w: "running 5 sim_kernel (\<lambda>k. set (sim_open k)) sim_env (PeerId 0 0 0 0 0 1) w" and "zero_length_fault w"
  then have e: "run_event 5 sim_kernel (11, EPOLLIN) w = Inl AssertFailure"
    by (auto simp: zero_length_fault_def split: sum.splits)
  have "running_with (2 * 5 + 3) 5 sim_kernel (\<lambda>k. set (sim_open k)) sim_env (PeerId 0 0 0 0 0 1) w"
    by (rule running_mono [OF r]) simp
  from event_faults [OF sim_os_ok this e] w e show ?thesis by (auto simp: EPOLLIN_def EPOLLHUP_def EPOLLERR_def)
qed (simp_all add: sim0_def zero_length_acts_def run_acts_def)

text \<open>
  C23: the commands of the transport manager return in every state of a started process:
  opening and closing a session always, sending if the message is not empty (its length
  modulo \<open>2 ^ 32\<close>), addressed to the transport or to any.
\<close>

theorem commands_return:
  assumes "os_ok K interest opn env" and "running_with 1 n K opn env self w" and "tid \<in> {GetTransportId, TRANSPORT_ANY}"
  shows "(\<exists>w'. mgr_OpenSession K GetTransportId peer w = Inr w')
    \<and> (\<exists>w'. mgr_CloseSession K GetTransportId peer dir w = Inr w')
    \<and> (empty_message msg \<or> (\<exists>w'. mgr_SendMessage K tid peer msg w = Inr w'))"
proof (intro conjI)
  have reg: "nd_transports w = [GetTransportId]" by (rule running_transports [OF assms(2)])
  have r: "(\<exists>x. (r :: fault + 'a node) = Inr x) \<longleftrightarrow> (\<forall>f. r \<noteq> Inl f)" for r by (cases r) simp_all
  show "\<exists>w'. mgr_OpenSession K GetTransportId peer w = Inr w'"
    by (simp add: r mgr_OpenSession_def reg OpenSession_def EstablishConnection_no_fault)
  show "\<exists>w'. mgr_CloseSession K GetTransportId peer dir w = Inr w'" by (simp add: mgr_CloseSession_def reg)
  from assms(1) have os: "os_contract K interest opn" by (simp add: os_ok_def os_contract_def)
  have inv: "node_inv interest opn (Suc 0) (\<lambda>_. 0) w" using running_with_inv [OF assms(1,2)] by simp
  from os_contract.conn_SendMessage_fault [OF os inv] assms(3)
  show "empty_message msg \<or> (\<exists>w'. mgr_SendMessage K tid peer msg w = Inr w')"
    by (auto simp: r mgr_SendMessage_def reg transport_SendMessage_def Let_def)
qed

theorem commands_return_witness:
  "\<exists>w w'. running 5 sim_kernel (\<lambda>k. set (sim_open k)) sim_env (PeerId 0 0 0 0 0 1) w
     \<and> mgr_SendMessage sim_kernel TRANSPORT_ANY other_peer [7] w = Inr w'"
proof -
  obtain w where w: "running 5 sim_kernel (\<lambda>k. set (sim_open k)) sim_env (PeerId 0 0 0 0 0 1) w"
    and r: "running_with 1000 5 sim_kernel (\<lambda>k. set (sim_open k)) sim_env (PeerId 0 0 0 0 0 1) w" by (rule sim_run) blast
  have "running_with 1 5 sim_kernel (\<lambda>k. set (sim_open k)) sim_env (PeerId 0 0 0 0 0 1) w" by (rule running_mono [OF r]) simp
  from commands_return [OF sim_os_ok this, of TRANSPORT_ANY other_peer ALL_DIR "[7]"] w
  show ?thesis by (simp add: empty_message_def) blast
qed

end
