(* ===== verification/Incoming.thy ===== *)
theory Incoming
  imports Sessions Faults
begin

text \<open>
  The incoming hello exchange: what the first message of an accepted connection leads to,
  and when the connection becomes a session.
\<close>

section \<open>The first message\<close>

lemma loop_fds_register_input: "register_input K fd cb w = Inr (r, w') \<Longrightarrow> loop_fds (nd_io w') = loop_fds (nd_io w)"
  by (erule register_input_result) (auto simp: loop_fds_def set_loop_def dest: RegisterAction_handles)

lemma loop_fds_sys: "loop_fds (nd_io (snd (sys f w))) = loop_fds (nd_io w)"
  by (simp add: sys_def case_prod_beta Let_def)

lemma loop_fds_track_peer: "track_peer K a msg w = Inr (r, w') \<Longrightarrow> loop_fds (nd_io w') = loop_fds (nd_io w)"
  by (auto simp: track_peer_def case_prod_beta Let_def chain_eq_Inr loop_fds_sys dest!: loop_fds_register_input
      split: option.split_asm if_split_asm)

lemma incoming_refused:
  assumes "\<nexists>peer. res = Ok (Serialize (make_hello peer Notify))"
  shows "incoming_hello_cb K a res w = Inr (abandon K a w)"
proof (cases res)
  case (Ok m)
  show ?thesis
  proof (cases "Deserialize m")
    case (Some h)
    have "hm_type h \<noteq> Notify"
    proof
      assume "hm_type h = Notify"
      from answer_of_peer [OF Some refl this] Ok assms show False by blast
    qed
    with Some Ok show ?thesis by (simp add: incoming_hello_cb_def)
  qed (simp add: incoming_hello_cb_def Ok)
qed (simp add: incoming_hello_cb_def)

text \<open>A started answer: nothing of it sent yet.\<close>

definition answering :: "'k node \<Rightarrow> descr \<Rightarrow> peer_id \<Rightarrow> bool" where
  "answering w fd peer \<longleftrightarrow> (\<exists>p. entry (nd_io w) (fd, EPOLLOUT) = Some (ProcCb p)
     \<and> pc_resolve p = SendLen False (Serialize (make_hello (nd_self w) Answer)) (IncomingAnswerSent peer)
     \<and> pc_left p = 4 \<and> pc_size p = 4 \<and> pc_data p = le32 13)"

text \<open>What reading the address of the other end and setting a timer leave as it is.\<close>

definition calm :: "'k kernel \<Rightarrow> ('k \<Rightarrow> 'a) \<Rightarrow> bool" where
  "calm K obs \<longleftrightarrow> (\<forall>fd k. obs (snd (k_getpeername K fd k)) = obs k) \<and> (\<forall>fd i v k. obs (snd (k_timerfd_settime K fd i v k)) = obs k)"

lemma track_peer_known:
  assumes "track_peer K sender h w = Inr (r, w')" and "timer w (hm_id h) \<noteq> 0" and "calm K obs"
  shows "obs (io_kern (nd_io w')) = obs (io_kern (nd_io w))"
proof -
  obtain t m where ix: "map_index 0 (hm_id h) (peerToFd w) = (t, m)" by force
  with timer_index [OF ix] assms show ?thesis
    by (auto simp: track_peer_def Let_def sys_def set_timer_def case_prod_beta calm_def split: if_split_asm)
qed

context live_os
begin

lemma answer_starts:
  assumes inv: "ninv (Suc b) pend w" and rdy: "ready opn w a Handshake" and fd: "Get a (nd_io w) = fd" and plain: "plain w fd"
  shows "\<exists>io'. start_io (SendMessage K a (Serialize (make_hello (nd_self w) Answer)) (IncomingAnswerSent peer) False) w
      = Inr (None, w\<lparr>nd_io := io'\<rparr>) \<and> answering (w\<lparr>nd_io := io'\<rparr>) fd peer"
proof -
  let ?m = "Serialize (make_hello (nd_self w) Answer)"
  have "entry (nd_io w) (Get a (nd_io w), EPOLLOUT) = None" using rdy by (simp add: ready_def slot_def)
  with start_succeeds [OF inv, of a "SendLen False ?m (IncomingAnswerSent peer)" "SendFunctor False" "le32 (of_nat (length ?m))" 4] rdy plain fd
  obtain io' where st: "start_stage K a (SendFunctor False) (le32 (of_nat (length ?m))) 4 (SendLen False ?m (IncomingAnswerSent peer)) (nd_io w) = Inr (None, io')"
    and arm: "armed io' a fd OUTPUT \<lparr>pc_self = a, pc_func = SendFunctor False, pc_left = 4, pc_size = 4,
        pc_data = le32 (of_nat (length ?m)), pc_resolve = SendLen False ?m (IncomingAnswerSent peer)\<rparr>"
    by auto
  from rdy have "afd_token (io_afds (nd_io w) a) = 0" by (simp add: ready_def idle_object_def)
  then have "SendMessage K a ?m (IncomingAnswerSent peer) False (nd_io w) = Inr (True, None, io')"
    using st by (simp add: SendMessage_def Let_def sizeof_HelloMsg_def)
  moreover have "answering (w\<lparr>nd_io := io'\<rparr>) fd peer"
    using armed_entry [OF arm] by (simp add: answering_def sizeof_HelloMsg_def)
  ultimately show ?thesis by (intro exI [of _ io']) (simp add: start_io_def)
qed

lemma notify_reaches_answer:
  assumes inv: "ninv (Suc (Suc b)) pend w" and rdy: "ready opn w a Handshake" and fd: "Get a (nd_io w) = fd" and plain: "plain w fd"
    and addr: "fst (get_fd_addr K fd (io_kern (nd_io w))) = Some sa"
  obtains (fault) "incoming_hello_cb K a (Ok (Serialize (make_hello peer Notify))) w = Inl NullString" and "timer w peer = 0"
  | (answers) w' where "incoming_hello_cb K a (Ok (Serialize (make_hello peer Notify))) w =
        chain (start_io (SendMessage K a (Serialize (make_hello (nd_self w) Answer)) (IncomingAnswerSent peer) False) w')
          (\<lambda>(c, w). case c of Some (SendResolved _ res) \<Rightarrow> answer_sent_cb K peer a res w | _ \<Rightarrow> Inr w)"
      and "ninv (Suc b) pend w'" and "ready opn w' a Handshake" and "Get a (nd_io w') = fd" and "plain w' fd"
      and "nd_trace w' = nd_trace w" and "activeConns w' = activeConns w" and "nd_self w' = nd_self w"
      and "timer w peer \<noteq> 0 \<Longrightarrow> calm K obs \<Longrightarrow> obs (io_kern (nd_io w')) = obs (io_kern (nd_io w))"
proof -
  obtain k where k: "get_fd_addr K fd (io_kern (nd_io w)) = (Some sa, k)" using addr by (metis prod.collapse)
  then have peer: "k = snd (k_getpeername K fd (io_kern (nd_io w)))" by (auto simp: get_fd_addr_def case_prod_beta)
  then have "interest k = interest (io_kern (nd_io w))" "opn k = opn (io_kern (nd_io w))" by simp_all
  note n1 = ninv_kern [OF inv kern_ok_same [OF this]]
  let ?w1 = "set_kern k w" and ?h = "make_hello peer Notify"
  let ?cb = "incoming_hello_cb K a (Ok (Serialize ?h)) w"
  have s: "sys (get_fd_addr K (Get a (nd_io w))) w = (Some sa, ?w1)" by (simp add: sys_def fd k)
  show thesis
  proof (cases "track_peer K (sin_addr sa) ?h ?w1")
    case (Inl f)
    with track_peer_fault [OF Inl] s have "?cb = Inl NullString" by (simp add: incoming_hello_cb_def)
    moreover have "timer w peer = 0"
    proof (rule ccontr)
      assume known: "timer w peer \<noteq> 0"
      obtain t m where ix: "map_index 0 peer (peerToFd ?w1) = (t, m)" by force
      from timer_index [OF ix] known have "t \<noteq> 0" by simp
      with Inl ix show False by (auto simp: track_peer_def Let_def split: if_split_asm)
    qed
    ultimately show thesis by (rule fault)
  next
    case (Inr x)
    obtain r w2 where t: "track_peer K (sin_addr sa) ?h ?w1 = Inr (r, w2)" using Inr by (cases x) simp
    note T = ninv_track_peer [OF n1(1) t]
    have kp: "keeps (Suc b) ?w1 w2" by (rule track_peer_keeps [OF n1(1) t])
    then have same: "nd_trace w2 = nd_trace w" "activeConns w2 = activeConns w" "nd_self w2 = nd_self w" "Get a (nd_io w2) = fd"
      using fd by (simp_all add: keeps_def conn_part_def Get_def)
    have "plain w2 fd" using plain plain_cong [of w2 w] loop_fds_track_peer [OF t] by simp
    moreover have "?cb = chain (start_io (SendMessage K a (Serialize (make_hello (nd_self w) Answer)) (IncomingAnswerSent peer) False) w2)
          (\<lambda>(c, w). case c of Some (SendResolved _ res) \<Rightarrow> answer_sent_cb K peer a res w | _ \<Rightarrow> Inr w)"
      using s t same by (simp add: incoming_hello_cb_def)
    moreover have "obs (io_kern (nd_io w2)) = obs (io_kern (nd_io w))" if "timer w peer \<noteq> 0" "calm K obs"
      using track_peer_known [OF t _ that(2)] that peer by (simp add: calm_def)
    ultimately show thesis using answers T(1) T(2) [OF n1(3) [OF rdy]] same by blast
  qed
qed

lemma incoming_notify:
  assumes inv: "ninv (Suc (Suc b)) pend w" and rdy: "ready opn w a Handshake" and fd: "Get a (nd_io w) = fd" and plain: "plain w fd"
    and addr: "fst (get_fd_addr K fd (io_kern (nd_io w))) = Some sa"
  shows "incoming_hello_cb K a (Ok (Serialize (make_hello peer Notify))) w = Inl NullString
    \<or> (\<exists>w'. incoming_hello_cb K a (Ok (Serialize (make_hello peer Notify))) w = Inr w'
        \<and> nd_trace w' = nd_trace w \<and> activeConns w' = activeConns w \<and> nd_self w' = nd_self w \<and> answering w' fd peer)"
  using assms
proof (cases rule: notify_reaches_answer [where peer = peer and obs = "\<lambda>_. ()"])
  case (answers w2)
  from answer_starts [OF answers(2-5), of peer] answers(8) obtain io' where
    st: "start_io (SendMessage K a (Serialize (make_hello (nd_self w) Answer)) (IncomingAnswerSent peer) False) w2 = Inr (None, w2\<lparr>nd_io := io'\<rparr>)"
    and ans: "answering (w2\<lparr>nd_io := io'\<rparr>) fd peer" by auto
  have "incoming_hello_cb K a (Ok (Serialize (make_hello peer Notify))) w = Inr (w2\<lparr>nd_io := io'\<rparr>)" using answers(1) st by simp
  with ans answers(6-8) show ?thesis by auto
qed simp

end

context receiving_os
begin

lemma answer_sent_opens:
  assumes inv: "ninv (Suc b) pend w" and rdy: "ready opn w a Handshake" and fd: "Get a (nd_io w) = fd" and plain: "plain w fd"
  shows "\<exists>w'. answer_sent_cb K peer a (Ok ()) w = Inr w'
    \<and> nd_trace w' = nd_trace w @ [SessionOpened GetTransportId peer INCOMING]
    \<and> activeConns w' = (activeConns w)(fd \<mapsto> (peer, INCOMING)) \<and> sendQueues w' fd = Some [] \<and> plain w' fd
    \<and> reading stream w' fd (stream (io_kern (nd_io (snd (on_io (Release K a) w)))) fd)
    \<and> (quiet K obs \<longrightarrow> obs (io_kern (nd_io w')) = obs (io_kern (nd_io w)))"
proof -
  let ?w1 = "OnLinkEstablishing peer INCOMING (activate fd peer INCOMING w)"
  let ?w2 = "?w1\<lparr>nd_io := snd (Release K a (nd_io ?w1))\<rparr>"
  from rdy fd have slot: "slot opn w fd Handshake" by (simp add: ready_def)
  note A = ninv_activate [OF inv slot, of peer INCOMING]
  have n1: "ninv (Suc b) pend ?w1" by (rule ninv_opened [OF A(1)])
  have io: "nd_io ?w1 = nd_io w" by (simp add: activate_def OnLinkEstablishing_def)
  have act: "activeConns ?w1 = (activeConns w)(fd \<mapsto> (peer, INCOMING))"
    using slot by (simp add: activate_def slot_def OnLinkEstablishing_def)
  have "slot opn (w\<lparr>nd_io := snd (Release K a (nd_io w))\<rparr>) fd Handshake" by (rule release_node(2) [OF inv slot])
  then have "entry (nd_io ?w2) (fd, EPOLLIN) = None" by (simp add: slot_def io)
  moreover have p2: "plain ?w2 fd" using plain plain_cong [of ?w2 w] by (simp add: io)
  moreover have "activeConns ?w2 fd = Some (peer, INCOMING)" by (simp add: act)
  ultimately obtain io' where read: "ReadMessage K fd ?w2 = Inr (?w2\<lparr>nd_io := io'\<rparr>)"
    "reading stream (?w2\<lparr>nd_io := io'\<rparr>) fd (stream (io_kern (nd_io ?w2)) fd)"
    "quiet K obs \<longrightarrow> obs (io_kern io') = obs (io_kern (nd_io ?w2))" "loop_fds io' = loop_fds (nd_io ?w2)"
    using ReadMessage_live [OF release_node(1) [OF n1], where obs = obs] by blast
  have "answer_sent_cb K peer a (Ok ()) w = Inr (?w2\<lparr>nd_io := io'\<rparr>)"
    using read(1) by (simp add: answer_sent_cb_def Let_def on_io_Release io fd)
  moreover have "nd_trace (?w2\<lparr>nd_io := io'\<rparr>) = nd_trace w @ [SessionOpened GetTransportId peer INCOMING]"
    by (simp add: OnLinkEstablishing_def activate_def)
  moreover have "activeConns (?w2\<lparr>nd_io := io'\<rparr>) = (activeConns w)(fd \<mapsto> (peer, INCOMING))" using act by simp
  moreover have "sendQueues w fd = None" using conns_invD(2) [OF node_invD(5) [OF inv], of fd] slot by (simp add: slot_def)
  then have "sendQueues (?w2\<lparr>nd_io := io'\<rparr>) fd = Some []" by (simp add: OnLinkEstablishing_def activate_def)
  moreover have "plain (?w2\<lparr>nd_io := io'\<rparr>) fd" using p2 read(4) plain_cong [of "?w2\<lparr>nd_io := io'\<rparr>" ?w2] by simp
  moreover have "reading stream (?w2\<lparr>nd_io := io'\<rparr>) fd (stream (io_kern (nd_io (snd (on_io (Release K a) w)))) fd)"
    using read(2) by (simp add: reading_def on_io_Release io)
  moreover have "quiet K obs \<longrightarrow> obs (io_kern (nd_io (?w2\<lparr>nd_io := io'\<rparr>))) = obs (io_kern (nd_io w))"
    using read(3) by (auto simp: io Release_def Let_def quiet_Deregister)
  ultimately show ?thesis by blast
qed

end

context os_contract
begin

text \<open>Without the address of the other end the exchange is given up.\<close>

lemma incoming_no_address:
  assumes inv: "ninv b pend w" and rdy: "ready opn w a Handshake" and fd: "Get a (nd_io w) = fd"
    and none: "fst (get_fd_addr K fd (io_kern (nd_io w))) = None"
  shows "\<exists>w'. incoming_hello_cb K a (Ok (Serialize (make_hello peer Notify))) w = Inr w' \<and> nd_trace w' = nd_trace w
    \<and> activeConns w' = activeConns w \<and> fd \<notin> opn (io_kern (nd_io w')) \<and> (\<forall>ev. entry (nd_io w') (fd, ev) = None)"
proof -
  obtain k where k: "get_fd_addr K fd (io_kern (nd_io w)) = (None, k)" using none by (metis prod.collapse)
  then have "k = snd (k_getpeername K fd (io_kern (nd_io w)))" by (auto simp: get_fd_addr_def case_prod_beta)
  then have "kern_ok (io_kern (nd_io w)) k" by (intro kern_ok_same) simp_all
  note N = ninv_kern [OF inv this]
  have "incoming_hello_cb K a (Ok (Serialize (make_hello peer Notify))) w = Inr (abandon K a (set_kern k w))"
    using fd k by (simp add: incoming_hello_cb_def sys_def)
  moreover have "Get a (nd_io (set_kern k w)) = fd" using fd by (simp add: Get_def)
  ultimately show ?thesis using abandon_effect [OF N(1) N(3) [OF rdy]] by simp
qed

end

section \<open>How the exchange ends\<close>

text \<open>
  C17: what the first message of an accepted connection leads to, in every state a started
  process reaches, when it is complete or reading it has failed. If it is, byte for byte, a
  peer's notifying hello and the peer's address can be read, the answer is being sent to it
  and nothing is reported yet (a peer first seen this way is never reported as a neighbour),
  or its address is on no interface and building the interface's name faults; otherwise the
  connection is closed with no callback left on it, and nothing is reported.
\<close>

theorem incoming_hello_decides:
  assumes "os_ok K interest opn env" and "add_live K interest opn" and "running_with 2 n K opn env self w" and "plain w fd"
    and "entry (nd_io w) (fd, EPOLLIN) = Some (ProcCb p)"
    and "run_proc K (fd, EPOLLIN) p (Ok ()) (nd_io w) = Inr (Some (RecvResolved IncomingHello res), io')"
  shows "if (\<exists>peer. res = Ok (Serialize (make_hello peer Notify))) \<and> fst (get_fd_addr K fd (io_kern io')) \<noteq> None
    then run_event n K (fd, EPOLLIN) w = Inl NullString
      \<or> (\<exists>w' peer. run_event n K (fd, EPOLLIN) w = Inr (False, w') \<and> res = Ok (Serialize (make_hello peer Notify))
           \<and> answering w' fd peer \<and> nd_trace w' = nd_trace w \<and> activeConns w' = activeConns w)
    else \<exists>w'. run_event n K (fd, EPOLLIN) w = Inr (False, w') \<and> nd_trace w' = nd_trace w \<and> activeConns w' = activeConns w
      \<and> fd \<notin> opn (io_kern (nd_io w')) \<and> (\<forall>ev. entry (nd_io w') (fd, ev) = None)"
proof -
  from assms(1) have os: "os_contract K interest opn" by (simp add: os_ok_def os_contract_def)
  have inv: "node_inv interest opn (Suc (Suc 0)) (\<lambda>_. 0) w" using running_with_inv [OF assms(1,3)] by (simp add: numeral_2_eq_2)
  note R = os_contract.run_proc_node [OF os inv assms(5,6)]
  let ?v = "w\<lparr>nd_io := io'\<rparr>" and ?a = "pc_self p"
  have rdy: "ready opn ?v ?a Handshake" using R(2) [OF refl] by simp
  have "ran (nd_io w) fd EPOLLIN p (Some (RecvResolved IncomingHello res)) io'"
    using run_proc_inv [OF node_invD(1) [OF inv] assms(5,6)] by blast
  then have G: "Get ?a (nd_io ?v) = fd" by (simp add: ran_def)
  have plain: "plain ?v fd" using assms(4) plain_cong [of ?v w] loop_fds_run_proc [OF assms(6)] by simp
  have event: "run_event n K (fd, EPOLLIN) w = chain (incoming_hello_cb K ?a res ?v) (\<lambda>w. Inr (False, w))"
    using run_event_proc [OF assms(5,4) _ assms(6)] by (simp add: perform_def)
  note closed = os_contract.abandon_effect [OF os _ _ G]
  show ?thesis
  proof (cases "\<exists>peer. res = Ok (Serialize (make_hello peer Notify))")
    case False
    from closed [OF R(1) rdy] incoming_refused [OF False, of K ?a ?v] event False show ?thesis by auto
  next
    case True
    then obtain peer where res: "res = Ok (Serialize (make_hello peer Notify))" by blast
    show ?thesis
    proof (cases "fst (get_fd_addr K fd (io_kern io'))")
      case None
      from os_contract.incoming_no_address [OF os R(1) rdy G, of peer] None event res show ?thesis by auto
    next
      case (Some sa)
      have "live_os K interest opn" using os assms(2) by (simp add: live_os_def live_os_axioms_def)
      from live_os.incoming_notify [OF this R(1) rdy G plain, of sa peer] Some event res show ?thesis by auto
    qed
  qed
qed

text \<open>
  C18: an accepted connection becomes a session exactly if its answer was sent. In every state
  a started process reaches, when sending the answering hello has ended: if it succeeded the
  session is reported opened, once, and the connection is active and being read; if it failed
  nothing is reported, and the descriptor is closed with no callback left on it.
\<close>

theorem incoming_answer_decides:
  assumes "os_ok K interest opn env" and "add_live K interest opn" and "recv_laws K stream" and "recv_live K stream"
    and "running_with 1 n K opn env self w" and "plain w fd"
    and "entry (nd_io w) (fd, EPOLLOUT) = Some (ProcCb p)"
    and "run_proc K (fd, EPOLLOUT) p (Ok ()) (nd_io w) = Inr (Some (SendResolved (IncomingAnswerSent peer) res), io')"
  shows "\<exists>w'. run_event n K (fd, EPOLLOUT) w = Inr (False, w') \<and>
    (if res = Ok ()
     then nd_trace w' = nd_trace w @ [SessionOpened GetTransportId peer INCOMING]
       \<and> activeConns w' = (activeConns w)(fd \<mapsto> (peer, INCOMING)) \<and> (\<exists>S. reading stream w' fd S)
     else nd_trace w' = nd_trace w \<and> activeConns w' = activeConns w
       \<and> fd \<notin> opn (io_kern (nd_io w')) \<and> (\<forall>ev. entry (nd_io w') (fd, ev) = None))"
proof -
  from assms(1) have os: "os_contract K interest opn" by (simp add: os_ok_def os_contract_def)
  have inv: "node_inv interest opn (Suc 0) (\<lambda>_. 0) w" using running_with_inv [OF assms(1,5)] by simp
  note R = os_contract.run_proc_node [OF os inv assms(7,8)]
  let ?v = "w\<lparr>nd_io := io'\<rparr>" and ?a = "pc_self p"
  have rdy: "ready opn ?v ?a Handshake" using R(2) [OF refl] by simp
  have "ran (nd_io w) fd EPOLLOUT p (Some (SendResolved (IncomingAnswerSent peer) res)) io'"
    using run_proc_inv [OF node_invD(1) [OF inv] assms(7,8)] by blast
  then have G: "Get ?a (nd_io ?v) = fd" by (simp add: ran_def)
  have plain: "plain ?v fd" using assms(6) plain_cong [of ?v w] loop_fds_run_proc [OF assms(8)] by simp
  have event: "run_event n K (fd, EPOLLOUT) w = chain (answer_sent_cb K peer ?a res ?v) (\<lambda>w. Inr (False, w))"
    using run_event_proc [OF assms(7,6) _ assms(8)] by (simp add: perform_def)
  show ?thesis
  proof (cases res)
    case (Ok u)
    from receiving_os.answer_sent_opens [OF receiving_osI [OF assms(1-4)] R(1) rdy G plain, of peer] Ok event
    show ?thesis by fastforce
  next
    case (Err e)
    then have "answer_sent_cb K peer ?a res ?v = Inr (abandon K ?a ?v)" by (simp add: answer_sent_cb_def)
    with os_contract.abandon_effect [OF os R(1) rdy G] event Err show ?thesis by simp
  qed
qed

section \<open>A run\<close>

text \<open>A client connects (descriptor 10), says hello and is answered.\<close>

definition incoming_acts :: "act list" where
  "incoming_acts = [Event 9 EPOLLIN, Bytes 10 (frame (Serialize (make_hello other_peer Notify))), Event 10 EPOLLIN]"

definition incoming_kernel :: sim where
  "incoming_kernel = sim0\<lparr>sim_ifs := [sim_if], sim_peer := \<lparr>sin_family = AF_INET, sin_port = 0, sin_addr = 0x0201A8C0\<rparr>\<rparr>"

definition resolves :: "descr \<Rightarrow> u32 \<Rightarrow> user_call \<Rightarrow> sim node \<Rightarrow> bool" where
  "resolves fd ev u w \<longleftrightarrow> removeEvent (io_loop (nd_io w)) = 4 \<and> stopEvent (io_loop (nd_io w)) = 5 \<and>
     (case entry (nd_io w) (fd, ev) of
        Some (ProcCb p) \<Rightarrow>
          (case run_proc sim_kernel (fd, ev) p (Ok ()) (nd_io w) of
             Inr (c, io) \<Rightarrow> c = Some u \<and> fst (get_fd_addr sim_kernel fd (io_kern io)) \<noteq> None
           | _ \<Rightarrow> False)
      | _ \<Rightarrow> False)"

lemma resolvesD:
  assumes "resolves fd ev u w" and "fd \<noteq> 4" and "fd \<noteq> 5"
  obtains p io' where "plain w fd" and "entry (nd_io w) (fd, ev) = Some (ProcCb p)"
    and "run_proc sim_kernel (fd, ev) p (Ok ()) (nd_io w) = Inr (Some u, io')"
    and "fst (get_fd_addr sim_kernel fd (io_kern io')) \<noteq> None"
  using assms by (auto simp: resolves_def plain_def split: option.splits callback.splits sum.splits)

theorem incoming_hello_decides_witness:
  "\<exists>w w'. run_event 5 sim_kernel (10, EPOLLIN) w = Inr (False, w') \<and> answering w' 10 other_peer \<and> nd_trace w' = []"
proof -
  let ?u = "RecvResolved IncomingHello (Ok (Serialize (make_hello other_peer Notify)))"
  have "run_holds incoming_kernel incoming_acts (\<lambda>w. resolves 10 EPOLLIN ?u w \<and> nd_trace w = []
      \<and> (case run_event 5 sim_kernel (10, EPOLLIN) w of Inl _ \<Rightarrow> False | Inr _ \<Rightarrow> True))" by code_simp
  then show ?thesis
  proof (rule run_holdsD)
    fix w assume w: "running_with 1000 5 sim_kernel (\<lambda>k. set (sim_open k)) sim_env (PeerId 0 0 0 0 0 1) w"
      and h: "resolves 10 EPOLLIN ?u w \<and> nd_trace w = []
        \<and> (case run_event 5 sim_kernel (10, EPOLLIN) w of Inl _ \<Rightarrow> False | Inr _ \<Rightarrow> True)"
    from h have "resolves 10 EPOLLIN ?u w" by blast
    then obtain p io' where p: "plain w 10" "entry (nd_io w) (10, EPOLLIN) = Some (ProcCb p)"
      and run: "run_proc sim_kernel (10, EPOLLIN) p (Ok ()) (nd_io w) = Inr (Some ?u, io')"
      and addr: "fst (get_fd_addr sim_kernel 10 (io_kern io')) \<noteq> None" by (rule resolvesD) simp_all
    have r: "running_with 2 5 sim_kernel (\<lambda>k. set (sim_open k)) sim_env (PeerId 0 0 0 0 0 1) w" by (rule running_mono [OF w]) simp
    have inj: "Serialize (make_hello other_peer Notify) = Serialize (make_hello q Notify) \<Longrightarrow> q = other_peer" for q
      by (metis Deserialize_make_hello make_hello_sel(1) option.inject)
    have "run_event 5 sim_kernel (10, EPOLLIN) w \<noteq> Inl NullString" using h by auto
    moreover have c: "(\<exists>peer. Ok (Serialize (make_hello other_peer Notify)) = (Ok (Serialize (make_hello peer Notify)) :: message io_result))
        \<and> fst (get_fd_addr sim_kernel 10 (io_kern io')) \<noteq> None" using addr by blast
    note incoming_hello_decides [OF sim_os_ok sim_add_live r p run, unfolded if_P [OF c]]
    ultimately obtain w' peer where "run_event 5 sim_kernel (10, EPOLLIN) w = Inr (False, w')" "answering w' 10 peer" "nd_trace w' = nd_trace w"
      and "Serialize (make_hello other_peer Notify) = Serialize (make_hello peer Notify)" by auto
    with inj h show ?thesis by metis
  qed (simp_all add: incoming_kernel_def sim0_def incoming_acts_def)
qed

theorem incoming_answer_decides_witness:
  "\<exists>w w'. run_event 5 sim_kernel (10, EPOLLOUT) w = Inr (False, w')
     \<and> nd_trace w' = [SessionOpened 1 other_peer INCOMING] \<and> activeConns w' 10 = Some (other_peer, INCOMING)"
proof -
  let ?u = "SendResolved (IncomingAnswerSent other_peer) (Ok ())"
  have "run_holds incoming_kernel (incoming_acts @ [Event 10 EPOLLIN, Event 10 EPOLLOUT])
      (\<lambda>w. resolves 10 EPOLLOUT ?u w \<and> nd_trace w = [])" by code_simp
  then show ?thesis
  proof (rule run_holdsD)
    fix w assume w: "running_with 1000 5 sim_kernel (\<lambda>k. set (sim_open k)) sim_env (PeerId 0 0 0 0 0 1) w"
      and h: "resolves 10 EPOLLOUT ?u w \<and> nd_trace w = []"
    from h have "resolves 10 EPOLLOUT ?u w" by blast
    then obtain p io' where p: "plain w 10" "entry (nd_io w) (10, EPOLLOUT) = Some (ProcCb p)"
      and run: "run_proc sim_kernel (10, EPOLLOUT) p (Ok ()) (nd_io w) = Inr (Some ?u, io')" by (rule resolvesD) simp_all
    have r: "running_with 1 5 sim_kernel (\<lambda>k. set (sim_open k)) sim_env (PeerId 0 0 0 0 0 1) w" by (rule running_mono [OF w]) simp
    from incoming_answer_decides [OF sim_os_ok sim_add_live sim_recv_laws sim_recv_live r p run] h
    obtain w' where "run_event 5 sim_kernel (10, EPOLLOUT) w = Inr (False, w')" "nd_trace w' = [SessionOpened 1 other_peer INCOMING]"
      "activeConns w' = (activeConns w)(10 \<mapsto> (other_peer, INCOMING))" by (auto simp: GetTransportId_def)
    then show ?thesis by (intro exI [of _ w] exI [of _ w']) simp
  qed (simp_all add: incoming_kernel_def sim0_def incoming_acts_def)
qed

end
