(* ===== verification/Handshake.thy ===== *)
theory Handshake
  imports Incoming
begin

text \<open>
  How a session is established: the two ends of a connection, each with its own process and
  kernel, lead each other through the hello exchange.
\<close>

section \<open>Both directions of a connection\<close>

locale hello_os = sending_os K interest opn wire + receiving_os K interest opn stream
  for K :: "'k kernel" and interest :: "'k \<Rightarrow> descr \<Rightarrow> descr \<rightharpoonup> u32" and opn :: "'k \<Rightarrow> descr set"
    and wire stream :: "'k \<Rightarrow> descr \<Rightarrow> byte list"
begin

lemma sendable_hello: "sendable (Serialize (make_hello p t))"
  by (simp add: sendable_def sizeof_HelloMsg_def flip: length_greater_0_conv)

text \<open>The connecting side: the notifying hello goes out, and the answer is awaited.\<close>

lemma outgoing_putting:
  assumes inv: "ninv (Suc b) pend w" and slot: "slot opn w fd Handshake" and plain: "plain w fd"
  obtains io' where "OutgoingHelloExchange K fd peer w = Inr (w\<lparr>nd_io := io'\<rparr>)" and "ninv b pend (w\<lparr>nd_io := io'\<rparr>)"
    and "putting wire (w\<lparr>nd_io := io'\<rparr>) fd (OutgoingNotifySent peer)
        (wire (io_kern (nd_io w)) fd @ frame (Serialize (make_hello (nd_self w) Notify)))"
    and "loop_fds io' = loop_fds (nd_io w)" and "quiet K obs \<Longrightarrow> obs (io_kern io') = obs (io_kern (nd_io w))"
proof -
  let ?a = "io_next (nd_io w)" and ?w = "w\<lparr>nd_io := snd (Create fd (nd_io w))\<rparr>"
  note C = create_ready [OF inv slot]
  have rdy: "ready opn ?w ?a (goal_role (Inr (OutgoingNotifySent peer)))" using C(2) by simp
  have G: "Get ?a (nd_io ?w) = fd" by simp
  have free: "entry (nd_io ?w) (Get ?a (nd_io ?w), EPOLLOUT) = None" and p: "plain ?w (Get ?a (nd_io ?w))"
    using plain slot by (simp_all add: plain_def entry_def slot_def)
  from send_starts [OF C(1) rdy free p sendable_hello, of "nd_self w" Notify False obs, unfolded G]
  obtain io' where s: "SendMessage K ?a (Serialize (make_hello (nd_self w) Notify)) (OutgoingNotifySent peer) False (nd_io ?w) = Inr (True, None, io')"
    "ninv b pend (?w\<lparr>nd_io := io'\<rparr>)"
    "putting wire (?w\<lparr>nd_io := io'\<rparr>) fd (OutgoingNotifySent peer) (wire (io_kern (nd_io ?w)) fd @ frame (Serialize (make_hello (nd_self w) Notify)))"
    "loop_fds io' = loop_fds (nd_io ?w)" "quiet K obs \<longrightarrow> obs (io_kern io') = obs (io_kern (nd_io ?w))" by auto
  from s(1) have "OutgoingHelloExchange K fd peer w = Inr (w\<lparr>nd_io := io'\<rparr>)"
    by (simp add: OutgoingHelloExchange_def on_io_Create start_io_def)
  with s(2-5) show thesis by (intro that [of io']) simp_all
qed

lemma notify_goes_out:
  assumes put: "putting wire w fd (OutgoingNotifySent peer) W" and plain: "plain w fd" and inv: "ninv (i + b) pend w"
    and i: "length W \<le> i + length (wire (io_kern (nd_io w)) fd)" and silent: "silent K (\<lambda>k. stream k fd)"
  obtains j io' where "run_batch n K (replicate j (fd, EPOLLOUT)) w = Inr (False, w\<lparr>nd_io := io'\<rparr>)" and "j \<le> i"
    and "ninv b pend (w\<lparr>nd_io := io'\<rparr>)" and "loop_fds io' = loop_fds (nd_io w)"
    and "taking stream (w\<lparr>nd_io := io'\<rparr>) fd (OutgoingAnswer peer) (stream (io_kern (nd_io w)) fd)"
    and "stream (io_kern io') fd = stream (io_kern (nd_io w)) fd" and "wire (io_kern io') fd = W"
proof -
  from put_all [OF put plain inv i, of n "\<lambda>k. stream k fd"] silent obtain j io1 a where j: "j \<le> i"
    and run: "\<forall>w'. perform K a (SendResolved (OutgoingNotifySent peer) (Ok ())) (w\<lparr>nd_io := io1\<rparr>) = Inr w' \<longrightarrow>
        run_batch n K (replicate j (fd, EPOLLOUT)) w = Inr (False, w')"
    and v: "ninv (Suc b) pend (w\<lparr>nd_io := io1\<rparr>)" "ready opn (w\<lparr>nd_io := io1\<rparr>) a Handshake" "Get a io1 = fd"
      "loop_fds io1 = loop_fds (nd_io w)" "wire (io_kern io1) fd = W" "stream (io_kern io1) fd = stream (io_kern (nd_io w)) fd"
    by (auto simp del: split_paired_Ex)
  let ?v = "w\<lparr>nd_io := io1\<rparr>"
  have "plain ?v (Get a (nd_io ?v))" using plain plain_cong [of ?v w] v(3,4) by simp
  moreover have "entry (nd_io ?v) (Get a (nd_io ?v), EPOLLIN) = None" using v(2) by (simp add: ready_def slot_def)
  moreover have "ready opn ?v a (goal_role (Inl (OutgoingAnswer peer)))" using v(2) by simp
  ultimately obtain io' where s: "RecvMessage K a (OutgoingAnswer peer) (nd_io ?v) = Inr (True, None, io')" "ninv b pend (?v\<lparr>nd_io := io'\<rparr>)"
    "taking stream (?v\<lparr>nd_io := io'\<rparr>) (Get a (nd_io ?v)) (OutgoingAnswer peer) (stream (io_kern (nd_io ?v)) (Get a (nd_io ?v)))"
    "loop_fds io' = loop_fds (nd_io ?v)"
    "quiet K (\<lambda>k. (stream k fd, wire k fd)) \<Longrightarrow> (stream (io_kern io') fd, wire (io_kern io') fd) = (stream (io_kern (nd_io ?v)) fd, wire (io_kern (nd_io ?v)) fd)"
    using recv_starts [OF v(1), of a "OutgoingAnswer peer" "\<lambda>k. (stream k fd, wire k fd)"] by blast
  have "quiet K (\<lambda>k. (stream k fd, wire k fd))"
    using recv_laws_quiet [OF receives(1), of fd] send_laws_quiet [OF sends(1), of fd] by (simp add: quiet_def)
  with s v have "stream (io_kern io') fd = stream (io_kern (nd_io w)) fd" "wire (io_kern io') fd = W" by simp_all
  moreover have "perform K a (SendResolved (OutgoingNotifySent peer) (Ok ())) ?v = Inr (w\<lparr>nd_io := io'\<rparr>)"
    using s(1) by (simp add: perform_def notify_sent_cb_def start_io_def)
  ultimately show thesis using that [of j io'] j run s v(3,4,6) by simp
qed

lemma answer_comes_in:
  assumes take: "taking stream w fd (OutgoingAnswer peer) (frame (Serialize (make_hello peer Answer)) @ rest)" and plain: "plain w fd"
    and inv: "ninv (length (stream (io_kern (nd_io w)) fd)) pend w"
  obtains j w' where "run_batch n K (replicate j (fd, EPOLLIN)) w = Inr (False, w')" and "j \<le> length (stream (io_kern (nd_io w)) fd)"
    and "nd_trace w' = nd_trace w @ [SessionOpened GetTransportId peer OUTGOING]"
    and "activeConns w' fd = Some (peer, OUTGOING)" and "sendQueues w' fd = Some []" and "reading stream w' fd rest"
    and "connToFd w' = map_emplace (peer, OUTGOING) fd (connToFd w)" and "plain w' fd"
proof -
  from take_all [OF take sendable_hello plain, of 0 pend n] inv obtain j io' a where j: "j \<le> length (stream (io_kern (nd_io w)) fd)"
    and run: "\<forall>w'. perform K a (RecvResolved (OutgoingAnswer peer) (Ok (Serialize (make_hello peer Answer)))) (w\<lparr>nd_io := io'\<rparr>) = Inr w' \<longrightarrow>
           run_batch n K (replicate j (fd, EPOLLIN)) w = Inr (False, w')"
    and v: "ninv (Suc 0) pend (w\<lparr>nd_io := io'\<rparr>)" "ready opn (w\<lparr>nd_io := io'\<rparr>) a Handshake" "Get a io' = fd"
      "loop_fds io' = loop_fds (nd_io w)" "stream (io_kern io') fd = rest"
    by auto
  let ?v = "w\<lparr>nd_io := io'\<rparr>"
  have "plain ?v fd" using plain plain_cong [of ?v w] v(4) by simp
  with outgoing_answer_opens [OF v(1,2) _ this, of peer] v(3) obtain w' where
    w': "outgoing_answer_cb K peer a (Ok (Serialize (make_hello peer Answer))) ?v = Inr w'"
      "nd_trace w' = nd_trace w @ [SessionOpened GetTransportId peer OUTGOING]" "activeConns w' fd = Some (peer, OUTGOING)"
      "sendQueues w' fd = Some []" "connToFd w' = map_emplace (peer, OUTGOING) fd (connToFd w)" "plain w' fd"
      "reading stream w' fd (stream (io_kern (nd_io (snd (on_io (Release K a) ?v)))) fd)" by auto
  have "stream (io_kern (nd_io (snd (on_io (Release K a) ?v)))) fd = rest"
    using v(5) quiet_Deregister [OF recv_laws_quiet [OF receives(1)]] by (simp add: on_io_Release Release_def Let_def)
  with w' run j show thesis using that [of j w'] by (simp add: perform_def)
qed

text \<open>The accepting side: the hello is read and answered, and the answer goes out.\<close>

lemma accepted_taking:
  assumes inv: "ninv (Suc (Suc b)) pend w" and acc: "accept_client K (listenFd w) (io_kern (nd_io w)) = ((addr, fd), k)"
    and fd: "fd \<noteq> -1" and plain: "plain w fd"
  obtains io' where "AcceptConn K w = Inr (w\<lparr>nd_io := io'\<rparr>)" and "ninv b pend (w\<lparr>nd_io := io'\<rparr>)"
    and "taking stream (w\<lparr>nd_io := io'\<rparr>) fd IncomingHello (stream k fd)" and "loop_fds io' = loop_fds (nd_io w)"
    and "stream (io_kern io') fd = stream k fd"
proof -
  note A = accept_kern [OF acc]
  have "kern_ok (io_kern (nd_io w)) k" using A by (auto simp: kern_ok_def split: if_splits)
  note N = ninv_kern [OF inv this]
  let ?k = "set_kern k w"
  have "slot opn ?k fd Handshake" by (rule fresh_slot [OF inv]) (use A fd in auto)
  note C = create_ready [OF N(1) this]
  let ?a = "io_next (nd_io ?k)" and ?w = "?k\<lparr>nd_io := snd (Create fd (nd_io ?k))\<rparr>"
  have rdy: "ready opn ?w ?a (goal_role (Inl IncomingHello))" using C(2) by simp
  have G: "Get ?a (nd_io ?w) = fd" by (simp add: Get_def Create_def)
  have "slot opn ?w fd Handshake" using rdy unfolding ready_def G by simp
  then have free: "entry (nd_io ?w) (Get ?a (nd_io ?w), EPOLLIN) = None" and p: "plain ?w (Get ?a (nd_io ?w))"
    unfolding G using plain by (simp_all add: plain_def slot_def)
  from recv_starts [OF C(1) rdy free p, of "\<lambda>k. stream k fd", unfolded G]
  obtain io' where s: "RecvMessage K ?a IncomingHello (nd_io ?w) = Inr (True, None, io')" "ninv (Suc b) pend (?w\<lparr>nd_io := io'\<rparr>)"
    "taking stream (?w\<lparr>nd_io := io'\<rparr>) fd IncomingHello (stream (io_kern (nd_io ?w)) fd)"
    "loop_fds io' = loop_fds (nd_io ?w)" "stream (io_kern io') fd = stream (io_kern (nd_io ?w)) fd"
    using recv_laws_quiet [OF receives(1)] by auto
  have w: "?w\<lparr>nd_io := io'\<rparr> = w\<lparr>nd_io := io'\<rparr>" by (simp add: set_kern_def)
  have "AcceptConn K w = Inr (w\<lparr>nd_io := io'\<rparr>)"
    using s(1) acc fd w by (simp add: AcceptConn_def sys_def IncomingHelloExchange_def on_io_Create start_io_def)
  moreover have "ninv b pend (w\<lparr>nd_io := io'\<rparr>)" using node_inv_mono [OF s(2), of b] w by simp
  ultimately show thesis using s(3-5) w by (intro that [of io']) (simp_all add: loop_fds_def)
qed

lemma hello_is_answered:
  assumes take: "taking stream w fd IncomingHello (frame (Serialize (make_hello peer Notify)) @ rest)" and plain: "plain w fd"
    and inv: "ninv (length (stream (io_kern (nd_io w)) fd) + Suc b) pend w" and known: "timer w peer \<noteq> 0"
    and named: "\<And>k. fd \<in> opn k \<Longrightarrow> fst (get_fd_addr K fd k) \<noteq> None" and calm: "calm K (\<lambda>k. stream k fd)"
  obtains j w' where "run_batch n K (replicate j (fd, EPOLLIN)) w = Inr (False, w')" and "j \<le> length (stream (io_kern (nd_io w)) fd)"
    and "ninv b pend w'" and "plain w' fd" and "nd_trace w' = nd_trace w" and "stream (io_kern (nd_io w')) fd = rest"
    and "putting wire w' fd (IncomingAnswerSent peer) (wire (io_kern (nd_io w')) fd @ frame (Serialize (make_hello (nd_self w) Answer)))"
proof -
  from take_all [OF take sendable_hello plain, of "Suc b" pend n] inv obtain j io' a where j: "j \<le> length (stream (io_kern (nd_io w)) fd)"
    and run: "\<forall>w'. perform K a (RecvResolved IncomingHello (Ok (Serialize (make_hello peer Notify)))) (w\<lparr>nd_io := io'\<rparr>) = Inr w' \<longrightarrow>
           run_batch n K (replicate j (fd, EPOLLIN)) w = Inr (False, w')"
    and v: "ninv (Suc (Suc b)) pend (w\<lparr>nd_io := io'\<rparr>)" "ready opn (w\<lparr>nd_io := io'\<rparr>) a Handshake" "Get a io' = fd"
      "loop_fds io' = loop_fds (nd_io w)" "stream (io_kern io') fd = rest"
    by auto
  let ?v = "w\<lparr>nd_io := io'\<rparr>"
  have p: "plain ?v fd" using plain plain_cong [of ?v w] v(4) by simp
  have "fd \<in> opn (io_kern (nd_io ?v))" using v(2,3) by (simp add: ready_def slot_def)
  with named obtain sa where sa: "fst (get_fd_addr K fd (io_kern (nd_io ?v))) = Some sa" by blast
  have G: "Get a (nd_io ?v) = fd" using v(3) by simp
  from v(1,2) G p sa show thesis
  proof (cases rule: notify_reaches_answer [where peer = peer and obs = "\<lambda>k. stream k fd"])
    case fault
    with known show thesis by simp
  next
    case (answers w2)
    have rdy: "ready opn w2 a (goal_role (Inr (IncomingAnswerSent peer)))" using answers(3) by simp
    have free: "entry (nd_io w2) (Get a (nd_io w2), EPOLLOUT) = None" using answers(3) by (simp add: ready_def slot_def)
    have "quiet K (\<lambda>k. (stream k fd, wire k fd))"
      using recv_laws_quiet [OF receives(1), of fd] send_laws_quiet [OF sends(1), of fd] by (simp add: quiet_def)
    with send_starts [OF answers(2) rdy free _ sendable_hello, of "nd_self w" Answer False "\<lambda>k. (stream k fd, wire k fd)"] answers(4,5)
    obtain io2 where s: "SendMessage K a (Serialize (make_hello (nd_self w) Answer)) (IncomingAnswerSent peer) False (nd_io w2) = Inr (True, None, io2)"
      "ninv b pend (w2\<lparr>nd_io := io2\<rparr>)"
      "putting wire (w2\<lparr>nd_io := io2\<rparr>) fd (IncomingAnswerSent peer) (wire (io_kern (nd_io w2)) fd @ frame (Serialize (make_hello (nd_self w) Answer)))"
      "loop_fds io2 = loop_fds (nd_io w2)" "wire (io_kern io2) fd = wire (io_kern (nd_io w2)) fd"
      "stream (io_kern io2) fd = stream (io_kern (nd_io w2)) fd" by auto
    let ?w' = "w2\<lparr>nd_io := io2\<rparr>"
    have "perform K a (RecvResolved IncomingHello (Ok (Serialize (make_hello peer Notify)))) ?v = Inr ?w'"
      using answers(1) s(1) by (simp add: perform_def start_io_def)
    moreover have "plain ?w' fd" using answers(5) plain_cong [of ?w' w2] s(4) by simp
    moreover have "stream (io_kern io2) fd = rest" using s(6) answers(9) known calm v(5) by (simp add: timer_def)
    ultimately show thesis using that [of j ?w'] run j s(2,3,5) answers(6) by simp
  qed
qed

lemma answer_goes_out:
  assumes put: "putting wire w fd (IncomingAnswerSent peer) W" and plain: "plain w fd" and inv: "ninv i pend w"
    and i: "length W \<le> i + length (wire (io_kern (nd_io w)) fd)" and silent: "silent K (\<lambda>k. stream k fd)"
  obtains j w' where "run_batch n K (replicate j (fd, EPOLLOUT)) w = Inr (False, w')" and "j \<le> i"
    and "nd_trace w' = nd_trace w @ [SessionOpened GetTransportId peer INCOMING]"
    and "activeConns w' fd = Some (peer, INCOMING)" and "sendQueues w' fd = Some []" and "plain w' fd"
    and "reading stream w' fd (stream (io_kern (nd_io w)) fd)" and "wire (io_kern (nd_io w')) fd = W"
proof -
  from put_all [OF put plain _ i, of 0 pend n "\<lambda>k. stream k fd"] inv silent obtain j io' a where j: "j \<le> i"
    and run: "\<forall>w'. perform K a (SendResolved (IncomingAnswerSent peer) (Ok ())) (w\<lparr>nd_io := io'\<rparr>) = Inr w' \<longrightarrow>
        run_batch n K (replicate j (fd, EPOLLOUT)) w = Inr (False, w')"
    and v: "ninv (Suc 0) pend (w\<lparr>nd_io := io'\<rparr>)" "ready opn (w\<lparr>nd_io := io'\<rparr>) a Handshake" "Get a io' = fd"
      "loop_fds io' = loop_fds (nd_io w)" "wire (io_kern io') fd = W" "stream (io_kern io') fd = stream (io_kern (nd_io w)) fd"
    by auto
  let ?v = "w\<lparr>nd_io := io'\<rparr>"
  have "plain ?v fd" using plain plain_cong [of ?v w] v(4) by simp
  with answer_sent_opens [OF v(1,2) _ this, of peer "\<lambda>k. wire k fd"] v(3,5) send_laws_quiet [OF sends(1)] obtain w' where
    "answer_sent_cb K peer a (Ok ()) ?v = Inr w'" "nd_trace w' = nd_trace w @ [SessionOpened GetTransportId peer INCOMING]"
    "activeConns w' fd = Some (peer, INCOMING)" "sendQueues w' fd = Some []" "plain w' fd" "wire (io_kern (nd_io w')) fd = W"
    "reading stream w' fd (stream (io_kern (nd_io (snd (on_io (Release K a) ?v)))) fd)" by auto
  moreover have "stream (io_kern (nd_io (snd (on_io (Release K a) ?v)))) fd = stream (io_kern (nd_io w)) fd"
    using v(6) quiet_Deregister [OF recv_laws_quiet [OF receives(1)]] by (simp add: on_io_Release Release_def Let_def)
  ultimately show thesis using run j that [of j w'] by (simp add: perform_def)
qed

end

section \<open>The two ends\<close>

text \<open>
  What a call for a session finds on the way to the exchange: the descriptor of the connection
  and the kernel's state, if the peer has an address and no outgoing session, and \<open>connect\<close>
  succeeds or is in progress.
\<close>

definition connecting :: "'k kernel \<Rightarrow> peer_id \<Rightarrow> 'k node \<Rightarrow> (descr \<times> 'k) option" where
  "connecting K peer w =
     (case GetAddress peer w of
        None \<Rightarrow> None
      | Some addr \<Rightarrow>
          let (fd, k) = create_tcp_socket K 0 (io_kern (nd_io w));
              ((res, errno), k) = k_connect K fd \<lparr>sin_family = AF_INET, sin_port = htons (of_int TCP_LISTEN_PORT), sin_addr = addr\<rparr> k
          in if fd \<noteq> -1 \<and> plain w fd \<and> connToFd w (peer, OUTGOING) = None \<and> (0 \<le> res \<or> errno = EINPROGRESS) then Some (fd, k) else None)"

text \<open>The same for an event on the listening socket.\<close>

definition accepting :: "'k kernel \<Rightarrow> 'k node \<Rightarrow> (descr \<times> 'k) option" where
  "accepting K w =
     (let ((_, fd), k) = accept_client K (listenFd w) (io_kern (nd_io w))
      in if fd \<noteq> -1 \<and> plain w fd \<and> plain w (listenFd w) \<and> entry (nd_io w) (listenFd w, EPOLLIN) = Some AcceptCb then Some (fd, k) else None)"

text \<open>
  What is unread on a descriptor changes neither by sending, nor by reading an address or
  setting a timer; the network adds bytes to it.
\<close>

definition network :: "'k kernel \<Rightarrow> ('k \<Rightarrow> 'k \<Rightarrow> bool) \<Rightarrow> ('k \<Rightarrow> descr \<Rightarrow> byte list) \<Rightarrow> (descr \<Rightarrow> byte list \<Rightarrow> 'k \<Rightarrow> 'k) \<Rightarrow> bool" where
  "network K env stream deliver \<longleftrightarrow>
     (\<forall>f bs fl k fd. stream (snd (k_send K f bs fl k)) fd = stream k fd) \<and>
     (\<forall>f k fd. stream (snd (k_getpeername K f k)) fd = stream k fd) \<and>
     (\<forall>f i v k fd. stream (snd (k_timerfd_settime K f i v k)) fd = stream k fd) \<and>
     (\<forall>fd bs k. env k (deliver fd bs k) \<and> stream (deliver fd bs k) fd = stream k fd @ bs)"

definition arrive :: "(descr \<Rightarrow> byte list \<Rightarrow> 'k \<Rightarrow> 'k) \<Rightarrow> descr \<Rightarrow> byte list \<Rightarrow> 'k node \<Rightarrow> 'k node" where
  "arrive deliver fd bs w = set_kern (deliver fd bs (io_kern (nd_io w))) w"

definition sent_since :: "('k \<Rightarrow> descr \<Rightarrow> byte list) \<Rightarrow> descr \<Rightarrow> 'k node \<Rightarrow> 'k node \<Rightarrow> byte list" where
  "sent_since wire fd w w' = drop (length (wire (io_kern (nd_io w)) fd)) (wire (io_kern (nd_io w')) fd)"

text \<open>A connection that is active, idle, and being read, with nothing unread.\<close>

definition established :: "('k \<Rightarrow> descr \<Rightarrow> byte list) \<Rightarrow> 'k node \<Rightarrow> descr \<Rightarrow> conn \<Rightarrow> bool" where
  "established stream w fd c \<longleftrightarrow>
     activeConns w fd = Some c \<and> sendQueues w fd = Some [] \<and> plain w fd \<and> reading stream w fd []"

text \<open>A call that has begun: the hello is going out, and nothing else has happened on the descriptor.\<close>

definition calling :: "('k \<Rightarrow> descr \<Rightarrow> byte list) \<Rightarrow> ('k \<Rightarrow> descr \<Rightarrow> byte list) \<Rightarrow> 'k node \<Rightarrow> descr \<Rightarrow> peer_id \<Rightarrow> bool" where
  "calling wire stream w fd peer \<longleftrightarrow> plain w fd \<and> connToFd w (peer, OUTGOING) = None \<and> stream (io_kern (nd_io w)) fd = []
     \<and> putting wire w fd (OutgoingNotifySent peer) (wire (io_kern (nd_io w)) fd @ frame (Serialize (make_hello (nd_self w) Notify)))"

text \<open>
  The exchange: one process is asked for a session with the other, the other accepts, and each
  handles readiness events, at most 17 for each message, after it has been delivered to it.
  \<open>exchange_from\<close> is what follows the call for the session.
\<close>

definition exchange_from :: "nat \<Rightarrow> 'k kernel \<Rightarrow> ('k \<Rightarrow> descr \<Rightarrow> byte list) \<Rightarrow> (descr \<Rightarrow> byte list \<Rightarrow> 'k \<Rightarrow> 'k) \<Rightarrow> descr \<Rightarrow> descr
    \<Rightarrow> 'k node \<Rightarrow> 'k node \<Rightarrow> 'k node \<Rightarrow> 'k node \<Rightarrow> bool" where
  "exchange_from n K wire deliver fd fd' w1 v w' v' \<longleftrightarrow> (\<exists>w2 v1 v2 i j l m.
     run_batch n K (replicate i (fd, EPOLLOUT)) w1 = Inr (False, w2)
     \<and> run_event n K (listenFd v, EPOLLIN) v = Inr (False, v1)
     \<and> run_batch n K (replicate j (fd', EPOLLIN)) (arrive deliver fd' (sent_since wire fd w1 w2) v1) = Inr (False, v2)
     \<and> run_batch n K (replicate l (fd', EPOLLOUT)) v2 = Inr (False, v')
     \<and> run_batch n K (replicate m (fd, EPOLLIN)) (arrive deliver fd (sent_since wire fd' v2 v') w2) = Inr (False, w')
     \<and> i \<le> 17 \<and> j \<le> 17 \<and> l \<le> 17 \<and> m \<le> 17)"

definition exchange :: "nat \<Rightarrow> 'k kernel \<Rightarrow> ('k \<Rightarrow> descr \<Rightarrow> byte list) \<Rightarrow> (descr \<Rightarrow> byte list \<Rightarrow> 'k \<Rightarrow> 'k) \<Rightarrow> descr \<Rightarrow> descr
    \<Rightarrow> 'k node \<Rightarrow> 'k node \<Rightarrow> 'k node \<Rightarrow> 'k node \<Rightarrow> bool" where
  "exchange n K wire deliver fd fd' w v w' v' \<longleftrightarrow>
     (\<exists>w1. mgr_OpenSession K GetTransportId (nd_self v) w = Inr w1 \<and> exchange_from n K wire deliver fd fd' w1 v w' v')"

lemma frame_hello_length [simp]: "length (frame (Serialize (make_hello p t))) = 17"
  by (simp add: frame_def sizeof_HelloMsg_def)

context hello_os
begin

lemma connecting_starts:
  assumes inv: "ninv (Suc b) pend w" and conn: "connecting K peer w = Some (fd, k)"
    and empty: "stream k fd = []"
  obtains w' where "OpenSession K peer w = Inr w'" and "ninv b pend w'" and "calling wire stream w' fd peer"
    and "nd_trace w' = nd_trace w" and "nd_self w' = nd_self w"
proof -
  let ?ep = "\<lambda>addr. \<lparr>sin_family = AF_INET, sin_port = htons (of_int TCP_LISTEN_PORT), sin_addr = addr\<rparr>"
  obtain addr k1 res errno where addr: "GetAddress peer w = Some addr"
    and tcp: "create_tcp_socket K 0 (io_kern (nd_io w)) = (fd, k1)" and c: "k_connect K fd (?ep addr) k1 = ((res, errno), k)"
    and ok: "fd \<noteq> -1" "plain w fd" "connToFd w (peer, OUTGOING) = None" "0 \<le> res \<or> errno = EINPROGRESS"
    using conn by (auto simp: connecting_def split: option.split_asm if_split_asm prod.split_asm)
  note N = ninv_kern [OF inv kern_ok_tcp [OF tcp]]
  from create_tcp_no_leak [OF fds tcp] ok(1) have "fd \<notin> opn (io_kern (nd_io w))" "fd \<in> opn k1" by auto
  note sl = fresh_slot [OF inv this]
  have "interest k = interest k1" "opn k = opn k1" using interest_keep(4) [of fd "?ep addr" k1] opn_keep(13) [of fd "?ep addr" k1]
    by (simp_all add: c)
  then have "kern_ok (io_kern (nd_io (set_kern k1 w))) k" by (intro kern_ok_same) simp_all
  note N2 = ninv_kern [OF N(1) this]
  let ?v = "set_kern k (set_kern k1 w)"
  have "quiet K (\<lambda>k. (stream k fd, wire k fd))"
    using recv_laws_quiet [OF receives(1), of fd] send_laws_quiet [OF sends(1), of fd] by (simp add: quiet_def)
  moreover have "plain ?v fd" using ok(2) by (simp add: plain_def)
  ultimately obtain io' where x: "OutgoingHelloExchange K fd peer ?v = Inr (?v\<lparr>nd_io := io'\<rparr>)" "ninv b pend (?v\<lparr>nd_io := io'\<rparr>)"
    "putting wire (?v\<lparr>nd_io := io'\<rparr>) fd (OutgoingNotifySent peer) (wire (io_kern (nd_io ?v)) fd @ frame (Serialize (make_hello (nd_self ?v) Notify)))"
    "loop_fds io' = loop_fds (nd_io ?v)" "stream (io_kern io') fd = stream k fd" "wire (io_kern io') fd = wire k fd"
    using outgoing_putting [OF N2(1) N2(2) [OF sl], of peer "\<lambda>k. (stream k fd, wire k fd)"] by auto
  have "OpenSession K peer w = Inr (?v\<lparr>nd_io := io'\<rparr>)"
    using addr tcp c ok x(1) by (auto simp: OpenSession_def EstablishConnection_def sys_def Let_def)
  moreover have "plain (?v\<lparr>nd_io := io'\<rparr>) fd" using ok(2) x(4) plain_cong [of "?v\<lparr>nd_io := io'\<rparr>" w] by (simp add: loop_fds_def)
  ultimately show thesis using x(2,3,5,6) ok(3) empty by (intro that [of "?v\<lparr>nd_io := io'\<rparr>"]) (simp_all add: calling_def)
qed

lemma ninv_arrive:
  assumes "ninv b pend w" and "\<And>k k'. env k k' \<Longrightarrow> interest k' = interest k \<and> opn k' = opn k" and "network K env stream deliver"
  shows "ninv b pend (arrive deliver fd bs w)"
proof -
  from assms(3) have "env (io_kern (nd_io w)) (deliver fd bs (io_kern (nd_io w)))" by (simp add: network_def)
  from assms(2) [OF this] show ?thesis unfolding arrive_def by (intro ninv_kern(1) [OF assms(1)] kern_ok_same) simp_all
qed

lemma taking_arrive:
  assumes "taking stream w fd r []" and "network K env stream deliver"
  shows "taking stream (arrive deliver fd bs w) fd r bs"
  using taking_more [OF assms(1), of "deliver fd bs (io_kern (nd_io w))" bs] assms(2) by (simp add: arrive_def network_def)

lemma accepting_starts:
  assumes inv: "ninv (Suc (Suc b)) pend w" and acc: "accepting K w = Some (fd, k)"
  obtains w' where "run_event n K (listenFd w, EPOLLIN) w = Inr (False, w')" and "ninv b pend w'" and "plain w' fd"
    and "taking stream w' fd IncomingHello (stream k fd)" and "stream (io_kern (nd_io w')) fd = stream k fd"
    and "nd_trace w' = nd_trace w" and "activeConns w' = activeConns w" and "timer w' = timer w" and "nd_self w' = nd_self w"
proof -
  from acc obtain addr where a: "accept_client K (listenFd w) (io_kern (nd_io w)) = ((addr, fd), k)"
    and ok: "fd \<noteq> -1" "plain w fd" "plain w (listenFd w)" "entry (nd_io w) (listenFd w, EPOLLIN) = Some AcceptCb"
    by (auto simp: accepting_def split: if_split_asm prod.split_asm)
  from accepted_taking [OF inv a ok(1,2)] obtain io' where x: "AcceptConn K w = Inr (w\<lparr>nd_io := io'\<rparr>)" "ninv b pend (w\<lparr>nd_io := io'\<rparr>)"
    "taking stream (w\<lparr>nd_io := io'\<rparr>) fd IncomingHello (stream k fd)" "loop_fds io' = loop_fds (nd_io w)" "stream (io_kern io') fd = stream k fd" .
  have "callbacks_of_event EPOLLIN = [(EPOLLIN, Ok ())]"
    by (auto simp: callbacks_of_event_def EPOLLIN_def EPOLLOUT_def EPOLLHUP_def EPOLLERR_def)
  with ok(3,4) x(1) have "run_event n K (listenFd w, EPOLLIN) w = Inr (False, w\<lparr>nd_io := io'\<rparr>)"
    by (auto simp: run_event_def plain_def RunCallback_def run_keeper_def entry_def Let_def split: option.split)
  moreover have "plain (w\<lparr>nd_io := io'\<rparr>) fd" using ok(2) plain_cong [of "w\<lparr>nd_io := io'\<rparr>" w] x(4) by simp
  ultimately show thesis using x by (intro that [of "w\<lparr>nd_io := io'\<rparr>"]) simp_all
qed

lemma call_opens_both:
  assumes env: "\<And>k k'. env k k' \<Longrightarrow> interest k' = interest k \<and> opn k' = opn k" and net: "network K env stream deliver"
    and w1: "ninv 39 pend w1" and call: "calling wire stream w1 fd (nd_self v)" and self: "nd_self w1 = p"
    and v: "ninv 40 pend v" "accepting K v = Some (fd', k')" "stream k' fd' = []"
    and known: "timer v p \<noteq> 0" and named: "\<forall>k. fd' \<in> opn k \<longrightarrow> fst (get_fd_addr K fd' k) \<noteq> None"
  shows "\<exists>w' v'. exchange_from n K wire deliver fd fd' w1 v w' v'
    \<and> nd_trace w' = nd_trace w1 @ [SessionOpened GetTransportId (nd_self v) OUTGOING]
    \<and> nd_trace v' = nd_trace v @ [SessionOpened GetTransportId p INCOMING]
    \<and> established stream w' fd (nd_self v, OUTGOING) \<and> conn_for (nd_self v) w' = fd
    \<and> established stream v' fd' (p, INCOMING)"
proof -
  let ?n = "frame (Serialize (make_hello p Notify))" and ?a = "frame (Serialize (make_hello (nd_self v) Answer))"
  from call self have C: "plain w1 fd" "connToFd w1 (nd_self v, OUTGOING) = None" "stream (io_kern (nd_io w1)) fd = []"
    "putting wire w1 fd (OutgoingNotifySent (nd_self v)) (wire (io_kern (nd_io w1)) fd @ ?n)" by (simp_all add: calling_def)
  have "ninv (Suc (Suc 38)) pend v" using v(1) by simp
  note V = accepting_starts [OF this v(2)]
  obtain v1 where v1: "run_event n K (listenFd v, EPOLLIN) v = Inr (False, v1)" "ninv 38 pend v1" "plain v1 fd'"
    "taking stream v1 fd' IncomingHello []" "stream (io_kern (nd_io v1)) fd' = []"
    "nd_trace v1 = nd_trace v" "activeConns v1 = activeConns v" "timer v1 = timer v" "nd_self v1 = nd_self v"
    by (rule V) (use v(3) in simp)
  have silent: "silent K (\<lambda>k. stream k f)" and calm: "calm K (\<lambda>k. stream k f)" for f
    using recv_laws_quiet [OF receives(1)] net by (simp_all add: silent_def calm_def network_def)
  have "ninv (17 + 22) pend w1" using w1 by simp
  moreover have "length (wire (io_kern (nd_io w1)) fd @ ?n) \<le> 17 + length (wire (io_kern (nd_io w1)) fd)"
    by (simp add: sizeof_HelloMsg_def)
  ultimately obtain i io2 where i: "i \<le> 17"
    "run_batch n K (replicate i (fd, EPOLLOUT)) w1 = Inr (False, w1\<lparr>nd_io := io2\<rparr>)" "ninv 22 pend (w1\<lparr>nd_io := io2\<rparr>)" "loop_fds io2 = loop_fds (nd_io w1)"
    "taking stream (w1\<lparr>nd_io := io2\<rparr>) fd (OutgoingAnswer (nd_self v)) []" "stream (io_kern io2) fd = []"
    "wire (io_kern io2) fd = wire (io_kern (nd_io w1)) fd @ ?n"
    using notify_goes_out [OF C(4,1) _ _ silent, unfolded C(3)] by blast
  let ?w2 = "w1\<lparr>nd_io := io2\<rparr>" and ?v1 = "arrive deliver fd' ?n v1"
  have s1: "sent_since wire fd w1 ?w2 = ?n" using i(7) by (simp add: sent_since_def)
  have stream1: "stream (io_kern (nd_io ?v1)) fd' = ?n" using net v1(5) by (simp add: arrive_def network_def)
  have take1: "taking stream ?v1 fd' IncomingHello (?n @ [])" using taking_arrive [OF v1(4) net] by simp
  have p1: "plain ?v1 fd'" "timer ?v1 p \<noteq> 0" using v1(3,8) known by (simp_all add: arrive_def plain_def)
  have "ninv (17 + Suc 20) pend v1" using v1(2) by simp
  then have "ninv (length (stream (io_kern (nd_io ?v1)) fd') + Suc 20) pend ?v1" unfolding stream1 frame_hello_length by (rule ninv_arrive [OF _ env net])
  note H = hello_is_answered [OF take1 p1(1) this p1(2) named [rule_format] calm, of n]
  have "nd_trace ?v1 = nd_trace v" "nd_self ?v1 = nd_self v"
    using v1(6,9) by (simp_all add: arrive_def)
  note H = H [unfolded stream1 frame_hello_length this]
  obtain j v2 where
    j: "run_batch n K (replicate j (fd', EPOLLIN)) ?v1 = Inr (False, v2)" "j \<le> 17" "ninv 20 pend v2" "plain v2 fd'"
      "nd_trace v2 = nd_trace v" "stream (io_kern (nd_io v2)) fd' = []"
      "putting wire v2 fd' (IncomingAnswerSent p) (wire (io_kern (nd_io v2)) fd' @ ?a)"
    by (rule H)
  have "ninv 17 pend v2" by (rule node_inv_mono [OF j(3)]) simp
  moreover have "length (wire (io_kern (nd_io v2)) fd' @ ?a) \<le> 17 + length (wire (io_kern (nd_io v2)) fd')"
    by (simp add: sizeof_HelloMsg_def)
  ultimately obtain l v3 where l: "l \<le> 17" "run_batch n K (replicate l (fd', EPOLLOUT)) v2 = Inr (False, v3)"
    "nd_trace v3 = nd_trace v2 @ [SessionOpened GetTransportId (p) INCOMING]"
    "activeConns v3 fd' = Some (p, INCOMING)" "sendQueues v3 fd' = Some []" "plain v3 fd'"
    "reading stream v3 fd' []" "wire (io_kern (nd_io v3)) fd' = wire (io_kern (nd_io v2)) fd' @ ?a"
    using answer_goes_out [OF j(7,4) _ _ silent, unfolded j(6)] by blast
  have s2: "sent_since wire fd' v2 v3 = ?a" using l(8) by (simp add: sent_since_def)
  let ?w3 = "arrive deliver fd ?a ?w2"
  have stream2: "stream (io_kern (nd_io ?w3)) fd = ?a" using net i(6) by (simp add: arrive_def network_def)
  have take2: "taking stream ?w3 fd (OutgoingAnswer (nd_self v)) (?a @ [])" using taking_arrive [OF i(5) net] by simp
  have p2: "plain ?w3 fd" using C(1) plain_cong [of ?w2 w1] i(4) by (simp add: arrive_def plain_def loop_fds_def)
  have "ninv 17 pend ?w2" by (rule node_inv_mono [OF i(3)]) simp
  then have "ninv (length (stream (io_kern (nd_io ?w3)) fd)) pend ?w3" unfolding stream2 frame_hello_length by (rule ninv_arrive [OF _ env net])
  note H = answer_comes_in [OF take2 p2 this, of n]
  have "nd_trace ?w3 = nd_trace w1" "connToFd ?w3 = connToFd w1" by (simp_all add: arrive_def)
  note H = H [unfolded stream2 frame_hello_length this]
  obtain m w3 where m: "run_batch n K (replicate m (fd, EPOLLIN)) ?w3 = Inr (False, w3)" "m \<le> 17"
    "nd_trace w3 = nd_trace w1 @ [SessionOpened GetTransportId (nd_self v) OUTGOING]" "activeConns w3 fd = Some (nd_self v, OUTGOING)"
    "sendQueues w3 fd = Some []" "reading stream w3 fd []" "connToFd w3 = map_emplace (nd_self v, OUTGOING) fd (connToFd w1)" "plain w3 fd"
    by (rule H)
  note i(2) v1(1) j(1) [folded s1] l(2) m(1) [folded s2]
  then have "exchange_from n K wire deliver fd fd' w1 v w3 v3"
    unfolding exchange_from_def using i(1) j(2) l(1) m(2) by blast
  moreover have "conn_for (nd_self v) w3 = fd" using C(2) by (simp add: conn_for_def m(7) map_emplace_def)
  moreover have "nd_trace v3 = nd_trace v @ [SessionOpened GetTransportId (p) INCOMING]" using l(3) j(5) by simp
  ultimately show ?thesis using l(4-7) m(3-6,8) by (intro exI [of _ w3] exI [of _ v3]) (simp add: established_def)
qed

lemma both_open:
  assumes env: "\<And>k k'. env k k' \<Longrightarrow> interest k' = interest k \<and> opn k' = opn k" and net: "network K env stream deliver"
    and w: "ninv 40 pend w" "connecting K (nd_self v) w = Some (fd, k)" "stream k fd = []"
    and v: "ninv 40 pend v" "accepting K v = Some (fd', k')" "stream k' fd' = []"
    and known: "timer v (nd_self w) \<noteq> 0" and named: "\<forall>k. fd' \<in> opn k \<longrightarrow> fst (get_fd_addr K fd' k) \<noteq> None"
    and reg: "GetTransportId \<in> set (nd_transports w)"
  shows "\<exists>w' v'. exchange n K wire deliver fd fd' w v w' v'
    \<and> nd_trace w' = nd_trace w @ [SessionOpened GetTransportId (nd_self v) OUTGOING]
    \<and> nd_trace v' = nd_trace v @ [SessionOpened GetTransportId (nd_self w) INCOMING]
    \<and> established stream w' fd (nd_self v, OUTGOING) \<and> conn_for (nd_self v) w' = fd
    \<and> established stream v' fd' (nd_self w, INCOMING)"
proof -
  have "ninv (Suc 39) pend w" using w(1) by simp
  from connecting_starts [OF this w(2,3)] obtain w1 where w1: "OpenSession K (nd_self v) w = Inr w1" "ninv 39 pend w1"
    "calling wire stream w1 fd (nd_self v)" "nd_trace w1 = nd_trace w" "nd_self w1 = nd_self w" .
  have "mgr_OpenSession K GetTransportId (nd_self v) w = Inr w1" using w1(1) reg by (simp add: mgr_OpenSession_def)
  with call_opens_both [OF env net w1(2,3,5) v known named] w1(4) show ?thesis unfolding exchange_def by metis
qed

end

lemma hello_osI:
  assumes "os_ok K interest opn env" and "add_live K interest opn" and "send_laws K wire" and "send_live K"
    and "recv_laws K stream" and "recv_live K stream"
  shows "hello_os K interest opn wire stream"
  using assms by unfold_locales (simp_all add: os_ok_def)

text \<open>What happens to a running process leaves it running.\<close>

lemma running_batch:
  "running_with (length es * (4 * n + 4) + b) n K opn env self w \<Longrightarrow> run_batch n K es w = Inr (False, w') \<Longrightarrow>
     running_with b n K opn env self w'"
proof (induction es arbitrary: w)
  case (Cons e es)
  from Cons.prems(2) obtain w1 where e: "run_event n K e w = Inr (False, w1)" and es: "run_batch n K es w1 = Inr (False, w')"
    by (auto simp: chain_eq_Inr split: if_split_asm)
  have "running_with (4 * n + 4 + (length es * (4 * n + 4) + b)) n K opn env self w"
    by (rule running_mono [OF Cons.prems(1)]) simp
  from Cons.IH [OF running_step [OF this node_step.event [OF e]] es] show ?case .
qed simp

lemma running_arrive:
  assumes "running_with (4 * n + 4 + b) n K opn env self w" and "network K env stream deliver"
  shows "running_with b n K opn env self (arrive deliver fd bs w)"
  using running_step [OF assms(1) node_step.environment] assms(2) by (simp add: arrive_def network_def)

lemma budget:
  fixes x y b c :: nat
  assumes "x \<le> 17 * c" and "y \<le> 17 * c"
  shows "x + (c + (y + b)) \<le> 35 * c + b" and "c + (c + (x + (y + b))) \<le> 36 * c + b"
  using assms by simp_all

lemma exchange_from_running:
  assumes "network K env stream deliver" and "exchange_from n K wire deliver fd fd' w1 v w' v'"
    and w: "running_with (35 * (4 * n + 4) + b) n K opn env self w1" and v: "running_with (36 * (4 * n + 4) + b) n K opn env self' v"
  shows "running_with b n K opn env self w'" and "running_with b n K opn env self' v'"
proof -
  let ?c = "4 * n + 4"
  from assms(2) obtain w2 v1 v2 i j l m where
    2: "run_batch n K (replicate i (fd, EPOLLOUT)) w1 = Inr (False, w2)"
    and 3: "run_event n K (listenFd v, EPOLLIN) v = Inr (False, v1)"
    and 4: "run_batch n K (replicate j (fd', EPOLLIN)) (arrive deliver fd' (sent_since wire fd w1 w2) v1) = Inr (False, v2)"
    and 5: "run_batch n K (replicate l (fd', EPOLLOUT)) v2 = Inr (False, v')"
    and 6: "run_batch n K (replicate m (fd, EPOLLIN)) (arrive deliver fd (sent_since wire fd' v2 v') w2) = Inr (False, w')"
    and le: "i \<le> 17" "j \<le> 17" "l \<le> 17" "m \<le> 17" by (auto simp: exchange_from_def)
  have le: "i * ?c \<le> 17 * ?c" "j * ?c \<le> 17 * ?c" "l * ?c \<le> 17 * ?c" "m * ?c \<le> 17 * ?c" using le by (simp_all only: mult_le_mono1)
  have "running_with (i * ?c + (?c + (m * ?c + b))) n K opn env self w1"
    by (rule running_mono [OF w budget(1) [OF le(1,4)]])
  then have "running_with (?c + (m * ?c + b)) n K opn env self w2" using running_batch [OF _ 2] by simp
  from running_arrive [OF this assms(1)] show "running_with b n K opn env self w'" using running_batch [OF _ 6] by simp
  have "running_with (?c + (?c + (j * ?c + (l * ?c + b)))) n K opn env self' v"
    by (rule running_mono [OF v budget(2) [OF le(2,3)]])
  from running_arrive [OF running_step [OF this node_step.event [OF 3]] assms(1)]
  have "running_with (j * ?c + (l * ?c + b)) n K opn env self' (arrive deliver fd' (sent_since wire fd w1 w2) v1)" .
  then have "running_with (l * ?c + b) n K opn env self' v2" using running_batch [OF _ 4] by simp
  then show "running_with b n K opn env self' v'" using running_batch [OF _ 5] by simp
qed

lemma exchange_running:
  assumes "network K env stream deliver" and "exchange n K wire deliver fd fd' w v w' v'"
    and w: "running_with (36 * (4 * n + 4) + b) n K opn env self w" and v: "running_with (36 * (4 * n + 4) + b) n K opn env self' v"
  shows "running_with b n K opn env self w'" and "running_with b n K opn env self' v'"
proof -
  from assms(2) obtain w1 where 1: "mgr_OpenSession K GetTransportId (nd_self v) w = Inr w1"
    and e: "exchange_from n K wire deliver fd fd' w1 v w' v'" by (auto simp: exchange_def)
  have "running_with (4 * n + 4 + (35 * (4 * n + 4) + b)) n K opn env self w" by (rule running_mono [OF w]) simp
  from exchange_from_running [OF assms(1) e running_step [OF this node_step.open_session [OF 1]] v]
  show "running_with b n K opn env self w'" "running_with b n K opn env self' v'" .
qed

lemma handshake_result:
  assumes "os_ok K interest opn env" and "add_live K interest opn" and "send_laws K wire" and "send_live K"
    and "recv_laws K stream" and "recv_live K stream" and "network K env stream deliver"
    and "running_with (36 * (4 * n + 4) + b) n K opn env self w" and "connecting K (nd_self v) w = Some (fd, k)" and "stream k fd = []"
    and "running_with (36 * (4 * n + 4) + b) n K opn env self' v" and "accepting K v = Some (fd', k')" and "stream k' fd' = []"
    and "timer v (nd_self w) \<noteq> 0" and "\<forall>k. fd' \<in> opn k \<longrightarrow> fst (get_fd_addr K fd' k) \<noteq> None"
  shows "\<exists>w' v'. exchange n K wire deliver fd fd' w v w' v'
    \<and> running_with b n K opn env self w' \<and> running_with b n K opn env self' v'
    \<and> nd_trace w' = nd_trace w @ [SessionOpened GetTransportId (nd_self v) OUTGOING]
    \<and> nd_trace v' = nd_trace v @ [SessionOpened GetTransportId (nd_self w) INCOMING]
    \<and> established stream w' fd (nd_self v, OUTGOING) \<and> conn_for (nd_self v) w' = fd
    \<and> established stream v' fd' (nd_self w, INCOMING)"
proof -
  have env: "\<And>k k'. env k k' \<Longrightarrow> interest k' = interest k \<and> opn k' = opn k" using assms(1) by (simp add: os_ok_def)
  have "running_with 40 n K opn env self w" "running_with 40 n K opn env self' v"
    by (rule running_mono [OF assms(8)] running_mono [OF assms(11)]; simp)+
  note inv = this [THEN running_with_inv [OF assms(1)]]
  have "GetTransportId \<in> set (nd_transports w)" by (simp add: running_transports [OF assms(8)])
  from hello_os.both_open [OF hello_osI [OF assms(1-6)] env assms(7) inv(1) assms(9,10) inv(2) assms(12-15) this]
  obtain w' v' where e: "exchange n K wire deliver fd fd' w v w' v'"
    and r: "nd_trace w' = nd_trace w @ [SessionOpened GetTransportId (nd_self v) OUTGOING]"
      "nd_trace v' = nd_trace v @ [SessionOpened GetTransportId (nd_self w) INCOMING]"
      "established stream w' fd (nd_self v, OUTGOING) \<and> conn_for (nd_self v) w' = fd"
      "established stream v' fd' (nd_self w, INCOMING)" by blast
  from exchange_running [OF assms(7) e assms(8,11)] e r show ?thesis by blast
qed



section \<open>A run\<close>

text \<open>
  Two processes that have heard each other's broadcast: descriptor 9 listens, 10 is the other
  one's timer and 11 the connection each has started itself; the new one is 12.
\<close>

definition sim_deliver :: "descr \<Rightarrow> byte list \<Rightarrow> sim \<Rightarrow> sim" where
  "sim_deliver fd bs k = k\<lparr>sim_input := (sim_input k)(fd := sim_input k fd @ [bs])\<rparr>"

lemma sim_network: "network sim_kernel sim_env (\<lambda>k fd. concat (sim_input k fd)) sim_deliver"
  by (simp add: network_def sim_kernel_def sim_env_def sim_deliver_def)

interpretation sim_hello: hello_os sim_kernel "\<lambda>k _. sim_interest k" "\<lambda>k. set (sim_open k)" sim_wire
    "\<lambda>k fd. concat (sim_input k fd)"
  by unfold_locales

abbreviation first_peer :: peer_id where
  "first_peer \<equiv> PeerId 0 0 0 0 0 1"

definition meet :: "peer_id \<Rightarrow> act list" where
  "meet p = [Datagram (Serialize (make_hello p Notify)) 0x0201A8C0, Event 6 EPOLLIN]"

definition met :: "peer_id \<Rightarrow> peer_id \<Rightarrow> sim node \<Rightarrow> bool" where
  "met self p w \<longleftrightarrow> nd_self w = self \<and> nd_trace w = [NewNeighbour 1 p] \<and> timer w p \<noteq> 0 \<and> listenFd w = 9
     \<and> (case connecting sim_kernel p w of None \<Rightarrow> False | Some (fd, k) \<Rightarrow> fd = 12 \<and> sim_input k 12 = [])
     \<and> (case accepting sim_kernel w of None \<Rightarrow> False | Some (fd, k) \<Rightarrow> fd = 12 \<and> sim_input k 12 = [])"

lemma met_holds:
  "run_as first_peer (sim0\<lparr>sim_ifs := [sim_if]\<rparr>) (meet other_peer) (met first_peer other_peer)"
  "run_as other_peer (sim0\<lparr>sim_ifs := [sim_if]\<rparr>) (meet first_peer) (met other_peer first_peer)"
  by code_simp+

lemma met_state:
  assumes "run_as self (sim0\<lparr>sim_ifs := [sim_if]\<rparr>) (meet p) (met self p)"
  obtains w where "running_with 901 5 sim_kernel (\<lambda>k. set (sim_open k)) sim_env self w" and "met self p w"
  by (rule run_asD [OF assms]) (auto simp: meet_def sim0_def dest: running_mono [where b' = 901] intro: that)

lemma met_pair:
  assumes "met first_peer other_peer w" and "met other_peer first_peer v"
  shows "\<exists>k k'. connecting sim_kernel (nd_self v) w = Some (12, k) \<and> concat (sim_input k 12) = []
    \<and> accepting sim_kernel v = Some (12, k') \<and> concat (sim_input k' 12) = [] \<and> timer v (nd_self w) \<noteq> 0
    \<and> nd_self w = first_peer \<and> nd_self v = other_peer"
  using assms by (auto simp: met_def split: option.split_asm)

lemma sim_named: "\<forall>k. fd \<in> set (sim_open k) \<longrightarrow> fst (get_fd_addr sim_kernel fd k) \<noteq> None"
  by (simp add: get_fd_addr_def sim_kernel_def)



end
