(* ===== verification/Discovery.thy ===== *)
theory Discovery
  imports Sessions Faults
begin

text \<open>
  Finding and losing peers: the loop over received hellos ends, what a change of the
  network's interfaces does to the sessions, how an incoming hello exchange ends, and the
  fault of a hello from an address on no interface.
\<close>

section \<open>The loop over received hellos\<close>

text \<open>
  \<open>pending k\<close> counts the datagrams queued on the broadcast socket and those that will still
  arrive while the loop runs. A successful \<open>recvfrom\<close> takes one; no other call the loop
  makes adds any.
\<close>

definition datagram_laws :: "'k kernel \<Rightarrow> ('k \<Rightarrow> nat) \<Rightarrow> bool" where
  "datagram_laws K pending \<longleftrightarrow>
     (\<forall>fd n k d k'. k_recvfrom K fd n k = (Some d, k') \<longrightarrow> pending k' < pending k) \<and>
     (\<forall>fd k. pending (k_write K fd k) = pending k) \<and>
     (\<forall>fd k. pending (k_close K fd k) = pending k) \<and>
     (\<forall>ep c fd a k. pending (snd (k_epoll_ctl K ep c fd a k)) = pending k) \<and>
     (\<forall>d t p k. pending (snd (k_socket K d t p k)) = pending k) \<and>
     (\<forall>fd l n v k. pending (snd (k_setsockopt K fd l n v k)) = pending k) \<and>
     (\<forall>fd a k. pending (snd (k_bind K fd a k)) = pending k) \<and>
     (\<forall>fd a k. pending (snd (k_connect K fd a k)) = pending k) \<and>
     (\<forall>k. pending (snd (k_getifaddrs K k)) = pending k) \<and>
     (\<forall>fd bs a k. pending (snd (k_sendto K fd bs a k)) = pending k) \<and>
     (\<forall>k. pending (snd (k_timerfd_create K k)) = pending k) \<and>
     (\<forall>fd i v k. pending (snd (k_timerfd_settime K fd i v k)) = pending k)"

locale datagram_queue =
  fixes K :: "'k kernel" and pending :: "'k \<Rightarrow> nat"
  assumes laws: "datagram_laws K pending"
begin

lemma taken: "k_recvfrom K fd n k = (Some d, k') \<Longrightarrow> pending k' < pending k"
  using laws [unfolded datagram_laws_def, THEN conjunct1] by blast

lemma kept [simp]:
  "pending (k_write K fd k) = pending k" "pending (k_close K fd k) = pending k"
  "pending (snd (k_epoll_ctl K ep c fd a k)) = pending k" "pending (snd (k_socket K d t p k)) = pending k"
  "pending (snd (k_setsockopt K fd l n v k)) = pending k" "pending (snd (k_bind K fd b k)) = pending k"
  "pending (snd (k_connect K fd s k)) = pending k" "pending (snd (k_getifaddrs K k)) = pending k"
  "pending (snd (k_sendto K fd bs s k)) = pending k" "pending (snd (k_timerfd_create K k)) = pending k"
  "pending (snd (k_timerfd_settime K fd i v k)) = pending k"
  using laws by (simp_all add: datagram_laws_def)

abbreviation pend :: "'k node \<Rightarrow> nat" where
  "pend w \<equiv> pending (io_kern (nd_io w))"

lemma quiet_pending: "quiet K pending"
  by (simp add: quiet_def)

lemma pend_start:
  "start_io (SendMessage K a m s u) w = Inr (c, w') \<Longrightarrow> pend w' = pend w"
  by (auto simp: start_io_def SendMessage_def chain_eq_Inr Let_def dest: quiet_start_stage [OF quiet_pending] split: if_split_asm)

lemma pend_abandon [simp]: "pend (abandon K a w) = pend w"
  by (auto simp: abandon_def on_io_Release Release_def Let_def quiet_Deregister [OF quiet_pending])

lemma pend_hellos [simp]: "pending (send_hellos K fd msg as k) = pending k"
  by (induction as arbitrary: k) (simp_all add: send_broadcast_def)

lemma pend_SendBroadcastHello [simp]: "pend (SendBroadcastHello K w) = pend w"
  by (simp add: SendBroadcastHello_def sys_def case_prod_beta Let_def)

lemma pend_tcp: "pending (snd (create_tcp_socket K port k)) = pending k"
  by (simp add: create_tcp_socket_def case_prod_beta Let_def)

lemma pend_outgoing: "OutgoingHelloExchange K fd p w = Inr w' \<Longrightarrow> pend w' = pend w"
proof -
  assume run: "OutgoingHelloExchange K fd p w = Inr w'"
  let ?a = "io_next (nd_io w)"
  from run obtain c w1 where s: "start_io (SendMessage K ?a (Serialize (make_hello (nd_self w) Notify)) (OutgoingNotifySent p) False)
      (w\<lparr>nd_io := snd (Create fd (nd_io w))\<rparr>) = Inr (c, w1)"
    and w': "(case c of Some (SendResolved _ res) \<Rightarrow> notify_sent_cb K p ?a res w1 | _ \<Rightarrow> Inr w1) = Inr w'"
    by (auto simp: OutgoingHelloExchange_def on_io_Create chain_eq_Inr)
  have "pend w1 = pend w" using pend_start [OF s] by simp
  moreover have "u = SendResolved (OutgoingNotifySent p) (Err IoFailed)" if "c = Some u" for u
    using start_send_call s that by blast
  ultimately show ?thesis using w' by (cases c) (auto simp: notify_sent_cb_def OnLinkEstablishingError_def)
qed

lemma pend_EstablishConnection: "EstablishConnection K p w = Inr w' \<Longrightarrow> pend w' = pend w"
  by (auto simp: EstablishConnection_def OnLinkEstablishingError_def sys_def case_prod_beta Let_def pend_tcp
      dest!: pend_outgoing split: option.split_asm if_split_asm)

lemma pend_track_peer: "track_peer K a msg w = Inr (r, w') \<Longrightarrow> pend w' = pend w"
  by (auto simp: track_peer_def sys_def create_timer_def set_timer_def case_prod_beta Let_def chain_eq_Inr
      dest!: quiet_register_input [OF quiet_pending] split: option.split_asm if_split_asm)

lemma pend_ProcessHello: "ProcessHello K a msg n w = Inr w' \<Longrightarrow> pend w' = pend w"
  by (auto simp: ProcessHello_def OnNeighborFound_def NotifyNewNeighbour_def mgr_OpenSession_def OpenSession_def chain_eq_Inr
      dest!: pend_track_peer pend_EstablishConnection split: if_split_asm)

lemma pend_read: "read_broadcast K fd k = (Some d, k') \<Longrightarrow> pending k' < pending k"
  by (auto simp: read_broadcast_def dest: taken split: option.split_asm prod.split_asm)

lemma ReceiveBroadcasts_fuel: "pend w < n \<Longrightarrow> ReceiveBroadcasts n K w \<noteq> Inl OutOfFuel"
proof (induction n arbitrary: w)
  case (Suc n)
  obtain r k where r: "read_broadcast K (broadcastFd w) (io_kern (nd_io w)) = (r, k)" by force
  have s: "sys (read_broadcast K (broadcastFd w)) w = (r, set_kern k w)" by (simp add: sys_def r)
  show ?case
  proof (cases r)
    case (Some d)
    with pend_read r Suc.prems have "pending k < n" by fastforce
    then have again: "ReceiveBroadcasts n K (set_kern k w) \<noteq> Inl OutOfFuel" by (intro Suc.IH) simp
    have "chain (ProcessHello K a m True (set_kern k w)) (\<lambda>w. ReceiveBroadcasts n K w) \<noteq> Inl OutOfFuel" for a m
    proof (cases "ProcessHello K a m True (set_kern k w)")
      case (Inl f)
      moreover have "f \<noteq> OutOfFuel"
        using Inl by (auto simp: ProcessHello_def chain_eq_Inl OnNeighborFound_def NotifyNewNeighbour_def mgr_OpenSession_def
            OpenSession_def EstablishConnection_no_fault dest: track_peer_fault split: if_split_asm)
      ultimately show ?thesis by simp
    next
      case (Inr v)
      with pend_ProcessHello \<open>pending k < n\<close> show ?thesis using Suc.IH [of v] by fastforce
    qed
    with again show ?thesis by (cases d) (auto simp: s Some split: option.split)
  qed (simp add: s)
qed simp

end

lemma sim_datagram_laws: "datagram_laws sim_kernel (\<lambda>k. length (sim_datagrams k))"
  by (auto simp: datagram_laws_def sim_kernel_def sim_alloc_def sim_epoll_ctl_def sim_recvfrom_def Let_def
      split: list.split_asm option.split)

interpretation sim_datagrams: datagram_queue sim_kernel "\<lambda>k. length (sim_datagrams k)"
  by unfold_locales (rule sim_datagram_laws)

text \<open>
  C36: handling received hellos ends: with fewer than \<open>n\<close> datagrams queued or arriving, the loop
  of \<open>ReceiveBroadcasts\<close> needs at most \<open>n\<close> rounds. In a started process it then returns, or
  stops at a hello from an address on no interface.
\<close>

theorem ReceiveBroadcasts_ends:
  assumes "os_ok K interest opn env" and "datagram_laws K pending" and "running_with b m K opn env self w"
    and "pending (io_kern (nd_io w)) < n"
  shows "(\<exists>w'. ReceiveBroadcasts n K w = Inr w') \<or> ReceiveBroadcasts n K w = Inl NullString"
proof (cases "ReceiveBroadcasts n K w")
  case (Inl f)
  have "GetTransportId \<in> set (nd_transports w)" by (simp add: running_transports [OF assms(3)])
  from ReceiveBroadcasts_fault [OF this Inl] datagram_queue.ReceiveBroadcasts_fuel [of K pending w n] assms(2,4) Inl
  show ?thesis by (auto simp: datagram_queue_def)
qed simp

theorem ReceiveBroadcasts_ends_witness:
  "\<exists>w w'. running 5 sim_kernel (\<lambda>k. set (sim_open k)) sim_env (PeerId 0 0 0 0 0 1) w
     \<and> length (sim_datagrams (io_kern (nd_io w))) = 2 \<and> ReceiveBroadcasts 3 sim_kernel w = Inr w'"
proof -
  let ?h = "\<lambda>p. Serialize (make_hello (PeerId 0 0 0 0 0 p) Notify)"
  have "run_holds (sim0\<lparr>sim_ifs := [sim_if]\<rparr>) [Datagram (?h 2) 0x0201A8C0, Datagram (?h 3) 0x0301A8C0]
      (\<lambda>w. length (sim_datagrams (io_kern (nd_io w))) = 2
         \<and> (case ReceiveBroadcasts 3 sim_kernel w of Inl f \<Rightarrow> f \<noteq> NullString | Inr _ \<Rightarrow> True))"
    by code_simp
  then show ?thesis
  proof (rule run_holdsD)
    fix w assume w: "running 5 sim_kernel (\<lambda>k. set (sim_open k)) sim_env (PeerId 0 0 0 0 0 1) w"
      and l: "length (sim_datagrams (io_kern (nd_io w))) = 2
        \<and> (case ReceiveBroadcasts 3 sim_kernel w of Inl f \<Rightarrow> f \<noteq> NullString | Inr _ \<Rightarrow> True)"
    then have "length (sim_datagrams (io_kern (nd_io w))) < 3" by simp
    from ReceiveBroadcasts_ends [OF sim_os_ok sim_datagram_laws w this] w l show ?thesis by auto
  qed (simp_all add: sim0_def)
qed

section \<open>Interfaces that disappear\<close>

text \<open>The peers last heard on an interface that is gone, and the descriptors of their sessions.\<close>

definition gone_peers :: "string set \<Rightarrow> (string \<times> peer_id) list \<Rightarrow> peer_id set" where
  "gone_peers ifs xs = {p. \<exists>i. (i, p) \<in> set xs \<and> i \<notin> ifs}"

definition session_fds :: "peer_id set \<Rightarrow> 'k node \<Rightarrow> descr set" where
  "session_fds P w = {fd. \<exists>p\<in>P. connToFd w (p, INCOMING) = Some fd \<or> connToFd w (p, OUTGOING) = Some fd}"

fun lost_peers :: "notification list \<Rightarrow> peer_id list" where
  "lost_peers [] = []"
| "lost_peers (LostNeighbour _ p # ns) = p # lost_peers ns"
| "lost_peers (_ # ns) = lost_peers ns"

lemma lost_peers_append [simp]: "lost_peers (xs @ ys) = lost_peers xs @ lost_peers ys"
  by (induction xs rule: lost_peers.induct) simp_all

lemma peers_CloseConn [simp]: "peer_part (CloseConn K p d w) = peer_part w"
proof -
  have "peer_part (CloseFD K fd v) = peer_part v" for fd v
    by (simp add: CloseFD_def OnLinkClosed_def on_loop_def case_prod_beta Let_def split: option.split)
      (simp add: peer_part_def close_fd_def set_kern_def)
  then show ?thesis by (simp add: CloseConn_def close_dir_def split: option.split)
qed

context os_contract
begin

lemma lost_interfaces_effect:
  "ninv b pend w \<Longrightarrow> lost_interfaces K ifs xs w = (removed, w') \<Longrightarrow>
     activeConns w' = activeConns w |` (- session_fds (gone_peers ifs xs) w)
     \<and> opn (io_kern (nd_io w')) = opn (io_kern (nd_io w)) - session_fds (gone_peers ifs xs) w
     \<and> (\<forall>p d. d \<noteq> ALL_DIR \<longrightarrow> connToFd w' (p, d) = (if p \<in> gone_peers ifs xs then None else connToFd w (p, d)))
     \<and> lost_peers (nd_trace w') = lost_peers (nd_trace w) @ map snd (filter (\<lambda>x. fst x \<notin> ifs) xs)
     \<and> peer_part w' = peer_part w \<and> removed = map fst (filter (\<lambda>x. fst x \<notin> ifs) xs)"
proof (induction xs arbitrary: w w' removed)
  case Nil
  then show ?case by (auto simp: gone_peers_def session_fds_def fun_eq_iff restrict_map_def)
next
  case (Cons x xs)
  obtain i p where x: "x = (i, p)" by (cases x)
  show ?case
  proof (cases "i \<in> ifs")
    case True
    then have "gone_peers ifs (x # xs) = gone_peers ifs xs" by (auto simp: gone_peers_def x)
    with True Cons.IH [OF Cons.prems(1)] Cons.prems(2) show ?thesis by (simp add: x)
  next
    case False
    let ?P = "gone_peers ifs xs"
    let ?v = "CloseConn K p ALL_DIR w" and ?w = "OnNeighborLost p (CloseSession K p ALL_DIR w)"
    have w: "?w = notify (LostNeighbour GetTransportId p) ?v" by (simp add: OnNeighborLost_def CloseSession_def)
    have n: "ninv b pend ?w" unfolding w by (rule ninv_notify [OF ninv_CloseConn [OF Cons.prems(1)]]) simp_all
    obtain r u where u: "lost_interfaces K ifs xs ?w = (r, u)" by force
    with Cons.prems(2) False have res: "removed = i # r" "w' = u" by (simp_all add: x Let_def)
    note IH = Cons.IH [OF n u] and E = CloseConn_effect [OF Cons.prems(1) refl refl, of p]
    have P: "gone_peers ifs (x # xs) = insert p ?P" using False by (auto simp: gone_peers_def x)
    have conn: "connToFd ?w (q, d) = (if q = p then None else connToFd w (q, d))" if "d \<noteq> ALL_DIR" for q d
      using that E by (cases d) (auto simp: w)
    have F: "session_fds (insert p ?P) w = session_fds {p} w \<union> session_fds ?P ?w"
      using conn by (auto simp: session_fds_def split: if_splits)
    have one: "session_fds {p} w = {fd. connToFd w (p, INCOMING) = Some fd \<or> connToFd w (p, OUTGOING) = Some fd}"
      by (simp add: session_fds_def)
    have "activeConns ?w = activeConns w |` (- session_fds {p} w)"
      and "opn (io_kern (nd_io ?w)) = opn (io_kern (nd_io w)) - session_fds {p} w"
      and "lost_peers (nd_trace ?w) = lost_peers (nd_trace w) @ [p]" and "peer_part ?w = peer_part w"
      using E by (simp_all add: w one)
    with IH conn False show ?thesis
      unfolding P F by (auto simp: res x restrict_restrict)
  qed
qed

end

lemma al_erase_filter: "al_erase k xs = filter (\<lambda>x. fst x \<noteq> k) xs"
  by (induction k xs rule: al_erase.induct) auto

lemma fold_al_erase: "fold al_erase ks xs = filter (\<lambda>x. fst x \<notin> set ks) xs"
  by (induction ks arbitrary: xs) (auto simp: al_erase_filter conj_commute)

lemma peer_part_hello [simp]: "peer_part (SendBroadcastHello K w) = peer_part w"
  by (simp add: SendBroadcastHello_def sys_def case_prod_beta Let_def)

lemma conns_hello [simp]:
  "activeConns (SendBroadcastHello K w) = activeConns w" "connToFd (SendBroadcastHello K w) = connToFd w"
  "nd_trace (SendBroadcastHello K w) = nd_trace w"
  by (simp_all add: SendBroadcastHello_def sys_def case_prod_beta Let_def)

context os_contract
begin

lemma network_update_effect:
  assumes inv: "ninv b pend w" and run: "ProcessNetworkUpdate n K w = Inr w'"
    and k: "clear_netlink_socker n K (netlinkFd w) (io_kern (nd_io w)) = Inr k" and ifs: "k_getifaddrs K k = (ifs, k')"
    and P: "P = gone_peers (get_interfaces ifs) (ifToPeer w)"
  shows "activeConns w' = activeConns w |` (- session_fds P w)
    \<and> opn (io_kern (nd_io w')) = opn (io_kern (nd_io w)) - session_fds P w
    \<and> (\<forall>p d. d \<noteq> ALL_DIR \<longrightarrow> connToFd w' (p, d) = (if p \<in> P then None else connToFd w (p, d)))
    \<and> lost_peers (nd_trace w') = lost_peers (nd_trace w) @ map snd (filter (\<lambda>x. fst x \<notin> get_interfaces ifs) (ifToPeer w))
    \<and> ifToPeer w' = filter (\<lambda>x. fst x \<in> get_interfaces ifs) (ifToPeer w)
    \<and> peer_part (w'\<lparr>ifToPeer := ifToPeer w\<rparr>) = peer_part w"
proof -
  let ?ifs = "get_interfaces ifs" and ?w = "set_kern k' w"
  from ifs have "k' = snd (k_getifaddrs K k)" by simp
  then have same: "interest k' = interest (io_kern (nd_io w))" "opn k' = opn (io_kern (nd_io w))"
    using clear_netlink_same [OF k] by simp_all
  from same have n: "ninv b pend ?w" by (intro ninv_kern(1) [OF inv] kern_ok_same)
  obtain removed v where l: "lost_interfaces K ?ifs (ifToPeer w) ?w = (removed, v)" by force
  from run k ifs l have w': "w' = SendBroadcastHello K (v\<lparr>ifToPeer := fold al_erase removed (ifToPeer v)\<rparr>)"
    by (simp add: ProcessNetworkUpdate_def sys_def Let_def) (simp add: set_kern_def)
  note L = lost_interfaces_effect [OF n l]
  have F: "session_fds P ?w = session_fds P w" by (simp add: session_fds_def)
  have part: "peer_part w' = peer_part (v\<lparr>ifToPeer := fold al_erase removed (ifToPeer v)\<rparr>)" by (simp add: w')
  from L have pv: "peer_part v = peer_part w" by simp
  have "ifToPeer w' = filter (\<lambda>x. fst x \<notin> set removed) (ifToPeer w)"
    using part pv by (simp add: peer_part_def fold_al_erase)
  also have "\<dots> = filter (\<lambda>x. fst x \<in> ?ifs) (ifToPeer w)"
    by (rule filter_cong) (use L in force)+
  finally have "ifToPeer w' = filter (\<lambda>x. fst x \<in> ?ifs) (ifToPeer w)" .
  moreover have "peer_part (w'\<lparr>ifToPeer := ifToPeer w\<rparr>) = peer_part w" using part pv by (simp add: peer_part_def)
  moreover have "opn (io_kern (nd_io w')) = opn (io_kern (nd_io v))"
    by (simp add: w' SendBroadcastHello_def sys_def case_prod_beta Let_def send_hellos_same)
  ultimately show ?thesis using L same F unfolding P [symmetric] by (simp add: w')
qed

end

text \<open>
  C15: what a change of the network interfaces does in any state of a started process. The
  sessions with the peers last heard on an interface that is gone are closed in both
  directions, all others stay; each such peer is reported lost once for every interface it
  was heard on, in the order of their names; those interfaces are forgotten. The tables of
  visible peers do not change: the peer keeps its timer and its address, and when the timer
  runs out it is reported lost again. A failing \<open>getifaddrs\<close> counts as no interface left.
\<close>

theorem network_update_closes:
  assumes "os_ok K interest opn env" and "running n K opn env self w"
    and "ProcessNetworkUpdate n K w = Inr w'"
    and "clear_netlink_socker n K (netlinkFd w) (io_kern (nd_io w)) = Inr k" and "k_getifaddrs K k = (ifs, k')"
    and "P = gone_peers (get_interfaces ifs) (ifToPeer w)"
  shows "activeConns w' = activeConns w |` (- session_fds P w)
    \<and> opn (io_kern (nd_io w')) = opn (io_kern (nd_io w)) - session_fds P w
    \<and> (d = ALL_DIR \<or> connToFd w' (p, d) = (if p \<in> P then None else connToFd w (p, d)))
    \<and> lost_peers (nd_trace w') = lost_peers (nd_trace w) @ map snd (filter (\<lambda>x. fst x \<notin> get_interfaces ifs) (ifToPeer w))
    \<and> ifToPeer w' = filter (\<lambda>x. fst x \<in> get_interfaces ifs) (ifToPeer w)
    \<and> GetAddress p w' = GetAddress p w \<and> timer w' p = timer w p"
proof -
  from assms(1) have os: "os_contract K interest opn" by (simp add: os_ok_def os_contract_def)
  note E = os_contract.network_update_effect [OF os running_inv [OF assms(1,2)] assms(3-6)]
  moreover have "GetAddress p w' = GetAddress p w \<and> timer w' p = timer w p"
    using E by (simp add: peer_part_def GetAddress_def timer_def)
  ultimately show ?thesis by blast
qed

text \<open>The run's interface disappears.\<close>

theorem network_update_closes_witness:
  "\<exists>w w'. running 5 sim_kernel (\<lambda>k. set (sim_open k)) sim_env (PeerId 0 0 0 0 0 1) w
     \<and> activeConns w 11 = Some (other_peer, OUTGOING) \<and> ProcessNetworkUpdate 5 sim_kernel w = Inr w'
     \<and> activeConns w' 11 = None \<and> lost_peers (nd_trace w') = [other_peer] \<and> timer w' other_peer = 10"
proof -
  let ?gone = "\<lambda>w. (io_kern (nd_io w))\<lparr>sim_ifs := []\<rparr>"
  let ?P = "\<lambda>w. activeConns w 11 = Some (other_peer, OUTGOING) \<and> connToFd w (other_peer, OUTGOING) = Some 11
      \<and> lost_peers (nd_trace w) = [] \<and> timer w other_peer = 10 \<and> ifToPeer w = [(''eth0'', other_peer)]
      \<and> sim_input (io_kern (nd_io w)) (netlinkFd w) = []"
  have "run_holds (sim0\<lparr>sim_ifs := [sim_if]\<rparr>) run_acts ?P" by code_simp
  then show ?thesis
  proof (rule run_holdsD)
    fix v assume v: "running_with 1000 5 sim_kernel (\<lambda>k. set (sim_open k)) sim_env (PeerId 0 0 0 0 0 1) v" and P: "?P v"
    let ?w = "set_kern (?gone v) v"
    have "running_with (4 * 5 + 4 + 0) 5 sim_kernel (\<lambda>k. set (sim_open k)) sim_env (PeerId 0 0 0 0 0 1) v"
      by (rule running_mono [OF v]) simp
    from running_step [OF this node_step.environment] have w: "running 5 sim_kernel (\<lambda>k. set (sim_open k)) sim_env (PeerId 0 0 0 0 0 1) ?w"
      by (simp add: sim_env_def)
    have k: "clear_netlink_socker 5 sim_kernel (netlinkFd ?w) (io_kern (nd_io ?w)) = Inr (?gone v)"
    proof -
      have "sim_input (?gone v) (netlinkFd ?w) = []" using P by (simp add: set_kern_def)
      then have "k_recv sim_kernel (netlinkFd ?w) m (?gone v) = (RecvFailed EAGAIN, ?gone v)" for m
        by (simp add: sim_kernel_def sim_recv_def)
      then show ?thesis by (simp add: numeral_eq_Suc)
    qed
    have ifs: "k_getifaddrs sim_kernel (?gone v) = (Some [], ?gone v)" by (simp add: sim_kernel_def)
    obtain w' where u: "ProcessNetworkUpdate 5 sim_kernel ?w = Inr w'"
      using k by (simp add: ProcessNetworkUpdate_def case_prod_beta Let_def)
    have g: "gone_peers (get_interfaces (Some [])) (ifToPeer ?w) = {other_peer}"
      using P by (auto simp: gone_peers_def get_interfaces_def)
    from network_update_closes [OF sim_os_ok w u k ifs refl, of OUTGOING other_peer, unfolded g] P w u show ?thesis
      by (auto simp: session_fds_def get_interfaces_def)
  qed (simp_all add: sim0_def run_acts_def)
qed

end
