(* ===== verification/Neighbours.thy ===== *)
theory Neighbours
  imports Discovery
begin

text \<open>
  What the transport manager is told of peers that come into reach: when it is told of a new
  one, that it is told of each once until it is told that the peer is lost, and never of the
  process itself.
\<close>

section \<open>Counting the reports\<close>

definition found_count :: "peer_id \<Rightarrow> notification list \<Rightarrow> nat" where
  "found_count p ns = length (filter (\<lambda>n. n = NewNeighbour GetTransportId p) ns)"

definition gone_count :: "peer_id \<Rightarrow> notification list \<Rightarrow> nat" where
  "gone_count p ns = length (filter (\<lambda>n. n = LostNeighbour GetTransportId p) ns)"

lemma count_simps [simp]:
  "found_count p [] = 0" "gone_count p [] = 0"
  "found_count p (xs @ ys) = found_count p xs + found_count p ys" "gone_count p (xs @ ys) = gone_count p xs + gone_count p ys"
  "found_count p [n] = (if n = NewNeighbour GetTransportId p then 1 else 0)"
  "gone_count p [n] = (if n = LostNeighbour GetTransportId p then 1 else 0)"
  by (simp_all add: found_count_def gone_count_def)

text \<open>How much more often a peer was reported found than lost, less one while it is tracked.\<close>

definition excess :: "'k node \<Rightarrow> peer_id \<Rightarrow> int" where
  "excess w p = int (found_count p (nd_trace w)) - int (gone_count p (nd_trace w)) - (if GetAddress p w = None then 0 else 1)"

lemma trace_track_peer: "track_peer K a msg w = Inr (r, w') \<Longrightarrow> nd_trace w' = nd_trace w"
  by (auto simp: track_peer_def sys_def register_input_def case_prod_beta Let_def chain_eq_Inr split: option.split_asm if_split_asm)

lemma track_peer_other: "track_peer K a msg w = Inr (True, w') \<Longrightarrow> hm_id msg \<noteq> nd_self w"
  by (auto simp: track_peer_def)

lemma excess_frame [simp]:
  "excess (w\<lparr>nd_io := i\<rparr>) = excess w" "excess (w\<lparr>activeConns := a\<rparr>) = excess w" "excess (w\<lparr>connToFd := c\<rparr>) = excess w"
  "excess (w\<lparr>sendQueues := q\<rparr>) = excess w" "excess (w\<lparr>ifToPeer := f\<rparr>) = excess w"
  "excess (notify (SessionOpened t p d) w) = excess w" "excess (notify (SessionLost t p d) w) = excess w"
  "excess (notify (SessionError t p e) w) = excess w" "excess (notify (MessageReceived t p m) w) = excess w"
  "excess (notify (LostNeighbour GetTransportId p) w) = (excess w)(p := excess w p - 1)"
  "excess (notify (NewNeighbour t p) w) = (if t = GetTransportId then (excess w)(p := excess w p + 1) else excess w)"
  by (simp_all add: excess_def GetAddress_def notify_def fun_eq_iff)

lemma excess_lost: "excess (ProcessPeerLost K fd w) \<le> excess w"
  by (auto simp: le_fun_def excess_def ProcessPeerLost_def GetAddress_def OnNeighborLost_def on_loop_def map_erase_def map_index_def
      case_prod_beta Let_def notify_def split: option.split)

sublocale os_contract \<subseteq> neighbours: peer_frame excess K "(\<le>)" "\<lambda>b. node_inv interest opn b (\<lambda>_. 0)"
proof unfold_locales
  fix b and w w' :: "'k node" and s msg r
  assume inv: "ninv b (\<lambda>_. 0) w" and t: "track_peer K s msg w = Inr (r, w')"
  note T = track_peer_step [OF fds node_invD(3,4) [OF inv] t]
  show "excess w' \<le> excess w"
    using T trace_track_peer [OF t] by (cases r) (auto simp: le_fun_def excess_def GetAddress_def)
next
  fix b and w w' :: "'k node" and s msg
  assume inv: "ninv b (\<lambda>_. 0) w" and t: "track_peer K s msg w = Inr (True, w')"
  note T = track_peer_step [OF fds node_invD(3,4) [OF inv] t]
  show "excess (notify (NewNeighbour GetTransportId (hm_id msg)) w') \<le> excess w"
    using T trace_track_peer [OF t] by (auto simp: le_fun_def excess_def GetAddress_def notify_def)
next
  fix b fd and w :: "'k node"
  assume inv: "ninv b (\<lambda>_. 0) w"
  show "ninv b (\<lambda>_. 0) (snd (sys (get_fd_addr K fd) w))" "ninv b (\<lambda>_. 0) (snd (sys (read_broadcast K fd) w))"
    by (simp_all add: sys_def case_prod_beta Let_def) (intro ninv_kern(1) [OF inv] kern_ok_same; simp add: get_fd_addr_def read_broadcast_def case_prod_beta split: option.split)+
next
  fix b fd ev pc res c io' and w :: "'k node"
  assume "ninv b (\<lambda>_. 0) w" "entry (nd_io w) (fd, ev) = Some (ProcCb pc)" "run_proc K (fd, ev) pc res (nd_io w) = Inr (c, io')"
  then show "ninv b (\<lambda>_. 0) (w\<lparr>nd_io := io'\<rparr>)" by (rule run_proc_node(1))
next
  fix n b fd ev res and w w' :: "'k node"
  assume "ninv (2 * n + 2 + b) (\<lambda>_. 0) w" "RunCallback n K fd ev res w = Inr w'"
  then show "ninv b (\<lambda>_. 0) w'" by (rule RunCallback_keeps)
next
  fix p and w :: "'k node"
  show "excess (notify (LostNeighbour GetTransportId p) w) \<le> excess w" by (simp add: le_fun_def)
qed (auto simp: excess_lost intro: order_trans node_inv_mono ninv_ProcessHello)

context os_contract
begin

lemmas excess_steps = neighbours.frame_node_steps

end

interpretation own: node_frame nd_self
  by unfold_locales (simp_all add: notify_def)

text \<open>The process itself is never tracked, so it is never reported.\<close>

interpretation own_found: peer_frame "\<lambda>w. (nd_self w, found_count (nd_self w) (nd_trace w))" K "(=)" "\<lambda>_ _. True" for K
proof unfold_locales
  fix w w' :: "'a node" and s msg r
  assume t: "track_peer K s msg w = Inr (r, w')"
  then show "(nd_self w', found_count (nd_self w') (nd_trace w')) = (nd_self w, found_count (nd_self w) (nd_trace w))"
    using own.frame_track_peer [OF t] trace_track_peer [OF t] by simp
next
  fix w w' :: "'a node" and s msg
  assume t: "track_peer K s msg w = Inr (True, w')"
  let ?v = "notify (NewNeighbour GetTransportId (hm_id msg)) w'"
  show "(nd_self ?v, found_count (nd_self ?v) (nd_trace ?v)) = (nd_self w, found_count (nd_self w) (nd_trace w))"
    using own.frame_track_peer [OF t] trace_track_peer [OF t] track_peer_other [OF t] by simp
next
  fix fd and w :: "'a node"
  let ?v = "ProcessPeerLost K fd w"
  have "found_count p (nd_trace ?v) = found_count p (nd_trace w)" for p
    by (auto simp: ProcessPeerLost_def OnNeighborLost_def on_loop_def case_prod_beta Let_def split: option.split)
  then show "(nd_self ?v, found_count (nd_self ?v) (nd_trace ?v)) = (nd_self w, found_count (nd_self w) (nd_trace w))"
    using own.frame_ProcessPeerLost [of K fd w] by simp
qed (auto simp: notify_def)

lemma start_neighbours:
  assumes "IpTransport_Start K (RegisterTransport (new_node self k)) = Inr (True, w)"
  shows "nd_trace w = []" and "GetAddress p w = None" and "nd_self w = self"
proof -
  have reg: "nd_trace v' = nd_trace v \<and> peerToAddr v' = peerToAddr v \<and> nd_self v' = nd_self v"
    if "register_input K fd cb v = Inr (r, v')" for fd cb and v v' :: "'a node" and r
    using that by (auto simp: register_input_def chain_eq_Inr)
  have hello: "nd_trace (SendBroadcastHello K v) = nd_trace v \<and> peerToAddr (SendBroadcastHello K v) = peerToAddr v
      \<and> nd_self (SendBroadcastHello K v) = nd_self v" for v :: "'a node"
    by (simp add: SendBroadcastHello_def sys_def case_prod_beta Let_def)
  from assms have "nd_trace w = [] \<and> peerToAddr w = Map.empty \<and> nd_self w = self"
    by (auto simp: IpTransport_Start_def BroadcastManager_Start_def ConnectionManager_Start_def RegisterTransport_def new_node_def
        sys_def on_loop_def case_prod_beta Let_def chain_eq_Inr hello dest!: reg split: if_split_asm)
  then show "nd_trace w = []" "GetAddress p w = None" "nd_self w = self" by (simp_all add: GetAddress_def)
qed

text \<open>
  C12: a peer is reported found once until it is reported lost. In every state of a started
  process, a peer has been reported found at most as often as it has been reported lost, and
  once more only while it is tracked; the process itself has never been reported. (A peer may
  be reported lost more often: when its interface disappears, and again when its timer runs
  out; a peer whose first hello came on a connection is reported lost without having been
  reported found.)
\<close>

theorem found_once_until_lost:
  assumes "os_ok K interest opn env" and "running n K opn env self w"
  shows "found_count p (nd_trace w) \<le> gone_count p (nd_trace w) + (if GetAddress p w = None then 0 else 1)
    \<and> found_count self (nd_trace w) = 0"
proof -
  from assms(1) have os: "os_contract K interest opn" and env: "\<And>k k'. env k k' \<Longrightarrow> interest k' = interest k \<and> opn k' = opn k"
    by (simp_all add: os_ok_def os_contract_def)
  from assms(2) obtain k w0 i where "0 \<in> opn k" and st: "IpTransport_Start K (RegisterTransport (new_node self k)) = Inr (True, w0)"
    and steps: "node_steps n K env w0 i w" and i: "i * (4 * n + 4) + 5 < 2 ^ 64" by (auto simp: running_with_def)
  note S = start_neighbours [OF st]
  have "node_inv interest opn (i * (4 * n + 4) + 0) (\<lambda>_. 0) w0"
    using os_contract.ninv_IpTransport_Start [OF os st \<open>0 \<in> opn k\<close>, of "i * (4 * n + 4)"] i by simp
  moreover have "node_inv interest opn b (\<lambda>_. 0) v'"
    if "node_inv interest opn (4 * n + 4 + b) (\<lambda>_. 0) v" "node_step n K env v v'" for b v v'
    using os_contract.ninv_node_step [OF os env _ that(2)] that(1) by blast
  ultimately have "excess w \<le> excess w0" using os_contract.excess_steps [OF os _ steps] by blast
  then have "excess w p \<le> excess w0 p" by (simp add: le_fun_def)
  then have "found_count p (nd_trace w) \<le> gone_count p (nd_trace w) + (if GetAddress p w = None then 0 else 1)"
    by (cases "GetAddress p w = None") (auto simp: excess_def S)
  moreover from own_found.frame_node_steps [OF TrueI steps TrueI] have "found_count self (nd_trace w) = 0" by (auto simp: S)
  ultimately show ?thesis ..
qed

theorem found_once_until_lost_witness:
  "\<exists>w. running 5 sim_kernel (\<lambda>k. set (sim_open k)) sim_env (PeerId 0 0 0 0 0 1) w
     \<and> found_count other_peer (nd_trace w) = 1 \<and> gone_count other_peer (nd_trace w) = 0 \<and> GetAddress other_peer w \<noteq> None"
proof -
  obtain w where w: "running 5 sim_kernel (\<lambda>k. set (sim_open k)) sim_env (PeerId 0 0 0 0 0 1) w"
    and t: "nd_trace w = [NewNeighbour 1 other_peer, SessionOpened 1 other_peer OUTGOING]"
    by (rule sim_run) blast
  have c: "found_count other_peer (nd_trace w) = 1" "gone_count other_peer (nd_trace w) = 0"
    by (simp_all add: t found_count_def gone_count_def GetTransportId_def)
  with found_once_until_lost [OF sim_os_ok w, of other_peer] have "GetAddress other_peer w \<noteq> None" by (auto split: if_splits)
  with w c show ?thesis by blast
qed

section \<open>What a hello does\<close>

interpretation peers_found: conn_frame "\<lambda>w. (\<lambda>p. found_count p (nd_trace w), peerToAddr w)"
  by unfold_locales (simp_all add: notify_def fun_eq_iff)

lemma running_self:
  assumes "running_with b n K opn env self w"
  shows "nd_self w = self"
proof -
  from assms obtain k w0 i where st: "IpTransport_Start K (RegisterTransport (new_node self k)) = Inr (True, w0)"
    and steps: "node_steps n K env w0 i w" by (auto simp: running_with_def)
  from own.frame_node_steps [OF TrueI steps TrueI] start_neighbours(3) [OF st] show ?thesis by simp
qed

text \<open>
  C13: what a broadcast hello does in any state of a started process. Its sender is reported
  found, once and nobody else is, exactly if the hello makes it a tracked peer; it is then
  tracked at the address the hello came from. A hello of the process itself or of a tracked
  peer changes no address, so a peer that moved stays at its old address until its timer runs
  out.
\<close>

theorem hello_decides:
  assumes "os_ok K interest opn env" and "running n K opn env self w" and "ProcessHello K sender msg True w = Inr w'"
  shows "if hm_id msg \<noteq> self \<and> GetAddress (hm_id msg) w = None \<and> GetAddress (hm_id msg) w' \<noteq> None
    then (\<forall>q. found_count q (nd_trace w') = found_count q (nd_trace w) + (if q = hm_id msg then 1 else 0))
      \<and> (\<forall>q. GetAddress q w' = (if q = hm_id msg then Some sender else GetAddress q w))
    else (\<forall>q. found_count q (nd_trace w') = found_count q (nd_trace w)) \<and> (\<forall>q. GetAddress q w' = GetAddress q w)"
proof -
  note I = node_invD [OF running_inv [OF assms(1,2)]]
  from assms(1) have fds: "fd_laws K opn" by (simp add: os_ok_def)
  from assms(3) obtain b v where t: "track_peer K sender msg w = Inr (b, v)"
    and w': "(if b then OnNeighborFound K (hm_id msg) v else Inr v) = Inr w'"
    by (auto simp: ProcessHello_def chain_eq_Inr)
  note T = track_peer_step [OF fds I(3,4) t] trace_track_peer [OF t]
  show ?thesis
  proof (cases b)
    case True
    with w' have "(\<lambda>p. found_count p (nd_trace w'), peerToAddr w')
        = (\<lambda>p. found_count p (nd_trace (notify (NewNeighbour GetTransportId (hm_id msg)) v)), peerToAddr v)"
      using peers_found.frame_SendBroadcastHello [of K v]
      by (auto simp: notify_def [of "NewNeighbour _ _"] OnNeighborFound_def NotifyNewNeighbour_def mgr_OpenSession_def OpenSession_def
          dest!: peers_found.frame_EstablishConnection split: if_split_asm)
    with T True running_self [OF assms(2)] show ?thesis by (auto simp: GetAddress_def fun_eq_iff)
  next
    case False
    with T w' show ?thesis by (auto simp: GetAddress_def)
  qed
qed

text \<open>The first hello of a peer, heard right after the start.\<close>

theorem hello_decides_witness:
  "\<exists>w w'. running 5 sim_kernel (\<lambda>k. set (sim_open k)) sim_env (PeerId 0 0 0 0 0 1) w
     \<and> ProcessHello sim_kernel 0x0201A8C0 (make_hello other_peer Notify) True w = Inr w'
     \<and> found_count other_peer (nd_trace w') = found_count other_peer (nd_trace w) + 1 \<and> GetAddress other_peer w' = Some 0x0201A8C0"
proof -
  let ?P = "\<lambda>w. GetAddress other_peer w = None \<and> (case ProcessHello sim_kernel 0x0201A8C0 (make_hello other_peer Notify) True w of
      Inl _ \<Rightarrow> False | Inr w' \<Rightarrow> GetAddress other_peer w' \<noteq> None)"
  have "run_holds (sim0\<lparr>sim_ifs := [sim_if]\<rparr>) [] ?P" by code_simp
  then show ?thesis
  proof (rule run_holdsD)
    fix w assume w: "running 5 sim_kernel (\<lambda>k. set (sim_open k)) sim_env (PeerId 0 0 0 0 0 1) w" and P: "?P w"
    then obtain w' where p: "ProcessHello sim_kernel 0x0201A8C0 (make_hello other_peer Notify) True w = Inr w'"
      and a: "GetAddress other_peer w' \<noteq> None" by (auto split: sum.split_asm)
    have "hm_id (make_hello other_peer Notify) = other_peer" "other_peer \<noteq> PeerId 0 0 0 0 0 1" by (simp_all add: make_hello_def other_peer_def)
    with hello_decides [OF sim_os_ok w p] P a w p show ?thesis by auto
  qed (simp_all add: sim0_def)
qed

end
