(* ===== verification/Meeting.thy ===== *)
theory Meeting
  imports Handshake Neighbours
begin

text \<open>
  From a broadcast hello to a session: a process that hears a peer for the first time calls it,
  and the exchange opens the session at both ends.
\<close>

section \<open>Hearing\<close>

text \<open>
  What an event on the broadcast socket finds: a datagram with the hello of a peer that is not
  tracked yet and can be tracked. The result is the peer and the state in which the transport
  manager answers its discovery by opening a session.
\<close>

definition hearing :: "'k kernel \<Rightarrow> 'k node \<Rightarrow> (peer_id \<times> 'k node) option" where
  "hearing K w =
     (case sys (read_broadcast K (broadcastFd w)) w of
        (None, _) \<Rightarrow> None
      | (Some (message, addr), v) \<Rightarrow>
          (case Deserialize message of
             None \<Rightarrow> None
           | Some hello \<Rightarrow>
               (case track_peer K addr hello v of
                  Inr (True, u) \<Rightarrow> Some (hm_id hello, notify (NewNeighbour GetTransportId (hm_id hello)) (SendBroadcastHello K u))
                | _ \<Rightarrow> None)))"

text \<open>The broadcast socket has its callback and is none of the loop's own descriptors.\<close>

definition listening :: "'k node \<Rightarrow> bool" where
  "listening w \<longleftrightarrow> plain w (broadcastFd w) \<and> entry (nd_io w) (broadcastFd w, EPOLLIN) = Some BroadcastCb"

text \<open>Receiving a datagram touches neither what was sent on a connection nor what is unread there.\<close>

definition datagrams_apart :: "'k kernel \<Rightarrow> ('k \<Rightarrow> descr \<Rightarrow> byte list) \<Rightarrow> ('k \<Rightarrow> descr \<Rightarrow> byte list) \<Rightarrow> bool" where
  "datagrams_apart K wire stream \<longleftrightarrow>
     (\<forall>fd n k f. wire (snd (k_recvfrom K fd n k)) f = wire k f \<and> stream (snd (k_recvfrom K fd n k)) f = stream k f)"

lemma read_broadcast_kern: "snd (read_broadcast K fd k) = snd (k_recvfrom K fd BUFFER_LEN k)"
  by (simp add: read_broadcast_def case_prod_beta split: option.split)

lemma hearingD:
  assumes "hearing K w = Some (peer, u)"
  obtains message addr hello v t where "sys (read_broadcast K (broadcastFd w)) w = (Some (message, addr), v)"
    and "Deserialize message = Some hello" and "hm_id hello = peer" and "track_peer K addr hello v = Inr (True, t)"
    and "u = notify (NewNeighbour GetTransportId peer) (SendBroadcastHello K t)"
  using assms by (auto simp: hearing_def split: option.split_asm prod.split_asm sum.split_asm if_split_asm bool.split_asm)

text \<open>Hearing, then calling, then finding no further datagram is the handling of the event.\<close>

lemma hearing_event:
  assumes h: "hearing K w = Some (peer, u)" and listening: "listening w" and reg: "GetTransportId \<in> set (nd_transports u)"
    and call: "OpenSession K peer u = Inr x" and rest: "fst (read_broadcast K (broadcastFd x) (io_kern (nd_io x))) = None"
  shows "run_event (Suc (Suc n)) K (broadcastFd w, EPOLLIN) w
    = Inr (False, set_kern (snd (read_broadcast K (broadcastFd x) (io_kern (nd_io x)))) x)"
proof -
  from h obtain message addr hello v t where read: "sys (read_broadcast K (broadcastFd w)) w = (Some (message, addr), v)"
    and des: "Deserialize message = Some hello" and p: "hm_id hello = peer" and track: "track_peer K addr hello v = Inr (True, t)"
    and u: "u = notify (NewNeighbour GetTransportId peer) (SendBroadcastHello K t)" by (rule hearingD)
  from des have msg: "length message = sizeof_HelloMsg" "hello_of_bytes message = Some hello" "IsValid hello"
    by (auto simp: Deserialize_def split: if_split_asm option.split_asm)
  from reg call have "OnNeighborFound K peer t = Inr x" by (simp add: OnNeighborFound_def NotifyNewNeighbour_def mgr_OpenSession_def u)
  with track p have "ProcessHello K addr hello True v = Inr x" by (simp add: ProcessHello_def)
  with read msg rest have "ReceiveBroadcasts (Suc (Suc n)) K w = Inr (set_kern (snd (read_broadcast K (broadcastFd x) (io_kern (nd_io x)))) x)"
    by (auto simp: sys_def case_prod_beta prod_eq_iff)
  moreover have "callbacks_of_event EPOLLIN = [(EPOLLIN, Ok ())]"
    by (auto simp: callbacks_of_event_def EPOLLIN_def EPOLLOUT_def EPOLLHUP_def EPOLLERR_def)
  ultimately show ?thesis using listening
    by (auto simp: listening_def run_event_def plain_def RunCallback_def run_keeper_def entry_def Let_def split: option.split)
qed

lemma hearing_self: "hearing K w = Some (peer, u) \<Longrightarrow> nd_self u = nd_self w"
  by (erule hearingD) (auto simp: sys_def case_prod_beta dest!: own.frame_track_peer)

lemma hearing_transports: "hearing K w = Some (peer, u) \<Longrightarrow> nd_transports u = nd_transports w"
  by (erule hearingD) (auto simp: sys_def case_prod_beta dest!: transports.frame_track_peer)

lemma hearing_trace: "hearing K w = Some (peer, u) \<Longrightarrow> nd_trace u = nd_trace w @ [NewNeighbour GetTransportId peer]"
  by (erule hearingD) (auto simp: sys_def case_prod_beta SendBroadcastHello_def Let_def dest!: trace_track_peer)

context datagram_queue
begin

lemma last_datagram:
  assumes h: "hearing K w = Some (peer, u)" and call: "OpenSession K peer u = Inr x" and one: "pend w = 1"
  shows "fst (read_broadcast K fd (io_kern (nd_io x))) = None"
  using h
proof (rule hearingD)
  fix message addr hello v t
  assume read: "sys (read_broadcast K (broadcastFd w)) w = (Some (message, addr), v)" and track: "track_peer K addr hello v = Inr (True, t)"
    and u: "u = notify (NewNeighbour GetTransportId peer) (SendBroadcastHello K t)"
  have "pend v < pend w" using read by (auto simp: sys_def case_prod_beta prod_eq_iff intro!: pend_read)
  then have "pend x = 0" using pend_track_peer [OF track] pend_EstablishConnection [of peer u x] call one by (simp add: u OpenSession_def)
  then show ?thesis
    using pend_read [of fd "io_kern (nd_io x)"] by (cases "fst (read_broadcast K fd (io_kern (nd_io x)))") (auto simp: prod_eq_iff)
qed

end

context hello_os
begin

lemma ninv_hearing:
  assumes inv: "ninv (Suc b) pend w" and h: "hearing K w = Some (peer, u)"
  shows "ninv b pend u"
  using h
proof (rule hearingD)
  fix message addr hello v t
  assume read: "sys (read_broadcast K (broadcastFd w)) w = (Some (message, addr), v)" and track: "track_peer K addr hello v = Inr (True, t)"
    and u: "u = notify (NewNeighbour GetTransportId peer) (SendBroadcastHello K t)"
  obtain k where "read_broadcast K (broadcastFd w) (io_kern (nd_io w)) = (Some (message, addr), k)" and v: "v = set_kern k w"
    using read by (auto simp: sys_def case_prod_beta prod_eq_iff)
  from read_broadcast_same [OF this(1)] have "ninv (Suc b) pend v"
    unfolding v by (intro ninv_kern(1) [OF inv] kern_ok_same) simp_all
  from ninv_track_peer(1) [OF this track] show "ninv b pend u"
    unfolding u by (intro ninv_notify [OF ninv_SendBroadcastHello]) simp_all
qed

lemma calling_datagram:
  assumes "calling wire stream x fd peer" and "datagrams_apart K wire stream" and k: "k = snd (k_recvfrom K f m (io_kern (nd_io x)))"
  shows "calling wire stream (set_kern k x) fd peer"
  using assms by (auto simp: calling_def datagrams_apart_def plain_def putting_def send_state_def entry_def set_kern_def)

lemma hearing_calls:
  assumes inv: "ninv (Suc (Suc b)) pend w" and h: "hearing K w = Some (peer, u)" and listening: "listening w"
    and conn: "connecting K peer u = Some (fd, k)" and empty: "stream k fd = []" and reg: "GetTransportId \<in> set (nd_transports w)"
    and D: "datagram_laws K pending" and one: "pending (io_kern (nd_io w)) = 1" and apart: "datagrams_apart K wire stream"
  obtains x where "run_event (Suc (Suc n)) K (broadcastFd w, EPOLLIN) w = Inr (False, x)" and "ninv b pend x"
    and "calling wire stream x fd peer" and "nd_self x = nd_self w" and "nd_trace x = nd_trace w @ [NewNeighbour GetTransportId peer]"
proof -
  have "GetTransportId \<in> set (nd_transports u)" using reg hearing_transports [OF h] by simp
  from connecting_starts [OF ninv_hearing [OF inv h] conn empty] obtain x where x: "OpenSession K peer u = Inr x" "ninv b pend x"
    "calling wire stream x fd peer" "nd_trace x = nd_trace u" "nd_self x = nd_self u" .
  have "datagram_queue K pending" using D by unfold_locales
  note none = datagram_queue.last_datagram [OF this h x(1) one]
  let ?k = "snd (read_broadcast K (broadcastFd x) (io_kern (nd_io x)))"
  have "run_event (Suc (Suc n)) K (broadcastFd w, EPOLLIN) w = Inr (False, set_kern ?k x)"
    by (rule hearing_event [OF h listening _ x(1) none]) fact
  moreover have "ninv b pend (set_kern ?k x)"
    using read_broadcast_same [OF prod.collapse [symmetric], of "broadcastFd x" "io_kern (nd_io x)"]
    by (intro ninv_kern(1) [OF x(2)] kern_ok_same) simp_all
  moreover have "calling wire stream (set_kern ?k x) fd peer" by (rule calling_datagram [OF x(3) apart read_broadcast_kern])
  ultimately show thesis using x(4,5) hearing_self [OF h] hearing_trace [OF h] by (intro that [of "set_kern ?k x"]) simp_all
qed

end

section \<open>Meeting\<close>


section \<open>A run\<close>

text \<open>The first process has the other's hello queued; the other one has met the first.\<close>

definition about_to_hear :: "sim node \<Rightarrow> bool" where
  "about_to_hear w \<longleftrightarrow> nd_self w = first_peer \<and> nd_trace w = [] \<and> listening w \<and> length (sim_datagrams (io_kern (nd_io w))) = 1
     \<and> (case hearing sim_kernel w of
          None \<Rightarrow> False
        | Some (p, u) \<Rightarrow> p = other_peer
            \<and> (case connecting sim_kernel p u of None \<Rightarrow> False | Some (fd, k) \<Rightarrow> fd = 11 \<and> sim_input k 11 = []))"

lemma about_to_hear_holds:
  "run_as first_peer (sim0\<lparr>sim_ifs := [sim_if]\<rparr>) [Datagram (Serialize (make_hello other_peer Notify)) 0x0201A8C0] about_to_hear"
  by code_simp

lemma sim_apart: "datagrams_apart sim_kernel sim_wire (\<lambda>k fd. concat (sim_input k fd))"
  by (auto simp: datagrams_apart_def sim_kernel_def sim_recvfrom_def sim_wire_def split: list.split)


end
