(* ===== verification/Logging.thy ===== *)
theory Logging
  imports Prelude
begin

text \<open>
  \<open>util/logging.h\<close>: which levels print, the time stamp of a line, and the removal of the
  privacy markers from a format string. What \<open>vprintf\<close> then writes is not modelled.
\<close>

section \<open>Levels\<close>

datatype log_level = LEVEL_TRACE | LEVEL_DEBUG | LEVEL_INFO | LEVEL_WARN | LEVEL_ERROR | LEVEL_FATAL

fun level_code :: "log_level \<Rightarrow> nat" where
  "level_code LEVEL_TRACE = 1"
| "level_code LEVEL_DEBUG = 2"
| "level_code LEVEL_INFO = 3"
| "level_code LEVEL_WARN = 4"
| "level_code LEVEL_ERROR = 5"
| "level_code LEVEL_FATAL = 6"

definition default_level :: "bool \<Rightarrow> log_level" where
  "default_level debug_build = (if debug_build then LEVEL_DEBUG else LEVEL_INFO)"

text \<open>\<open>LOGF\<close> has no condition.\<close>

definition log_enabled :: "log_level \<Rightarrow> log_level \<Rightarrow> bool" where
  "log_enabled log_level l \<longleftrightarrow> l = LEVEL_FATAL \<or> \<not> level_code log_level > level_code l"

lemma log_enabled_iff: "log_enabled m l \<longleftrightarrow> level_code m \<le> level_code l"
  by (cases m; cases l) (simp_all add: log_enabled_def)

section \<open>The time stamp\<close>

record tm =
  tm_sec :: int
  tm_min :: int
  tm_hour :: int
  tm_mday :: int
  tm_mon :: int
  tm_year :: int

fun decimal :: "nat \<Rightarrow> string" where
  "decimal n = (if n < 10 then [char_of (48 + n)] else decimal (n div 10) @ [char_of (48 + n mod 10)])"

declare decimal.simps [simp del]

text \<open>The conversion \<open>%.nd\<close> of \<open>printf\<close> for a positive \<open>n\<close>.\<close>

definition precision :: "nat \<Rightarrow> int \<Rightarrow> string" where
  "precision n i = (let ds = decimal (nat \<bar>i\<bar>)
     in (if i < 0 then ''-'' else []) @ replicate (n - length ds) (CHR ''0'') @ ds)"

text \<open>\<open>snprintf\<close> with a buffer of \<open>len\<close> bytes, the last of them for the terminator.\<close>

definition snprintf_text :: "nat \<Rightarrow> string \<Rightarrow> string" where
  "snprintf_text len s = take (len - 1) s"

text \<open>\<open>gettimeofday\<close> and \<open>localtime_r\<close> give the calendar date and the microseconds.\<close>

definition get_datetime_str :: "tm \<Rightarrow> int \<Rightarrow> nat \<Rightarrow> bool \<Rightarrow> string" where
  "get_datetime_str t usec len short_variant =
     snprintf_text len
       (if short_variant
        then precision 2 (tm_hour t) @ '':'' @ precision 2 (tm_min t) @ '':'' @ precision 2 (tm_sec t) @ ''.'' @ precision 6 usec
        else precision 4 (tm_year t + 1900) @ ''-'' @ precision 2 (tm_mon t + 1) @ ''-'' @ precision 2 (tm_mday t) @ '' ''
          @ precision 2 (tm_hour t) @ '':'' @ precision 2 (tm_min t) @ '':'' @ precision 2 (tm_sec t) @ ''.'' @ precision 6 usec)"

lemma length_decimal: "n < 10 ^ d \<Longrightarrow> 0 < d \<Longrightarrow> length (decimal n) \<le> d"
proof (induction d arbitrary: n)
  case (Suc d)
  show ?case
  proof (cases "n < 10")
    case False
    then have "0 < d" using Suc.prems(1) by (cases d) simp_all
    moreover have "n div 10 < 10 ^ d" using Suc.prems(1) by (simp add: less_mult_imp_div_less mult.commute)
    ultimately show ?thesis using Suc.IH [of "n div 10"] False by (simp add: decimal.simps [of n])
  qed (simp add: decimal.simps)
qed simp

lemma length_precision: "0 \<le> i \<Longrightarrow> i < 10 ^ n \<Longrightarrow> 0 < n \<Longrightarrow> length (precision n i) = n"
proof -
  assume i: "0 \<le> i" "i < 10 ^ n" "0 < n"
  then have "nat \<bar>i\<bar> < 10 ^ n" by (simp add: nat_less_iff)
  from length_decimal [OF this i(3)] i(1) show ?thesis by (simp add: precision_def Let_def)
qed

definition valid_time :: "tm \<Rightarrow> int \<Rightarrow> bool" where
  "valid_time t usec \<longleftrightarrow> 0 \<le> tm_sec t \<and> tm_sec t \<le> 60 \<and> 0 \<le> tm_min t \<and> tm_min t \<le> 59 \<and> 0 \<le> tm_hour t \<and> tm_hour t \<le> 23
     \<and> 1 \<le> tm_mday t \<and> tm_mday t \<le> 31 \<and> 0 \<le> tm_mon t \<and> tm_mon t \<le> 11 \<and> -1900 \<le> tm_year t \<and> tm_year t < 8100
     \<and> 0 \<le> usec \<and> usec < 1000000"

text \<open>The buffer of 100 bytes the macro \<open>LOG\<close> passes is never too small.\<close>

lemma time_stamp_fits:
  assumes "valid_time t usec"
  shows "length (get_datetime_str t usec 100 short_variant) = (if short_variant then 15 else 26)"
proof -
  note v = assms [unfolded valid_time_def]
  have "length (precision 2 (tm_hour t)) = 2" "length (precision 2 (tm_min t)) = 2" "length (precision 2 (tm_sec t)) = 2"
    "length (precision 2 (tm_mon t + 1)) = 2" "length (precision 2 (tm_mday t)) = 2"
    "length (precision 4 (tm_year t + 1900)) = 4" "length (precision 6 usec) = 6"
    using v by (auto intro!: length_precision)
  then show ?thesis by (simp add: get_datetime_str_def snprintf_text_def)
qed

section \<open>Removing the markers\<close>

text \<open>\<open>std::string::find\<close> from a position, and \<open>erase\<close> of a piece.\<close>

definition str_find :: "string \<Rightarrow> string \<Rightarrow> nat \<Rightarrow> nat option" where
  "str_find p s pos = find (\<lambda>i. take (length p) (drop i s) = p) [pos..<Suc (length s)]"

definition str_erase :: "nat \<Rightarrow> nat \<Rightarrow> string \<Rightarrow> string" where
  "str_erase pos n s = take pos s @ drop (pos + n) s"

text \<open>The loop; \<open>None\<close> as its result means that it does not end.\<close>

partial_function (option) strip_loop :: "string \<Rightarrow> string \<Rightarrow> nat option \<Rightarrow> string option" where
  "strip_loop p s pos =
     (case pos of
        None \<Rightarrow> Some s
      | Some i \<Rightarrow> let s = str_erase i (length p) s in strip_loop p s (str_find p s i))"

definition StripFormatString :: "string \<Rightarrow> string \<Rightarrow> string option" where
  "StripFormatString p s = strip_loop p s (str_find p s 0)"

definition print_fmt :: "string \<Rightarrow> string option" where
  "print_fmt fmt =
     (case StripFormatString ''{public}'' fmt of None \<Rightarrow> None | Some s \<Rightarrow> StripFormatString ''{private}'' s)"

text \<open>The format the macro \<open>LOG\<close> passes for the format of a message.\<close>

definition LOG_format :: "string \<Rightarrow> string" where
  "LOG_format fmt = ''[%s]%s:%s:%s:'' @ fmt"

text \<open>One pass from left to right that drops every occurrence it meets.\<close>

function strip_pass :: "string \<Rightarrow> string \<Rightarrow> string" where
  "strip_pass p s =
     (if p \<noteq> [] \<and> take (length p) s = p then strip_pass p (drop (length p) s)
      else case s of [] \<Rightarrow> [] | c # cs \<Rightarrow> c # strip_pass p cs)"
  by pat_completeness auto
termination
proof (relation "measure (\<lambda>(p, s). length s)")
  fix p s :: string assume "p \<noteq> [] \<and> take (length p) s = p"
  then have "p \<noteq> []" "s \<noteq> []" by auto
  then show "((p, drop (length p) s), (p, s)) \<in> measure (\<lambda>(p, s). length s)" by simp
qed simp_all

declare strip_pass.simps [simp del]

lemma strip_pass_hit: "p \<noteq> [] \<Longrightarrow> take (length p) s = p \<Longrightarrow> strip_pass p s = strip_pass p (drop (length p) s)"
  by (simp add: strip_pass.simps [of p s])

lemma strip_pass_skip: "take (length p) (c # cs) \<noteq> p \<Longrightarrow> strip_pass p (c # cs) = c # strip_pass p cs"
  by (simp add: strip_pass.simps [of p "c # cs"])

lemma strip_pass_Nil: "strip_pass p [] = []"
  by (subst strip_pass.simps) auto

text \<open>\<open>find\<close> from a position: there, or from the next position on.\<close>

lemma str_find_at:
  assumes "i \<le> length s"
  shows "str_find p s i = (if take (length p) (drop i s) = p then Some i else str_find p s (Suc i))"
proof -
  from assms have "[i..<Suc (length s)] = i # [Suc i..<Suc (length s)]" by (intro upt_conv_Cons) simp
  then show ?thesis by (simp add: str_find_def del: upt_Suc)
qed

lemma str_find_end: "length s < i \<Longrightarrow> str_find p s i = None"
  by (simp add: str_find_def)

text \<open>The loop at position \<open>i\<close> keeps what is before \<open>i\<close> and makes one pass over the rest.\<close>

lemma strip_loop_at:
  assumes "p \<noteq> []"
  shows "i \<le> length s \<Longrightarrow> strip_loop p s (str_find p s i) = Some (take i s @ strip_pass p (drop i s))"
proof (induction "length s - i" arbitrary: i s rule: less_induct)
  case less
  note hit = strip_pass_hit [OF assms]
  show ?case
  proof (cases "take (length p) (drop i s) = p")
    case True
    from arg_cong [OF this, of length] less.prems have len: "i + length p \<le> length s" by (simp add: min_def split: if_splits)
    let ?s = "str_erase i (length p) s"
    have cut: "take i ?s = take i s" "drop i ?s = drop (length p) (drop i s)" "length ?s = length s - length p" "i \<le> length ?s"
      using less.prems len by (simp_all add: str_erase_def add.commute)
    have "length ?s - i < length s - i" using cut(3) len assms by (cases p) simp_all
    from less.hyps [OF this cut(4)] cut(1,2)
    have "strip_loop p ?s (str_find p ?s i) = Some (take i s @ strip_pass p (drop i s))" by (simp add: hit [OF True])
    then show ?thesis using True less.prems by (simp add: str_find_at strip_loop.simps [of p s "Some i"] Let_def)
  next
    case False
    show ?thesis
    proof (cases "i < length s")
      case True
      then have t: "drop i s = s ! i # drop (Suc i) s" by (simp add: Cons_nth_drop_Suc)
      have "strip_loop p s (str_find p s (Suc i)) = Some (take (Suc i) s @ strip_pass p (drop (Suc i) s))"
        by (rule less.hyps) (use True in simp_all)
      moreover have "strip_pass p (drop i s) = s ! i # strip_pass p (drop (Suc i) s)"
        using False unfolding t by (rule strip_pass_skip)
      ultimately show ?thesis using False True by (simp add: str_find_at take_Suc_conv_app_nth)
    next
      case False: False
      with less.prems \<open>take (length p) (drop i s) \<noteq> p\<close> show ?thesis
        by (simp add: str_find_at str_find_end strip_loop.simps [of p s None] strip_pass_Nil)
    qed
  qed
qed

text \<open>
  C40: for a marker that is not empty the loop of \<open>StripFormatString\<close> ends, and its result is
  the one of a single pass from left to right that drops every occurrence it meets. (What
  the erasing joins into a new occurrence may stay, if it begins before the place.)
\<close>

theorem strip_is_one_pass: "p \<noteq> [] \<Longrightarrow> StripFormatString p s = Some (strip_pass p s)"
  using strip_loop_at [of p 0 s] by (simp add: StripFormatString_def)

theorem strip_is_one_pass_witness:
  "StripFormatString ''ab'' ''xaabbyab'' = Some ''xaby''"
  by (subst strip_is_one_pass) (simp_all add: strip_pass.simps)

text \<open>An empty marker is found and erased for ever: the loop does not end.\<close>

lemma strip_loop_empty:
  assumes "strip_loop p s pos = Some r"
  shows "p = [] \<longrightarrow> (\<forall>i. pos = Some i \<longrightarrow> length s < i)"
  using assms
proof (rule strip_loop.raw_induct [rotated])
  fix f p s pos r
  assume IH: "\<And>p s pos r. f p s pos = Some r \<Longrightarrow> p = [] \<longrightarrow> (\<forall>i. pos = Some i \<longrightarrow> length s < i)"
    and eq: "(case pos of None \<Rightarrow> Some s | Some i \<Rightarrow> let s = str_erase i (length p) s in f p s (str_find p s i)) = Some r"
  show "p = [] \<longrightarrow> (\<forall>i. pos = Some i \<longrightarrow> length s < i)"
  proof (intro impI allI)
    fix i assume i: "p = []" "pos = Some i"
    with eq have "f p s (str_find p s i) = Some r" by (simp add: str_erase_def)
    from IH [OF this] i(1) show "length s < i" by (cases "i \<le> length s") (simp_all add: str_find_at)
  qed
qed

lemma strip_empty_diverges: "StripFormatString [] s = None"
proof (cases "StripFormatString [] s")
  case (Some r)
  then have "strip_loop [] s (str_find [] s 0) = Some r" by (simp add: StripFormatString_def)
  from strip_loop_empty [OF this, THEN mp, OF refl, THEN spec, of 0] str_find_at [of 0 s "[]"] have "length s < 0" by simp
  then show ?thesis by simp
qed simp

text \<open>A format without the opening brace of the markers is printed as it is.\<close>

lemma strip_pass_absent: "hd p \<notin> set s \<Longrightarrow> p \<noteq> [] \<Longrightarrow> strip_pass p s = s"
proof (induction s)
  case (Cons c cs)
  then have "take (length p) (c # cs) \<noteq> p" by (cases p) auto
  with Cons show ?case by (simp add: strip_pass_skip)
qed (simp add: strip_pass_Nil)

lemma print_fmt_plain: "CHR 0x7B \<notin> set fmt \<Longrightarrow> print_fmt fmt = Some fmt"
  using strip_loop_at [of "''{public}''" 0 fmt] strip_loop_at [of "''{private}''" 0 fmt]
  by (simp add: print_fmt_def StripFormatString_def strip_pass_absent)

lemma LOG_format_plain: "CHR 0x7B \<notin> set fmt \<Longrightarrow> print_fmt (LOG_format fmt) = Some (LOG_format fmt)"
  by (intro print_fmt_plain) (simp add: LOG_format_def)

end
