(* ===== verification/Reports.thy ===== *)
theory Reports
  imports Logging Transport
begin

text \<open>
  What a process writes to its log: \<open>PrintLog\<close> and the macro \<open>LOG\<close> of \<open>util/logging.h\<close> with the
  conversions of \<open>vprintf\<close> their callers use, the lines of the upcalls of
  \<open>src/ip_transport.cpp\<close> and of the notifications of \<open>main.cpp\<close>, and \<open>PrintConnStats\<close>.
\<close>

section \<open>Printing a line\<close>

datatype printf_arg = StrArg string | IntArg int | SizeArg nat

definition int_text :: "int \<Rightarrow> string" where
  "int_text i = precision 1 i"

text \<open>
  \<open>vprintf\<close> with \<open>%s\<close>, \<open>%d\<close> and \<open>%zu\<close>. \<open>None\<close> is another conversion, or one without an argument of
  its type, which is undefined; arguments that are left over are ignored.
\<close>

fun vprintf_text :: "string \<Rightarrow> printf_arg list \<Rightarrow> string option" where
  "vprintf_text [] args = Some []"
| "vprintf_text (c # cs) args =
     (if c \<noteq> CHR 0x25 then map_option ((#) c) (vprintf_text cs args)
      else case args of
             [] \<Rightarrow> None
           | StrArg s # rest \<Rightarrow> if take 1 cs = ''s'' then map_option ((@) s) (vprintf_text (drop 1 cs) rest) else None
           | IntArg i # rest \<Rightarrow> if take 1 cs = ''d'' then map_option ((@) (int_text i)) (vprintf_text (drop 1 cs) rest) else None
           | SizeArg n # rest \<Rightarrow> if take 2 cs = ''zu'' then map_option ((@) (decimal n)) (vprintf_text (drop 2 cs) rest) else None)"

definition newline :: char where
  "newline = CHR 0x0A"

definition PrintLog :: "string \<Rightarrow> printf_arg list \<Rightarrow> string option" where
  "PrintLog fmt args =
     (case print_fmt fmt of
        None \<Rightarrow> None
      | Some new_fmt \<Rightarrow> map_option (\<lambda>s. s @ [newline]) (vprintf_text new_fmt args))"

text \<open>\<open>LOG(l, fmt, ...)\<close> in the function \<open>func\<close> of a file with the tag \<open>tag\<close>, at the time \<open>(t, usec)\<close>.\<close>

definition LOG :: "tm \<times> int \<Rightarrow> string \<Rightarrow> string \<Rightarrow> string \<Rightarrow> string \<Rightarrow> printf_arg list \<Rightarrow> string option" where
  "LOG now tag l func fmt args =
     PrintLog (LOG_format fmt) ([StrArg (get_datetime_str (fst now) (snd now) 100 True), StrArg tag, StrArg l, StrArg func] @ args)"

lemma LOG_text:
  assumes "CHR 0x7B \<notin> set fmt" and "vprintf_text fmt args = Some s"
  shows "LOG now tag l func fmt args
    = Some (''['' @ get_datetime_str (fst now) (snd now) 100 True @ '']'' @ tag @ '':'' @ l @ '':'' @ func @ '':'' @ s @ [newline])"
proof -
  have "print_fmt (LOG_format fmt) = Some (LOG_format fmt)" by (rule LOG_format_plain [OF assms(1)])
  moreover have "LOG_format fmt = ''[%s]%s:%s:%s:'' @ fmt" by (simp add: LOG_format_def)
  ultimately show ?thesis using assms(2) by (simp add: LOG_def PrintLog_def)
qed

section \<open>The lines of the reports\<close>

text \<open>
  The \<open>LOGI\<close> of an upcall of \<open>IpTransport\<close>: function, format and arguments. The upcall of a
  notification is the function that passes it to the transport manager.
\<close>

fun upcall_log :: "notification \<Rightarrow> fault + string \<times> string \<times> printf_arg list" where
  "upcall_log (NewNeighbour _ p) = chain (PeerIdToString p) (\<lambda>s. Inr (''OnNeighborFound'', ''Found new neighbor: %s'', [StrArg s]))"
| "upcall_log (LostNeighbour _ p) = chain (PeerIdToString p) (\<lambda>s. Inr (''OnNeighborLost'', ''Lost neighbor: %s'', [StrArg s]))"
| "upcall_log (SessionOpened _ p d) = chain (PeerIdToString p) (\<lambda>s.
     Inr (''OnLinkEstablishing'', ''%s session opened with peer %s'', [StrArg (link_direction_ToString d), StrArg s]))"
| "upcall_log (SessionError _ p (OpenSessionError e)) = chain (PeerIdToString p) (\<lambda>s.
     Inr (''OnLinkEstablishingError'', ''Failed to open %s session with peer %s'', [StrArg (link_direction_ToString (err_dir e)), StrArg s]))"
| "upcall_log (SessionLost _ p d) = chain (PeerIdToString p) (\<lambda>s.
     Inr (''OnLinkClosed'', ''%s session closed with peer %s'', [StrArg (link_direction_ToString d), StrArg s]))"
| "upcall_log (MessageReceived _ p m) = chain (PeerIdToString p) (\<lambda>s. Inr (''OnMessageReceived'', ''Message received from peer %s'', [StrArg s]))"

text \<open>The \<open>LOGI\<close> of the transport manager of \<open>main.cpp\<close>, which does not override the other two notifications.\<close>

fun manager_log :: "notification \<Rightarrow> (fault + string \<times> string \<times> printf_arg list) option" where
  "manager_log (NewNeighbour tid p) = Some (chain (PeerIdToString p) (\<lambda>s.
     Inr (''NotifyNewNeighbour'', ''Found neighbour pid: %s on tid: %d'', [StrArg s, IntArg (uint tid)])))"
| "manager_log (LostNeighbour tid p) = Some (chain (PeerIdToString p) (\<lambda>s.
     Inr (''NotifyLostNeighbour'', ''Lost neighbour pid: %s on tid: %d'', [StrArg s, IntArg (uint tid)])))"
| "manager_log (SessionOpened tid p d) = Some (chain (PeerIdToString p) (\<lambda>s.
     Inr (''NotifySessionOpened'', ''Got %s connection to neighbour pid: %s on tid: %d'', [StrArg (link_direction_ToString d), StrArg s, IntArg (uint tid)])))"
| "manager_log (SessionLost tid p d) = Some (chain (PeerIdToString p) (\<lambda>s.
     Inr (''NotifySessionLost'', ''Lost %s connection to neighbour pid: %s on tid: %d'', [StrArg (link_direction_ToString d), StrArg s, IntArg (uint tid)])))"
| "manager_log (SessionError _ _ _) = None"
| "manager_log (MessageReceived _ _ _) = None"

definition log_call :: "tm \<times> int \<Rightarrow> string \<Rightarrow> fault + string \<times> string \<times> printf_arg list \<Rightarrow> string option" where
  "log_call now tag call = (case call of Inl _ \<Rightarrow> None | Inr (func, fmt, args) \<Rightarrow> LOG now tag ''INFO'' func fmt args)"

definition start_log :: "peer_id \<Rightarrow> fault + string \<times> string \<times> printf_arg list" where
  "start_log self = chain (PeerIdToString self) (\<lambda>s. Inr (''Start'', ''IP transport started with pid: %s'', [StrArg s]))"

definition open_log :: "peer_id \<Rightarrow> fault + string \<times> string \<times> printf_arg list" where
  "open_log p = chain (PeerIdToString p) (\<lambda>s. Inr (''OpenSession'', ''Opening session to peer %s'', [StrArg s]))"

text \<open>
  What a started process logs of its notifications, line by line, where \<open>clock i\<close> is the time of
  line \<open>i\<close>: the upcall's line, then the manager's; a new neighbour is then called.
\<close>

definition report_calls :: "notification \<Rightarrow> (string \<times> (fault + string \<times> string \<times> printf_arg list)) list" where
  "report_calls n = (''IpTransport'', upcall_log n) # (case manager_log n of None \<Rightarrow> [] | Some c \<Rightarrow> [(''main'', c)])
     @ (case n of NewNeighbour _ p \<Rightarrow> [(''IpTransport'', open_log p)] | _ \<Rightarrow> [])"

definition process_log :: "(nat \<Rightarrow> tm \<times> int) \<Rightarrow> peer_id \<Rightarrow> notification list \<Rightarrow> string option list" where
  "process_log clock self ns =
     map (\<lambda>(i, tag, c). log_call (clock i) tag c) (enumerate 0 ((''IpTransport'', start_log self) # concat (map report_calls ns)))"

lemma info_enabled: "log_enabled (default_level debug_build) LEVEL_INFO"
  by (simp add: log_enabled_def default_level_def)

section \<open>The connections\<close>

text \<open>The messages \<open>PrintConnStats\<close> logs, in order; a \<open>std::map\<close> is walked by its keys.\<close>

definition conn_log :: "conn \<Rightarrow> fault + string \<times> printf_arg list" where
  "conn_log c = chain (PeerIdToString (fst c)) (\<lambda>s. Inr (''%s %s'', [StrArg (link_direction_ToString (snd c)), StrArg s]))"

definition PrintConnStats :: "'k node \<Rightarrow> (fault + string \<times> printf_arg list) list" where
  "PrintConnStats w =
     (let fds = sorted_list_of_set (dom (activeConns w))
      in Inr (''---------------'', []) # Inr (''Active conns: %zu'', [SizeArg (length fds)])
         # map (\<lambda>fd. conn_log (the (activeConns w fd))) fds @ [Inr (''---------------'', [])])"

text \<open>One line for each active connection, between a count and the rules.\<close>

lemma PrintConnStats_lines:
  assumes "finite (dom (activeConns w))"
  shows "length (PrintConnStats w) = card (dom (activeConns w)) + 3"
    and "PrintConnStats w ! 1 = Inr (''Active conns: %zu'', [SizeArg (card (dom (activeConns w)))])"
    and "activeConns w fd = Some c \<Longrightarrow> conn_log c \<in> set (PrintConnStats w)"
  using assms by (auto simp: PrintConnStats_def Let_def image_iff intro: domI rev_bexI)

text \<open>The characters of numbers and time stamps.\<close>

lemma decimal_char: "c \<in> set (decimal n) \<Longrightarrow> 48 \<le> (of_char c :: nat) \<and> (of_char c :: nat) \<le> 57"
proof (induction n rule: decimal.induct)
  case (1 n)
  show ?case
  proof (cases "n < 10")
    case True
    with 1(2) show ?thesis by (simp add: decimal.simps)
  next
    case False
    with 1(2) have "c \<in> set (decimal (n div 10)) \<or> c = char_of (48 + n mod 10)" by (subst (asm) decimal.simps) auto
    with 1(1) [OF False] show ?thesis by auto
  qed
qed

text \<open>A time stamp has digits, colons, a dot, and signs.\<close>

lemma precision_char: "c \<in> set (precision n i) \<Longrightarrow> (of_char c :: nat) = 45 \<or> 48 \<le> (of_char c :: nat) \<and> (of_char c :: nat) \<le> 57"
  by (auto simp: precision_def Let_def dest: decimal_char)

lemma time_stamp_char:
  "c \<in> set (get_datetime_str t usec len True) \<Longrightarrow> (of_char c :: nat) \<in> {45, 46} \<union> {48..58}"
  by (auto simp: get_datetime_str_def snprintf_text_def dest!: in_set_takeD precision_char)

lemma time_stamp_absent: "(of_char c :: nat) \<notin> {45, 46} \<union> {48..58} \<Longrightarrow> c \<notin> set (get_datetime_str t usec len True)"
  by (blast dest: time_stamp_char)

end
