(* ===== verification/Emulator.thy ===== *)
theory Emulator
  imports Reports Neighbours
begin

text \<open>
  \<open>src/emulator/combine_logs.py\<close>, which reads the logs of the processes of an experiment: the
  patterns it finds events with and the events of one log. The texts are ASCII. The merge of
  several logs by time and the cut at the duration of the experiment are not modelled.
\<close>

section \<open>Patterns\<close>

text \<open>Python's \<open>in\<close>, \<open>strip\<close> and \<open>upper\<close>.\<close>

fun after :: "string \<Rightarrow> string \<Rightarrow> string option" where
  "after [] s = Some s"
| "after (p # ps) [] = None"
| "after (p # ps) (c # cs) = (if p = c then after ps cs else None)"

fun contains :: "string \<Rightarrow> string \<Rightarrow> bool" where
  "contains p [] = (p = [])"
| "contains p (c # cs) = (after p (c # cs) \<noteq> None \<or> contains p cs)"

definition py_space :: "char \<Rightarrow> bool" where
  "py_space c \<longleftrightarrow> (let n = of_char c :: nat in 9 \<le> n \<and> n \<le> 13 \<or> 28 \<le> n \<and> n \<le> 32)"

definition py_strip :: "string \<Rightarrow> string" where
  "py_strip s = rev (dropWhile py_space (rev (dropWhile py_space s)))"

definition py_upper :: "string \<Rightarrow> string" where
  "py_upper = map (\<lambda>c. if 97 \<le> (of_char c :: nat) \<and> (of_char c :: nat) \<le> 122 then char_of ((of_char c :: nat) - 32) else c)"

text \<open>\<open>(.*?)\<close> before the rest of a pattern, and \<open>([\dA-Fa-f:]{17})\<close>.\<close>

fun lazy_match :: "(string \<Rightarrow> 'a option) \<Rightarrow> string \<Rightarrow> (string \<times> 'a) option" where
  "lazy_match k s =
     (case k s of
        Some r \<Rightarrow> Some ([], r)
      | None \<Rightarrow> (case s of
                   [] \<Rightarrow> None
                 | c # cs \<Rightarrow> if c = newline then None else map_option (\<lambda>(t, r). (c # t, r)) (lazy_match k cs)))"

declare lazy_match.simps [simp del]

definition mac_char :: "char \<Rightarrow> bool" where
  "mac_char c \<longleftrightarrow> (let n = of_char c :: nat in 48 \<le> n \<and> n \<le> 58 \<or> 65 \<le> n \<and> n \<le> 70 \<or> 97 \<le> n \<and> n \<le> 102)"

definition mac_group :: "string \<Rightarrow> string option" where
  "mac_group s = (if 17 \<le> length s \<and> list_all mac_char (take 17 s) then Some (take 17 s) else None)"

text \<open>The five patterns: an identifier after a text, or a direction, a text and an identifier.\<close>

definition pid_pattern :: "string \<Rightarrow> string \<Rightarrow> (string \<times> string) option" where
  "pid_pattern lit line =
     (case after ''['' line of
        None \<Rightarrow> None
      | Some s \<Rightarrow> lazy_match (\<lambda>s. case after ('']IpTransport:INFO:'' @ lit) s of None \<Rightarrow> None | Some s \<Rightarrow> mac_group s) s)"

definition link_pattern :: "string \<Rightarrow> string \<Rightarrow> string \<Rightarrow> (string \<times> string \<times> string) option" where
  "link_pattern func lit line =
     (let group = (\<lambda>dir s. case after (dir @ lit) s of None \<Rightarrow> None | Some s \<Rightarrow> map_option (Pair dir) (mac_group s))
      in case after ''['' line of
           None \<Rightarrow> None
         | Some s \<Rightarrow> lazy_match (\<lambda>s. case after ('']IpTransport:INFO:'' @ func) s of
               None \<Rightarrow> None
             | Some s \<Rightarrow> (case group ''INCOMING'' s of None \<Rightarrow> group ''OUTGOING'' s | Some r \<Rightarrow> Some r)) s)"

definition start_pattern :: "string \<Rightarrow> (string \<times> string) option" where
  "start_pattern = pid_pattern ''Start:IP transport started with pid: ''"

definition neighbor_found_pattern :: "string \<Rightarrow> (string \<times> string) option" where
  "neighbor_found_pattern = pid_pattern ''OnNeighborFound:Found new neighbor: ''"

definition neighbor_lost_pattern :: "string \<Rightarrow> (string \<times> string) option" where
  "neighbor_lost_pattern = pid_pattern ''OnNeighborLost:Lost neighbor: ''"

definition link_establish_pattern :: "string \<Rightarrow> (string \<times> string \<times> string) option" where
  "link_establish_pattern = link_pattern ''OnLinkEstablishing:'' '' session opened with peer ''"

definition link_closed_pattern :: "string \<Rightarrow> (string \<times> string \<times> string) option" where
  "link_closed_pattern = link_pattern ''OnLinkClosed:'' '' session closed with peer ''"

section \<open>The events of a log\<close>

record event =
  mac1 :: string
  what :: string
  mac2 :: string

text \<open>A stripped line of the log of \<open>mac\<close>: the text of its time and its event.\<close>

definition line_event :: "string \<Rightarrow> string \<Rightarrow> (string \<times> event) option" where
  "line_event mac line =
     (if contains ''OnNeighborFound'' line then
        map_option (\<lambda>(t, m). (t, \<lparr>mac1 = mac, what = ''saw'', mac2 = py_upper m\<rparr>)) (neighbor_found_pattern line)
      else if contains ''OnNeighborLost'' line then
        map_option (\<lambda>(t, m). (t, \<lparr>mac1 = mac, what = ''lost'', mac2 = py_upper m\<rparr>)) (neighbor_lost_pattern line)
      else if contains ''OnLinkEstablishing'' line then
        map_option (\<lambda>(t, d, m). (t, \<lparr>mac1 = mac, what = ''open '' @ d, mac2 = py_upper m\<rparr>)) (link_establish_pattern line)
      else if contains ''OnLinkClosed'' line then
        map_option (\<lambda>(t, d, m). (t, \<lparr>mac1 = mac, what = ''close '' @ d, mac2 = py_upper m\<rparr>)) (link_closed_pattern line)
      else None)"

text \<open>The second pass over a log; nothing counts before the line of the start.\<close>

fun log_events :: "string option \<Rightarrow> string list \<Rightarrow> (string \<times> event) list" where
  "log_events mac [] = []"
| "log_events None (line # lines) =
     log_events (map_option (\<lambda>(_, m). py_upper m) (start_pattern (py_strip line))) lines"
| "log_events (Some mac) (line # lines) =
     (case line_event mac (py_strip line) of
        None \<Rightarrow> log_events (Some mac) lines
      | Some e \<Rightarrow> e # log_events (Some mac) lines)"

section \<open>Reading a log back\<close>

lemma after_append [simp]: "after p (p @ s) = Some s"
  by (induction p) simp_all

lemma after_hd: "after p s = Some r \<Longrightarrow> p \<noteq> [] \<Longrightarrow> s \<noteq> [] \<and> hd s = hd p"
  by (cases p; cases s) (auto split: if_split_asm)

lemma contains_skip: "p \<noteq> [] \<Longrightarrow> hd p \<notin> set a \<Longrightarrow> contains p (a @ s) = contains p s"
proof (induction a)
  case (Cons c a)
  then have "after p (c # a @ s) = None" by (cases "after p (c # a @ s)") (auto dest: after_hd)
  with Cons show ?case by simp
qed simp

lemma contains_absent: "p \<noteq> [] \<Longrightarrow> hd p \<notin> set a \<Longrightarrow> \<not> contains p a"
  using contains_skip [of p a "[]"] by simp

text \<open>A pattern whose rest begins with \<open>b\<close> is found at the first \<open>b\<close>, or not at all.\<close>

lemma lazy_match_hit: "k s = Some r \<Longrightarrow> lazy_match k s = Some ([], r)"
  by (subst lazy_match.simps) simp

lemma lazy_match_skip:
  assumes "\<And>s r. k s = Some r \<Longrightarrow> s \<noteq> [] \<and> hd s = b" and "b \<notin> set t" and "newline \<notin> set t"
  shows "lazy_match k (t @ s) = map_option (\<lambda>(u, r). (t @ u, r)) (lazy_match k s)"
  using assms(2,3)
proof (induction t)
  case Nil
  show ?case by (simp add: option.map_ident case_prod_beta)
next
  case (Cons c t)
  then have "k (c # t @ s) = None" by (cases "k (c # t @ s)") (auto dest: assms(1))
  then have "lazy_match k (c # t @ s) = map_option (\<lambda>(u, r). (c # u, r)) (lazy_match k (t @ s))"
    using Cons.prems by (subst lazy_match.simps) auto
  with Cons show ?case by (simp add: option.map_comp comp_def case_prod_beta)
qed

lemma lazy_match_none:
  assumes "\<And>s r. k s = Some r \<Longrightarrow> s \<noteq> [] \<and> hd s = b" and "b \<notin> set s"
  shows "lazy_match k s = None"
  using assms(2)
proof (induction s)
  case Nil
  have "k [] = None" by (cases "k []") (auto dest: assms(1))
  then show ?case by (subst lazy_match.simps) simp
next
  case (Cons c s)
  then have "k (c # s) = None" by (cases "k (c # s)") (auto dest: assms(1))
  with Cons show ?case by (subst lazy_match.simps) simp
qed

lemma py_strip_line:
  assumes "\<not> py_space c" and "s \<noteq> []" and "\<not> py_space (last s)"
  shows "py_strip (c # s @ [newline]) = c # s"
proof -
  have "py_space newline" by (simp add: py_space_def newline_def)
  with assms show ?thesis by (cases s rule: rev_exhaust) (simp_all add: py_strip_def)
qed

text \<open>The text of an identifier.\<close>

lemma hex_digit_char: "unat b < 16 \<Longrightarrow> mac_char (hex_digit b)"
proof -
  assume "unat b < 16"
  then have "hex_digit b \<in> set hex_chars" unfolding hex_digit_def by (intro nth_mem) (simp add: hex_chars_def)
  moreover have "list_all mac_char hex_chars" by (simp add: hex_chars_def mac_char_def)
  ultimately show ?thesis by (simp add: list_all_iff)
qed

lemma mac_text_char: "c \<in> set (mac_text p) \<Longrightarrow> mac_char c"
proof -
  assume c: "c \<in> set (mac_text p)"
  have hex: "\<forall>c\<in>set (hex_setw2 b). mac_char c" for b by (simp add: hex_setw2_eq hex_digit_char high_nibble_lt low_nibble_lt)
  have "mac_char (CHR '':'')" by (simp add: mac_char_def)
  with c hex show ?thesis by (cases p) (auto simp: mac_text_def)
qed

lemma mac_text_absent: "\<not> mac_char c \<Longrightarrow> c \<notin> set (mac_text p)"
  by (blast dest: mac_text_char)

lemma mac_group_text: "mac_group (mac_text p) = Some (mac_text p)"
  by (simp add: mac_group_def length_mac_text list_all_iff mac_text_char)

text \<open>The line of a report, and what a pattern finds in it.\<close>

definition stamp :: "tm \<times> int \<Rightarrow> string" where
  "stamp now = get_datetime_str (fst now) (snd now) 100 True"

definition info_line :: "tm \<times> int \<Rightarrow> string \<Rightarrow> string" where
  "info_line now s = ''['' @ stamp now @ '']'' @ s"

lemma stamp_absent: "(of_char c :: nat) \<notin> {45, 46} \<union> {48..58} \<Longrightarrow> c \<notin> set (stamp now)"
  unfolding stamp_def by (rule time_stamp_absent)

lemma contains_info: "p \<noteq> [] \<Longrightarrow> (of_char (hd p) :: nat) \<notin> {45, 46, 91} \<union> {48..58} \<Longrightarrow> contains p (info_line now s) = contains p ('']'' @ s)"
proof -
  assume p: "p \<noteq> []" "(of_char (hd p) :: nat) \<notin> {45, 46, 91} \<union> {48..58}"
  then have "hd p \<notin> set (''['' @ stamp now)" using stamp_absent [of "hd p" now] by auto
  from contains_skip [OF p(1) this, of "'']'' @ s"] show ?thesis by (simp add: info_line_def)
qed

lemma lazy_match_info:
  assumes k: "\<And>s r. k s = Some r \<Longrightarrow> s \<noteq> [] \<and> hd s = CHR '']''" and "CHR '']'' \<notin> set s"
  shows "lazy_match k (stamp now @ '']'' @ s) = map_option (Pair (stamp now)) (k ('']'' @ s))"
proof -
  have "CHR '']'' \<notin> set (stamp now)" "newline \<notin> set (stamp now)" by (rule stamp_absent; simp add: newline_def)+
  note skip = lazy_match_skip [where k = k and s = "'']'' @ s", OF k this]
  have "lazy_match k s = None" by (rule lazy_match_none [where k = k, OF k assms(2)])
  then have "lazy_match k ('']'' @ s) = map_option (Pair []) (k ('']'' @ s))"
    by (cases "k ('']'' @ s)") (simp_all add: lazy_match.simps [of k "_ # _"] newline_def)
  with skip show ?thesis by (cases "k ('']'' @ s)") simp_all
qed

lemma pid_pattern_info:
  assumes "CHR '']'' \<notin> set s"
  shows "pid_pattern lit (info_line now s) =
    (case after (''IpTransport:INFO:'' @ lit) s of None \<Rightarrow> None | Some s \<Rightarrow> map_option (Pair (stamp now)) (mac_group s))"
proof -
  define k where "k = (\<lambda>s. case after ('']IpTransport:INFO:'' @ lit) s of None \<Rightarrow> None | Some s \<Rightarrow> mac_group s)"
  have "pid_pattern lit (info_line now s) = lazy_match k (stamp now @ '']'' @ s)" by (simp add: pid_pattern_def info_line_def k_def)
  also have "\<dots> = map_option (Pair (stamp now)) (k ('']'' @ s))"
    by (rule lazy_match_info [OF _ assms]) (auto simp: k_def split: option.split_asm dest: after_hd)
  finally show ?thesis by (simp add: k_def split: option.split)
qed

lemma link_pattern_info:
  assumes "CHR '']'' \<notin> set s"
  shows "link_pattern func lit (info_line now s) =
    (let group = (\<lambda>dir s. case after (dir @ lit) s of None \<Rightarrow> None | Some s \<Rightarrow> map_option (Pair dir) (mac_group s))
     in case after (''IpTransport:INFO:'' @ func) s of
          None \<Rightarrow> None
        | Some s \<Rightarrow> map_option (Pair (stamp now)) (case group ''INCOMING'' s of None \<Rightarrow> group ''OUTGOING'' s | Some r \<Rightarrow> Some r))"
proof -
  define group where "group = (\<lambda>dir s. case after (dir @ lit) s of None \<Rightarrow> None | Some s \<Rightarrow> map_option (Pair dir) (mac_group s))"
  define k where "k = (\<lambda>s. case after ('']IpTransport:INFO:'' @ func) s of
      None \<Rightarrow> None | Some s \<Rightarrow> (case group ''INCOMING'' s of None \<Rightarrow> group ''OUTGOING'' s | Some r \<Rightarrow> Some r))"
  have "link_pattern func lit (info_line now s) = lazy_match k (stamp now @ '']'' @ s)"
    unfolding link_pattern_def info_line_def k_def group_def Let_def by simp
  also have "\<dots> = map_option (Pair (stamp now)) (k ('']'' @ s))"
    by (rule lazy_match_info [OF _ assms]) (auto simp: k_def split: option.split_asm dest: after_hd)
  finally show ?thesis unfolding group_def [symmetric] by (simp add: k_def split: option.split)
qed

text \<open>What is read out of the report of a notification by the process with the text \<open>mac\<close>.\<close>

fun event_of :: "string \<Rightarrow> notification \<Rightarrow> event option" where
  "event_of mac (NewNeighbour _ p) = Some \<lparr>mac1 = mac, what = ''saw'', mac2 = py_upper (mac_text p)\<rparr>"
| "event_of mac (LostNeighbour _ p) = Some \<lparr>mac1 = mac, what = ''lost'', mac2 = py_upper (mac_text p)\<rparr>"
| "event_of mac (SessionOpened _ p d) =
     (if d = ALL_DIR then None else Some \<lparr>mac1 = mac, what = ''open '' @ link_direction_ToString d, mac2 = py_upper (mac_text p)\<rparr>)"
| "event_of mac (SessionLost _ p d) =
     (if d = ALL_DIR then None else Some \<lparr>mac1 = mac, what = ''close '' @ link_direction_ToString d, mac2 = py_upper (mac_text p)\<rparr>)"
| "event_of mac (SessionError _ _ _) = None"
| "event_of mac (MessageReceived _ _ _) = None"

lemma log_call_info:
  assumes "CHR 0x7B \<notin> set fmt" and "vprintf_text fmt args = Some s"
  shows "log_call now tag (Inr (func, fmt, args)) = Some (info_line now (tag @ '':INFO:'' @ func @ '':'' @ s) @ [newline])"
  using LOG_text [OF assms, of now tag "''INFO''" func] by (simp add: log_call_def info_line_def stamp_def)

lemma py_strip_info: "s \<noteq> [] \<Longrightarrow> \<not> py_space (last s) \<Longrightarrow> py_strip (info_line now s @ [newline]) = info_line now s"
  using py_strip_line [of "CHR ''[''" "stamp now @ '']'' @ s"] by (simp add: info_line_def py_space_def)

lemma last_mac_text: "mac_text p \<noteq> [] \<and> \<not> py_space (last (mac_text p))"
proof -
  have "mac_text p \<noteq> []" using length_mac_text [of p] by auto
  with mac_text_char [OF last_in_set [OF this]] show ?thesis by (auto simp: mac_char_def py_space_def Let_def)
qed

lemma contains_mac [simp]: "p \<noteq> [] \<Longrightarrow> \<not> mac_char (hd p) \<Longrightarrow> contains p (mac_text q) = False"
  by (simp add: contains_absent mac_text_absent)

text \<open>The event in the part of a line that follows its time.\<close>

definition pid_event :: "string \<Rightarrow> string \<Rightarrow> string \<Rightarrow> string \<Rightarrow> event option" where
  "pid_event mac w lit s =
     (case after (''IpTransport:INFO:'' @ lit) s of
        None \<Rightarrow> None
      | Some m \<Rightarrow> map_option (\<lambda>m. \<lparr>mac1 = mac, what = w, mac2 = py_upper m\<rparr>) (mac_group m))"

definition link_event :: "string \<Rightarrow> string \<Rightarrow> string \<Rightarrow> string \<Rightarrow> string \<Rightarrow> event option" where
  "link_event mac w func lit s =
     (case after (''IpTransport:INFO:'' @ func) s of
        None \<Rightarrow> None
      | Some s \<Rightarrow>
          (case after (''INCOMING'' @ lit) s of
             Some m \<Rightarrow> map_option (\<lambda>m. \<lparr>mac1 = mac, what = w @ ''INCOMING'', mac2 = py_upper m\<rparr>) (mac_group m)
           | None \<Rightarrow>
               (case after (''OUTGOING'' @ lit) s of
                  None \<Rightarrow> None
                | Some m \<Rightarrow> map_option (\<lambda>m. \<lparr>mac1 = mac, what = w @ ''OUTGOING'', mac2 = py_upper m\<rparr>) (mac_group m))))"

definition body_event :: "string \<Rightarrow> string \<Rightarrow> event option" where
  "body_event mac s =
     (if contains ''OnNeighborFound'' s then pid_event mac ''saw'' ''OnNeighborFound:Found new neighbor: '' s
      else if contains ''OnNeighborLost'' s then pid_event mac ''lost'' ''OnNeighborLost:Lost neighbor: '' s
      else if contains ''OnLinkEstablishing'' s then link_event mac ''open '' ''OnLinkEstablishing:'' '' session opened with peer '' s
      else if contains ''OnLinkClosed'' s then link_event mac ''close '' ''OnLinkClosed:'' '' session closed with peer '' s
      else None)"

lemma link_alternatives: "after (''INCOMING'' @ lit) s = Some m \<Longrightarrow> after (''OUTGOING'' @ lit) s = None"
  by (cases s) (auto split: if_split_asm)

lemma line_event_info:
  assumes "CHR '']'' \<notin> set s"
  shows "line_event mac (info_line now s) = map_option (Pair (stamp now)) (body_event mac s)"
proof -
  have c: "contains p (info_line now s) = contains p s" if "hd p = CHR ''O''" "p \<noteq> []" for p
    using that by (cases p) (simp_all add: contains_info)
  have pid: "map_option (\<lambda>(t, m). (t, \<lparr>mac1 = mac, what = w, mac2 = py_upper m\<rparr>)) (pid_pattern lit (info_line now s))
      = map_option (Pair (stamp now)) (pid_event mac w lit s)" for w lit
    by (simp add: pid_pattern_info [OF assms] pid_event_def option.map_comp comp_def split: option.split)
  have link: "map_option (\<lambda>(t, d, m). (t, \<lparr>mac1 = mac, what = w @ d, mac2 = py_upper m\<rparr>)) (link_pattern func lit (info_line now s))
      = map_option (Pair (stamp now)) (link_event mac w func lit s)" for w func lit
    by (auto simp: link_pattern_info [OF assms] link_event_def option.map_comp comp_def Let_def dest: link_alternatives [simplified] split: option.split)
  show ?thesis
    unfolding line_event_def body_event_def neighbor_found_pattern_def neighbor_lost_pattern_def
      link_establish_pattern_def link_closed_pattern_def pid link by (simp add: c)
qed

lemma upcall_line:
  obtains s where "log_call now ''IpTransport'' (upcall_log n) = Some (info_line now s @ [newline])"
    and "s \<noteq> []" and "\<not> py_space (last s)" and "CHR '']'' \<notin> set s" and "body_event mac s = event_of mac n"
proof (cases n)
  case (NewNeighbour t p)
  show thesis
    by (rule that [of "''IpTransport:INFO:OnNeighborFound:Found new neighbor: '' @ mac_text p"])
      (simp_all add: NewNeighbour PeerIdToString_eq log_call_info last_mac_text mac_text_absent mac_char_def body_event_def pid_event_def mac_group_text)
next
  case (SessionOpened t p d)
  show thesis
    by (rule that [of "''IpTransport:INFO:OnLinkEstablishing:'' @ link_direction_ToString d @ '' session opened with peer '' @ mac_text p"]; cases d)
      (simp_all add: SessionOpened PeerIdToString_eq log_call_info last_mac_text mac_text_absent mac_char_def body_event_def link_event_def mac_group_text)
next
  case (LostNeighbour t p)
  show thesis
    by (rule that [of "''IpTransport:INFO:OnNeighborLost:Lost neighbor: '' @ mac_text p"])
      (simp_all add: LostNeighbour PeerIdToString_eq log_call_info last_mac_text mac_text_absent mac_char_def body_event_def pid_event_def mac_group_text)
next
  case (SessionLost t p d)
  show thesis
    by (rule that [of "''IpTransport:INFO:OnLinkClosed:'' @ link_direction_ToString d @ '' session closed with peer '' @ mac_text p"]; cases d)
      (simp_all add: SessionLost PeerIdToString_eq log_call_info last_mac_text mac_text_absent mac_char_def body_event_def link_event_def mac_group_text)
next
  case (SessionError t p e)
  obtain x where e: "e = OpenSessionError x" by (cases e)
  show thesis
    by (rule that [of "''IpTransport:INFO:OnLinkEstablishingError:Failed to open '' @ link_direction_ToString (err_dir x) @ '' session with peer '' @ mac_text p"];
        cases "err_dir x")
      (simp_all add: SessionError e PeerIdToString_eq log_call_info last_mac_text mac_text_absent mac_char_def body_event_def link_event_def mac_group_text)
next
  case (MessageReceived t p m)
  show thesis
    by (rule that [of "''IpTransport:INFO:OnMessageReceived:Message received from peer '' @ mac_text p"])
      (simp_all add: MessageReceived PeerIdToString_eq log_call_info last_mac_text mac_text_absent mac_char_def body_event_def)
qed

text \<open>The other lines have no event.\<close>

lemma open_line:
  obtains s where "log_call now ''IpTransport'' (open_log p) = Some (info_line now s @ [newline])"
    and "s \<noteq> []" and "\<not> py_space (last s)" and "CHR '']'' \<notin> set s" and "body_event mac s = None"
  by (rule that [of "''IpTransport:INFO:OpenSession:Opening session to peer '' @ mac_text p"])
    (simp_all add: open_log_def PeerIdToString_eq log_call_info last_mac_text mac_text_absent mac_char_def body_event_def)

lemma int_text_char: "c \<in> set (int_text i) \<Longrightarrow> (of_char c :: nat) = 45 \<or> 48 \<le> (of_char c :: nat) \<and> (of_char c :: nat) \<le> 57"
  unfolding int_text_def by (rule precision_char)

lemma int_text_absent: "(of_char c :: nat) \<notin> {45} \<union> {48..57} \<Longrightarrow> c \<notin> set (int_text i)"
  using int_text_char [of c i] by auto

lemma last_int_text: "int_text i \<noteq> [] \<and> \<not> py_space (last (int_text i))"
proof -
  have "int_text i \<noteq> []" by (simp add: int_text_def precision_def Let_def decimal.simps [of "nat \<bar>i\<bar>"])
  with int_text_char [OF last_in_set [OF this]] show ?thesis by (auto simp: py_space_def Let_def)
qed

lemma manager_line:
  assumes "manager_log n = Some c"
  obtains s where "log_call now ''main'' c = Some (info_line now s @ [newline])"
    and "s \<noteq> []" and "\<not> py_space (last s)" and "CHR '']'' \<notin> set s" and "body_event mac s = None"
proof (cases n)
  case (NewNeighbour t p)
  show thesis
    by (rule that [of "''main:INFO:NotifyNewNeighbour:Found neighbour pid: '' @ mac_text p @ '' on tid: '' @ int_text (uint t)"];
      use assms in \<open>auto simp: NewNeighbour PeerIdToString_eq log_call_info last_mac_text mac_text_absent mac_char_def body_event_def contains_skip mac_text_absent contains_absent int_text_absent last_int_text\<close>)
next
  case (LostNeighbour t p)
  show thesis
    by (rule that [of "''main:INFO:NotifyLostNeighbour:Lost neighbour pid: '' @ mac_text p @ '' on tid: '' @ int_text (uint t)"];
      use assms in \<open>auto simp: LostNeighbour PeerIdToString_eq log_call_info last_mac_text mac_text_absent mac_char_def body_event_def contains_skip contains_absent int_text_absent last_int_text\<close>)
next
  case (SessionOpened t p d)
  show thesis
    by (rule that [of "''main:INFO:NotifySessionOpened:Got '' @ link_direction_ToString d @ '' connection to neighbour pid: '' @ mac_text p
          @ '' on tid: '' @ int_text (uint t)"]; cases d;
      use assms in \<open>auto simp: SessionOpened PeerIdToString_eq log_call_info last_mac_text mac_text_absent mac_char_def body_event_def contains_skip contains_absent int_text_absent last_int_text\<close>)
next
  case (SessionLost t p d)
  show thesis
    by (rule that [of "''main:INFO:NotifySessionLost:Lost '' @ link_direction_ToString d @ '' connection to neighbour pid: '' @ mac_text p
          @ '' on tid: '' @ int_text (uint t)"]; cases d;
      use assms in \<open>auto simp: SessionLost PeerIdToString_eq log_call_info last_mac_text mac_text_absent mac_char_def body_event_def contains_skip contains_absent int_text_absent last_int_text\<close>)
qed (use assms in simp_all)

text \<open>A call that is logged as a line in which \<open>e\<close> is found, whenever it is made.\<close>

definition logs_as :: "string \<Rightarrow> string \<times> (fault + string \<times> string \<times> printf_arg list) \<Rightarrow> event option \<Rightarrow> bool" where
  "logs_as mac call e \<longleftrightarrow> (\<forall>now. \<exists>l. log_call now (fst call) (snd call) = Some l
     \<and> line_event mac (py_strip l) = map_option (Pair (stamp now)) e)"

lemma logs_asI:
  assumes "\<And>now. \<exists>s. log_call now tag c = Some (info_line now s @ [newline])
    \<and> s \<noteq> [] \<and> \<not> py_space (last s) \<and> CHR '']'' \<notin> set s \<and> body_event mac s = e"
  shows "logs_as mac (tag, c) e"
  unfolding logs_as_def
proof
  fix now
  from assms [of now] obtain s where "log_call now tag c = Some (info_line now s @ [newline])"
    and "s \<noteq> []" "\<not> py_space (last s)" "CHR '']'' \<notin> set s" "body_event mac s = e" by blast
  then show "\<exists>l. log_call now (fst (tag, c)) (snd (tag, c)) = Some l \<and> line_event mac (py_strip l) = map_option (Pair (stamp now)) e"
    by (simp add: py_strip_info line_event_info)
qed

lemma report_logs:
  "list_all2 (logs_as mac) (report_calls n) (event_of mac n # replicate (length (report_calls n) - 1) None)"
proof -
  have up: "logs_as mac (''IpTransport'', upcall_log n) (event_of mac n)" by (rule logs_asI) (metis upcall_line)
  have mgr: "logs_as mac (''main'', c) None" if "manager_log n = Some c" for c by (rule logs_asI) (metis manager_line [OF that])
  have op: "logs_as mac (''IpTransport'', open_log p) None" for p by (rule logs_asI) (metis open_line)
  show ?thesis by (cases n) (use up mgr op in \<open>auto simp: report_calls_def\<close>)
qed

lemma log_events_calls:
  "list_all2 (logs_as mac) cs es \<Longrightarrow> \<exists>lines. map Some lines = map (\<lambda>(i, tag, c). log_call (clock i) tag c) (enumerate i cs)
     \<and> map snd (log_events (Some mac) lines) = List.map_filter id es"
proof (induction arbitrary: i rule: list_all2_induct)
  case (Cons c cs e es)
  from Cons.IH [of "Suc i"] obtain lines where lines: "map Some lines = map (\<lambda>(i, tag, c). log_call (clock i) tag c) (enumerate (Suc i) cs)"
    "map snd (log_events (Some mac) lines) = List.map_filter id es" by blast
  from Cons.hyps(1) obtain l where "log_call (clock i) (fst c) (snd c) = Some l"
    "line_event mac (py_strip l) = map_option (Pair (stamp (clock i))) e" unfolding logs_as_def by blast
  with lines show ?case by (intro exI [of _ "l # lines"]) (cases e; simp add: case_prod_beta map_filter_simps id_def)
qed (simp add: map_filter_simps)

lemma process_log_events:
  "\<exists>lines. map Some lines = process_log clock self ns
    \<and> map snd (log_events None lines) = List.map_filter (event_of (py_upper (mac_text self))) ns"
proof -
  let ?mac = "py_upper (mac_text self)"
  define es where "es = concat (map (\<lambda>n. event_of ?mac n # replicate (length (report_calls n) - 1) None) ns)"
  have none: "List.map_filter id (replicate k (None :: event option)) = []" for k by (induction k) (simp_all add: map_filter_simps)
  have app: "List.map_filter f (xs @ ys) = List.map_filter f xs @ List.map_filter f ys" for f :: "event option \<Rightarrow> event option" and xs ys
    by (simp add: List.map_filter_def)
  have "list_all2 (logs_as ?mac) (concat (map report_calls ns)) es"
    unfolding es_def
  proof (induction ns)
    case (Cons n ns)
    from list_all2_appendI [OF report_logs this] show ?case by simp
  qed simp
  from log_events_calls [OF this, of clock 1] obtain lines where lines: "map Some lines = map (\<lambda>(i, tag, c). log_call (clock i) tag c) (enumerate 1 (concat (map report_calls ns)))"
    and es: "map snd (log_events (Some ?mac) lines) = List.map_filter id es" by auto
  have "List.map_filter id es = List.map_filter (event_of ?mac) ns"
    unfolding es_def by (induction ns) (simp_all add: map_filter_simps app none [unfolded id_def] id_def split: option.split)
  moreover
  let ?s = "''IpTransport:INFO:Start:IP transport started with pid: '' @ mac_text self"
  have "log_call (clock 0) ''IpTransport'' (start_log self) = Some (info_line (clock 0) ?s @ [newline])"
    by (simp add: start_log_def PeerIdToString_eq log_call_info)
  moreover have "py_strip (info_line (clock 0) ?s @ [newline]) = info_line (clock 0) ?s" by (rule py_strip_info) (simp_all add: last_mac_text)
  moreover have "start_pattern (info_line (clock 0) ?s) = Some (stamp (clock 0), mac_text self)"
    unfolding start_pattern_def by (subst pid_pattern_info) (simp_all add: mac_text_absent mac_char_def mac_group_text)
  ultimately show ?thesis using lines es
    by (intro exI [of _ "(info_line (clock 0) ?s @ [newline]) # lines"]) (simp add: process_log_def)
qed


end
