(* ===== verification/Evaluation.thy ===== *)
theory Evaluation
  imports Emulator
begin

text \<open>
  \<open>get_experiment_stats\<close> of \<open>src/emulator/combine_logs.py\<close>: the bookkeeping of who sees whom and
  which sessions are open, and a way the reports of the transport make it fail. The search for
  the time at which the processes are connected is not modelled.
\<close>

section \<open>The evaluation of the events\<close>

text \<open>
  \<open>Graph\<close> and \<open>get_experiment_stats\<close>. \<open>mac_to_num\<close> is the dictionary from identifiers to the numbers
  of the logs, in the order of its insertions. Python's exceptions are values.
\<close>

datatype py_error = KeyError | ValueError

definition set_remove :: "'a \<Rightarrow> 'a set \<Rightarrow> py_error + 'a set" where
  "set_remove x S = (if x \<in> S then Inr (S - {x}) else Inl KeyError)"

definition list_remove :: "'a \<Rightarrow> 'a list \<Rightarrow> py_error + 'a list" where
  "list_remove x xs = (if x \<in> set xs then Inr (remove1 x xs) else Inl ValueError)"

type_synonym graph = "string \<rightharpoonup> string list"

definition add_vertex :: "string \<Rightarrow> graph \<Rightarrow> graph" where
  "add_vertex v g = (if g v = None then g(v \<mapsto> []) else g)"

definition add_edge :: "string \<Rightarrow> string \<Rightarrow> graph \<Rightarrow> graph" where
  "add_edge u v g =
     (let g = add_vertex v (add_vertex u g);
          g = g(u \<mapsto> the (g u) @ [v])
      in g(v \<mapsto> the (g v) @ [u]))"

definition erase_edge :: "string \<Rightarrow> string \<Rightarrow> graph \<Rightarrow> py_error + graph" where
  "erase_edge u v g =
     (let g = add_vertex v (add_vertex u g)
      in chain (list_remove v (the (g u))) (\<lambda>us.
           let g = g(u \<mapsto> us)
           in chain (list_remove u (the (g v))) (\<lambda>vs. Inr (g(v \<mapsto> vs)))))"

record stats =
  st_graph :: graph
  st_incoming :: "(string \<times> string) set"
  st_outgoing :: "(string \<times> string) set"
  st_visible :: "(string \<times> string) set"
  st_events :: "string list"

definition saw_step :: "string \<Rightarrow> string \<Rightarrow> stats \<Rightarrow> stats" where
  "saw_step a b s =
     (let s = s\<lparr>st_visible := insert (a, b) (st_visible s)\<rparr>
      in if (b, a) \<in> st_visible s then s\<lparr>st_events := st_events s @ [b @ '' <> '' @ a]\<rparr> else s)"

definition lost_step :: "string \<Rightarrow> string \<Rightarrow> stats \<Rightarrow> py_error + stats" where
  "lost_step a b s =
     chain (set_remove (a, b) (st_visible s)) (\<lambda>V.
       let s = s\<lparr>st_visible := V\<rparr>
       in Inr (if (b, a) \<in> st_visible s then s\<lparr>st_events := st_events s @ [b @ '' >< '' @ a]\<rparr> else s))"

definition open_in :: "string \<Rightarrow> string \<Rightarrow> stats \<Rightarrow> stats" where
  "open_in a b s =
     (let s = s\<lparr>st_incoming := insert (a, b) (st_incoming s)\<rparr>
      in if (b, a) \<in> st_outgoing s
         then s\<lparr>st_events := st_events s @ [b @ '' -> '' @ a], st_graph := add_edge a b (st_graph s)\<rparr> else s)"

definition open_out :: "string \<Rightarrow> string \<Rightarrow> stats \<Rightarrow> stats" where
  "open_out a b s =
     (let s = s\<lparr>st_outgoing := insert (a, b) (st_outgoing s)\<rparr>
      in if (b, a) \<in> st_incoming s
         then s\<lparr>st_events := st_events s @ [a @ '' -> '' @ b], st_graph := add_edge a b (st_graph s)\<rparr> else s)"

definition open_step :: "string \<Rightarrow> string \<Rightarrow> string \<Rightarrow> stats \<Rightarrow> stats" where
  "open_step w a b s =
     (let s = (if contains ''INCOMING'' w then open_in a b s else s)
      in if contains ''OUTGOING'' w then open_out a b s else s)"

definition close_in :: "string \<Rightarrow> string \<Rightarrow> stats \<Rightarrow> py_error + stats" where
  "close_in a b s =
     chain (set_remove (a, b) (st_incoming s)) (\<lambda>I.
       let s = s\<lparr>st_incoming := I\<rparr>
       in if (b, a) \<in> st_outgoing s
          then chain (erase_edge a b (st_graph s)) (\<lambda>g. Inr (s\<lparr>st_events := st_events s @ [b @ '' |> '' @ a], st_graph := g\<rparr>))
          else Inr s)"

definition close_out :: "string \<Rightarrow> string \<Rightarrow> stats \<Rightarrow> py_error + stats" where
  "close_out a b s =
     chain (set_remove (a, b) (st_outgoing s)) (\<lambda>O'.
       let s = s\<lparr>st_outgoing := O'\<rparr>
       in if (b, a) \<in> st_incoming s
          then chain (erase_edge a b (st_graph s)) (\<lambda>g. Inr (s\<lparr>st_events := st_events s @ [a @ '' |> '' @ b], st_graph := g\<rparr>))
          else Inr s)"

definition link_step :: "string \<Rightarrow> string \<Rightarrow> string \<Rightarrow> stats \<Rightarrow> py_error + stats" where
  "link_step w a b s =
     (let s = (if contains ''open'' w then open_step w a b s else s)
      in if contains ''close'' w then
           chain (if contains ''INCOMING'' w then close_in a b s else Inr s) (\<lambda>s.
             if contains ''OUTGOING'' w then close_out a b s else Inr s)
         else Inr s)"

text \<open>One round of the loop; its \<open>if\<close>s are not alternatives.\<close>

definition stats_step :: "(string \<times> string) list \<Rightarrow> event \<Rightarrow> stats \<Rightarrow> py_error + stats" where
  "stats_step mac_to_num e s =
     (case (map_of mac_to_num (mac1 e), map_of mac_to_num (mac2 e)) of
        (Some a, Some b) \<Rightarrow>
          chain (let s = (if contains ''saw'' (what e) then saw_step a b s else s)
                 in if contains ''lost'' (what e) then lost_step a b s else Inr s)
            (link_step (what e) a b)
      | _ \<Rightarrow> Inl KeyError)"

fun stats_steps :: "(string \<times> string) list \<Rightarrow> event list \<Rightarrow> stats \<Rightarrow> py_error + stats" where
  "stats_steps mac_to_num [] s = Inr s"
| "stats_steps mac_to_num (e # es) s = chain (stats_step mac_to_num e s) (stats_steps mac_to_num es)"

definition get_experiment_stats :: "(string \<times> string) list \<Rightarrow> event list \<Rightarrow> py_error + stats" where
  "get_experiment_stats mac_to_num es =
     stats_steps mac_to_num es
       \<lparr>st_graph = fold add_vertex (map snd mac_to_num) Map.empty, st_incoming = {}, st_outgoing = {}, st_visible = {}, st_events = []\<rparr>"

section \<open>When the evaluation stops\<close>

definition seen :: "string \<Rightarrow> string \<Rightarrow> stats \<Rightarrow> nat" where
  "seen a b s = of_bool ((a, b) \<in> st_visible s)"

lemma visible_open [simp]:
  "st_visible (open_in a b s) = st_visible s" "st_visible (open_out a b s) = st_visible s" "st_visible (open_step w a b s) = st_visible s"
proof -
  show i: "st_visible (open_in a b s) = st_visible s" and "st_visible (open_out a b s) = st_visible s" for s
    by (simp_all add: open_in_def open_out_def Let_def)
  then show "st_visible (open_step w a b s) = st_visible s" by (simp add: open_step_def Let_def)
qed

lemma visible_saw [simp]: "st_visible (saw_step a b s) = insert (a, b) (st_visible s)"
  by (simp add: saw_step_def Let_def)

definition keeps_visible :: "stats \<Rightarrow> py_error + stats \<Rightarrow> bool" where
  "keeps_visible s r \<longleftrightarrow> (case r of Inl _ \<Rightarrow> True | Inr s' \<Rightarrow> st_visible s' = st_visible s)"

lemma keeps_visible_simps [simp]: "keeps_visible s (Inl e)" "keeps_visible s (Inr s') \<longleftrightarrow> st_visible s' = st_visible s"
  by (simp_all add: keeps_visible_def)

lemma keeps_visible_chain: "keeps_visible s r \<Longrightarrow> (\<And>t. st_visible t = st_visible s \<Longrightarrow> keeps_visible s (f t)) \<Longrightarrow> keeps_visible s (chain r f)"
  by (cases r) simp_all

lemma keeps_visible_chain': "(\<And>t. keeps_visible s (f t)) \<Longrightarrow> keeps_visible s (chain r f)"
  by (cases r) simp_all

lemma keeps_visible_close: "keeps_visible s (close_in a b s)" "keeps_visible s (close_out a b s)"
  unfolding close_in_def close_out_def Let_def by (intro keeps_visible_chain'; simp add: keeps_visible_chain')+

lemma visible_link: "keeps_visible s (link_step w a b s)"
proof -
  have close: "keeps_visible s (close_in a b t)" "keeps_visible s (close_out a b t)" if "st_visible t = st_visible s" for t
    using keeps_visible_close [of t a b] that by (auto simp: keeps_visible_def split: sum.split_asm sum.split)
  show ?thesis unfolding link_step_def Let_def by (auto intro!: keeps_visible_chain close)
qed

lemma seen_saw: "seen a b (saw_step c d s) \<le> seen a b s + of_bool ((c, d) = (a, b))"
  by (auto simp: seen_def)

lemma seen_lost:
  assumes "lost_step c d s = Inr s'"
  shows "seen a b s' + of_bool ((c, d) = (a, b)) \<le> seen a b s"
proof -
  have "st_visible s' = st_visible s - {(c, d)} \<and> (c, d) \<in> st_visible s"
    using assms unfolding lost_step_def set_remove_def Let_def by (cases "(c, d) \<in> st_visible s") (simp_all split: if_split_asm, force+)
  then show ?thesis by (auto simp: seen_def)
qed

lemma seen_step:
  assumes "stats_step nums e s = Inr s'" and "inj_on (map_of nums) (dom (map_of nums))" and "map_of nums x = Some a" and "map_of nums y = Some b"
  shows "seen a b s' + of_bool (mac1 e = x \<and> mac2 e = y \<and> contains ''lost'' (what e))
    \<le> seen a b s + of_bool (mac1 e = x \<and> mac2 e = y \<and> contains ''saw'' (what e))"
proof -
  from assms(1) obtain c d where m: "map_of nums (mac1 e) = Some c" "map_of nums (mac2 e) = Some d"
    by (auto simp: stats_step_def split: option.split_asm)
  have eq: "u = v" if "map_of nums u = Some z" "map_of nums v = Some z" for u v z
    using inj_onD [OF assms(2), of u v] that by auto
  have hit: "(c, d) = (a, b) \<longleftrightarrow> mac1 e = x \<and> mac2 e = y" using m assms(3,4) eq by auto
  define t where "t = (if contains ''saw'' (what e) then saw_step c d s else s)"
  from assms(1) obtain u where u: "(if contains ''lost'' (what e) then lost_step c d t else Inr t) = Inr u"
    and "link_step (what e) c d u = Inr s'"
    unfolding stats_step_def m t_def Let_def by (auto simp: chain_eq_Inr simp del: split_paired_Ex)
  from visible_link [of u "what e" c d] this(2) have "seen a b s' = seen a b u" by (simp add: seen_def)
  moreover have "seen a b t \<le> seen a b s + of_bool ((c, d) = (a, b) \<and> contains ''saw'' (what e))"
    using seen_saw [of a b c d s] by (simp add: t_def)
  moreover have "seen a b u + of_bool ((c, d) = (a, b) \<and> contains ''lost'' (what e)) \<le> seen a b t"
    using u seen_lost [of c d t u a b] by (cases "contains ''lost'' (what e)") auto
  ultimately show ?thesis unfolding conj_assoc [symmetric] hit [symmetric] by linarith
qed

definition count_what :: "string \<Rightarrow> string \<Rightarrow> string \<Rightarrow> event list \<Rightarrow> nat" where
  "count_what w x y es = length (filter (\<lambda>e. mac1 e = x \<and> mac2 e = y \<and> contains w (what e)) es)"

lemma seen_steps:
  assumes "inj_on (map_of nums) (dom (map_of nums))" and "map_of nums x = Some a" and "map_of nums y = Some b"
  shows "stats_steps nums es s = Inr s' \<Longrightarrow> seen a b s' + count_what ''lost'' x y es \<le> seen a b s + count_what ''saw'' x y es"
proof (induction es arbitrary: s)
  case (Cons e es)
  then obtain t where t: "stats_step nums e s = Inr t" "stats_steps nums es t = Inr s'" by (auto simp: chain_eq_Inr)
  have "count_what w x y (e # es) = of_bool (mac1 e = x \<and> mac2 e = y \<and> contains w (what e)) + count_what w x y es" for w
    by (simp add: count_what_def)
  with Cons.IH [OF t(2)] seen_step [OF t(1) assms] show ?case by (simp only:)
qed (simp add: count_what_def)

lemma event_known: "stats_steps nums es s = Inr s' \<Longrightarrow> e \<in> set es \<Longrightarrow> map_of nums (mac1 e) \<noteq> None \<and> map_of nums (mac2 e) \<noteq> None"
  by (induction es arbitrary: s) (auto simp: chain_eq_Inr stats_step_def split: option.split_asm)

lemma lost_more_often:
  assumes "inj_on (map_of nums) (dom (map_of nums))" and "count_what ''saw'' x y es < count_what ''lost'' x y es"
  shows "\<exists>err. get_experiment_stats nums es = Inl err"
proof (cases "get_experiment_stats nums es")
  case (Inr s')
  from assms(2) have "filter (\<lambda>e. mac1 e = x \<and> mac2 e = y \<and> contains ''lost'' (what e)) es \<noteq> []" unfolding count_what_def by force
  then obtain e where e: "e \<in> set es" "mac1 e = x" "mac2 e = y" unfolding filter_empty_conv by blast
  from Inr e event_known obtain a b where "map_of nums x = Some a" "map_of nums y = Some b"
    unfolding get_experiment_stats_def by blast
  from seen_steps [OF assms(1) this] Inr [unfolded get_experiment_stats_def] assms(2) show ?thesis by (force simp: seen_def)
qed simp

text \<open>The text of an identifier in capitals still determines it.\<close>

lemma upper_inj: "py_upper (mac_text p) = py_upper (mac_text q) \<longleftrightarrow> p = q"
proof
  let ?up = "\<lambda>c. if 97 \<le> (of_char c :: nat) \<and> (of_char c :: nat) \<le> 122 then char_of ((of_char c :: nat) - 32) else c"
  have digit: "hex_digit b \<in> set hex_chars" if "unat b < 16" for b :: byte
    unfolding hex_digit_def by (rule nth_mem) (use that in \<open>simp add: hex_chars_def\<close>)
  then have "set (hex_setw2 b) \<subseteq> set hex_chars" for b by (simp add: hex_setw2_eq high_nibble_lt low_nibble_lt)
  then have chars: "set (mac_text r) \<subseteq> set ('':'' @ hex_chars)" for r by (cases r) (auto simp: mac_text_def)
  have "distinct (map ?up ('':'' @ hex_chars))" by code_simp
  then have "inj_on ?up (set ('':'' @ hex_chars))" by (simp only: distinct_map)
  then have inj: "inj_on ?up (set (mac_text p) \<union> set (mac_text q))" by (rule inj_on_subset) (use chars in blast)
  assume "py_upper (mac_text p) = py_upper (mac_text q)"
  then have "map ?up (mac_text p) = map ?up (mac_text q)" by (simp only: py_upper_def)
  from map_inj_on [OF this inj] have "MacStrToPeerId zero_pid (mac_text p) = MacStrToPeerId zero_pid (mac_text q)" by simp
  then show "p = q" by (simp add: MacStrToPeerId_mac_text)
qed simp

definition seen_reports :: "peer_id \<Rightarrow> notification list \<Rightarrow> nat" where
  "seen_reports p ns = length (filter (\<lambda>n. case n of NewNeighbour _ q \<Rightarrow> q = p | _ \<Rightarrow> False) ns)"

definition lost_reports :: "peer_id \<Rightarrow> notification list \<Rightarrow> nat" where
  "lost_reports p ns = length (filter (\<lambda>n. case n of LostNeighbour _ q \<Rightarrow> q = p | _ \<Rightarrow> False) ns)"

lemma contains_what [simp]:
  "contains ''saw'' ''saw''" "\<not> contains ''saw'' ''lost''" "contains ''lost'' ''lost''" "\<not> contains ''lost'' ''saw''"
  "\<not> contains ''saw'' (link_direction_ToString d)" "\<not> contains ''lost'' (link_direction_ToString d)"
  by (simp_all, (cases d; simp)+)

lemma count_reports:
  "count_what ''saw'' mac (py_upper (mac_text p)) (List.map_filter (event_of mac) ns) = seen_reports p ns"
  "count_what ''lost'' mac (py_upper (mac_text p)) (List.map_filter (event_of mac) ns) = lost_reports p ns"
proof (induction ns)
  case (Cons n ns)
  case 1
  from Cons.IH(1) show ?case
    by (cases n) (simp_all add: count_what_def seen_reports_def map_filter_simps upper_inj)
  case 2
  from Cons.IH(2) show ?case
    by (cases n) (simp_all add: count_what_def lost_reports_def map_filter_simps upper_inj)
qed (simp_all add: count_what_def seen_reports_def lost_reports_def map_filter_simps)

lemma count_what_own: "count_what w x y (filter (\<lambda>e. mac1 e = x) es) = count_what w x y es"
  unfolding count_what_def filter_filter by (rule arg_cong [where f = length], rule filter_cong) auto

lemma own_events: "filter (\<lambda>e. mac1 e = mac) (List.map_filter (event_of mac) ns) = List.map_filter (event_of mac) ns"
proof -
  have "mac1 e = mac" if "event_of mac n = Some e" for e n using that by (cases n) (auto split: if_split_asm)
  then show ?thesis by (induction ns) (auto simp: map_filter_simps split: option.split)
qed


text \<open>
  The run's peer: its interface disappears, which the process hears from the kernel, and then
  the timer 10 of the peer runs out.
\<close>

definition vanish :: "sim node \<Rightarrow> fault + sim node" where
  "vanish w = chain (run_event 5 sim_kernel (netlinkFd w, EPOLLIN) (set_kern ((io_kern (nd_io w))\<lparr>sim_ifs := []\<rparr>) w)) (\<lambda>(_, w).
     chain (run_event 5 sim_kernel (10, EPOLLIN) w) (\<lambda>(_, w). Inr w))"

definition vanished :: "sim node \<Rightarrow> bool" where
  "vanished w \<longleftrightarrow> (case vanish w of Inl _ \<Rightarrow> False | Inr w' \<Rightarrow>
     seen_reports other_peer (nd_trace w') = 1 \<and> lost_reports other_peer (nd_trace w') = 2)"

lemma vanished_holds: "run_holds (sim0\<lparr>sim_ifs := [sim_if]\<rparr>) run_acts vanished"
  by code_simp

lemma vanish_running:
  assumes "running_with 1000 5 sim_kernel (\<lambda>k. set (sim_open k)) sim_env self w" and "vanish w = Inr w'"
  shows "running 5 sim_kernel (\<lambda>k. set (sim_open k)) sim_env self w'"
proof -
  let ?w = "set_kern ((io_kern (nd_io w))\<lparr>sim_ifs := []\<rparr>) w"
  from assms(2) obtain s1 v s2 where e: "run_event 5 sim_kernel (netlinkFd w, EPOLLIN) ?w = Inr (s1, v)"
    "run_event 5 sim_kernel (10, EPOLLIN) v = Inr (s2, w')"
    by (auto simp: vanish_def chain_eq_Inr)
  have "running_with (4 * 5 + 4 + (4 * 5 + 4 + (4 * 5 + 4 + 0))) 5 sim_kernel (\<lambda>k. set (sim_open k)) sim_env self w"
    by (rule running_mono [OF assms(1)]) simp
  from running_step [OF this node_step.environment]
  have "running_with (4 * 5 + 4 + (4 * 5 + 4 + 0)) 5 sim_kernel (\<lambda>k. set (sim_open k)) sim_env self ?w" by (simp add: sim_env_def)
  from running_step [OF running_step [OF this node_step.event [OF e(1)]] node_step.event [OF e(2)]] show ?thesis .
qed

definition noon :: "nat \<Rightarrow> tm \<times> int" where
  "noon i = (\<lparr>tm_sec = int i, tm_min = 0, tm_hour = 12, tm_mday = 1, tm_mon = 0, tm_year = 125\<rparr>, 0)"


end
