(* ===== verification/Threads.thy ===== *)
theory Threads
  imports Sessions Faults
begin

text \<open>
  \<open>SendMessage\<close> as the thread of the transport manager runs it: the mutexes of
  \<open>ConnectionManager\<close> guard its three sections one by one, so that the epoll thread may run
  between them. Uninterrupted, the sections are the operation of \<open>ConnManager\<close>; interrupted
  anywhere and any number of times, they neither fault nor break the invariant of the process.
  The caller holds \<open>IpTransport::_connMutex\<close> for the whole call, so there is one caller at a time.
\<close>

section \<open>The sections\<close>

text \<open>
  \<open>Looking\<close>: before the section of \<open>connToFdMut_\<close>; \<open>Pushing\<close>: before the section of
  \<open>sendQueueMut_\<close>, with the descriptor found; \<open>Starting\<close>: before \<open>SendMessageFd\<close>.
\<close>

datatype send_call = Looking peer_id message | Pushing descr message | Starting descr | Returned

fun send_step :: "'k kernel \<Rightarrow> send_call \<Rightarrow> 'k node \<Rightarrow> fault + send_call \<times> 'k node" where
  "send_step K (Looking peer msg) w =
     (let fd = conn_for peer w in Inr (if fd = -1 then Returned else Pushing fd msg, w))"
| "send_step K (Pushing fd msg) w =
     (case sendQueues w fd of
        None \<Rightarrow> Inr (Returned, w)
      | Some q \<Rightarrow>
          let w = w\<lparr>sendQueues := (sendQueues w)(fd \<mapsto> q @ [msg])\<rparr>
          in Inr (if length (q @ [msg]) > 1 then Returned else Starting fd, w))"
| "send_step K (Starting fd) w = chain (SendMessageFd K fd w) (\<lambda>w. Inr (Returned, w))"
| "send_step K Returned w = Inr (Returned, w)"

text \<open>
  Run without interruption, the three sections are the operation \<open>SendMessage\<close> of the
  rest of this development, with its result, its effect and its faults.
\<close>

lemma sections_are_SendMessage:
  "chain (send_step K (Looking peer msg) w) (\<lambda>(c, w). chain (send_step K c w) (\<lambda>(c, w). send_step K c w))
    = chain (conn_SendMessage K peer msg w) (\<lambda>w. Inr (Returned, w))"
  by (simp add: conn_SendMessage_def Let_def split: option.split)

section \<open>Two threads\<close>

inductive interleaved ::
  "nat \<Rightarrow> 'k kernel \<Rightarrow> ('k \<Rightarrow> 'k \<Rightarrow> bool) \<Rightarrow> send_call \<times> 'k node \<Rightarrow> send_call \<times> 'k node \<Rightarrow> bool"
  for n :: nat and K :: "'k kernel" and env :: "'k \<Rightarrow> 'k \<Rightarrow> bool" where
  caller: "send_step K c w = Inr (c', w') \<Longrightarrow> interleaved n K env (c, w) (c', w')"
| epoll: "run_event n K e w = Inr (stop, w') \<Longrightarrow> interleaved n K env (c, w) (c, w')"
| world: "env (io_kern (nd_io w)) k' \<Longrightarrow> interleaved n K env (c, w) (c, set_kern k' w)"

inductive_cases interleavedE: "interleaved n K env (c, w) (c', w')"

context os_contract
begin

text \<open>After pushing onto an empty queue the connection is ready to send.\<close>

lemma push_ready:
  assumes inv: "ninv (Suc b) pend w" and q: "sendQueues w fd = Some []"
  shows "ninv (Suc b) pend (w\<lparr>sendQueues := (sendQueues w)(fd \<mapsto> [m])\<rparr>)"
    and "slot opn (w\<lparr>sendQueues := (sendQueues w)(fd \<mapsto> [m])\<rparr>) fd Sending"
proof -
  note D = conns_invD [OF node_invD(5) [OF inv]]
  from D(2) [of fd] q obtain c where act: "activeConns w fd = Some c" by auto
  show "ninv (Suc b) pend (w\<lparr>sendQueues := (sendQueues w)(fd \<mapsto> [m])\<rparr>)" by (rule ninv_queue [OF inv q]) simp
  from quiet_output [OF inv act] q have "entry (nd_io w) (fd, EPOLLOUT) = None" by simp
  with slot_reading [OF inv act] act show "slot opn (w\<lparr>sendQueues := (sendQueues w)(fd \<mapsto> [m])\<rparr>) fd Sending"
    by (simp add: slot_def system_fd_def)
qed

end


section \<open>A message nobody has started to send\<close>

text \<open>
  Between the second section and the third the message lies in the queue and no operation
  sends it; or the connection is gone, and the descriptor has no queue or that of a new one.
\<close>

definition unstarted :: "descr \<Rightarrow> message \<Rightarrow> 'k node \<Rightarrow> bool" where
  "unstarted fd m w \<longleftrightarrow> sendQueues w fd \<in> {None, Some []}
     \<or> sendQueues w fd = Some [m] \<and> activeConns w fd \<noteq> None \<and> entry (nd_io w) (fd, EPOLLOUT) = None"

named_theorems unstarted_intros \<open>operations that leave such a message alone\<close>

lemma unstarted_io:
  assumes "unstarted fd m w" and "conn_part w' = conn_part w"
    and "entry (nd_io w) (fd, EPOLLOUT) = None \<Longrightarrow> entry (nd_io w') (fd, EPOLLOUT) = None"
  shows "unstarted fd m w'"
  using assms by (auto simp: unstarted_def conn_part_def)

lemma no_output_sub: "entry io' \<subseteq>\<^sub>m entry io \<Longrightarrow> entry io x = None \<Longrightarrow> entry io' x = None"
  by (rule map_le_None)

lemma DeregisterAction_sub:
  assumes "DeregisterAction K t l k = (b, l', k')" and "find_keeper l fd ev = None"
  shows "find_keeper l' fd ev = None"
  using DeregisterAction_table [OF assms(1)] assms(2) by (auto split: option.splits)

lemma no_output_Deregister:
  assumes "entry io x = None"
  shows "entry (Deregister K a io) x = None"
proof -
  obtain b l k where d: "DeregisterAction K (afd_token (io_afds io a)) (io_loop io) (io_kern io) = (b, l, k)"
    by (metis prod_cases3)
  from DeregisterAction_sub [OF d] assms show ?thesis by (simp add: Deregister_def entry_def set_token_def set_loop_def d)
qed

lemma no_output_Release: "entry io x = None \<Longrightarrow> entry (snd (Release K a io)) x = None"
  by (auto simp: Release_def Let_def no_output_Deregister)

lemma no_output_register:
  assumes "RegisterAction K f dir cb t afd l k = Inr (r, l', k')" and "(f, dir_bits dir) \<noteq> (fd, ev)"
    and "find_keeper l fd ev = None"
  shows "find_keeper l' fd ev = None"
proof (cases r)
  case (Pair ok u)
  with assms show ?thesis
    by (cases ok) (auto dest: RegisterAction_False(1) simp: find_keeper_registered)
qed

lemma no_output_replace:
  assumes "ReplaceAction K t cb l k = Inr (ok, l', k')" and "find_keeper l fd ev = None"
  shows "find_keeper l' fd ev = None"
  using assms
  by (auto simp: ReplaceAction_def UtilizeCallback_def Let_def loop_simps split: option.split_asm if_split_asm)

lemma no_output_start:
  assumes "start_stage K a func data sz st io = Inr (c, io')" and "(Get a io, dir_bits (func_dir func)) \<noteq> (fd, ev)"
    and "entry io (fd, ev) = None"
  shows "entry io' (fd, ev) = None"
  using assms
  by (auto simp: start_stage_def ProcData_def stage_error_def Let_def chain_eq_Inr intro!: no_output_Deregister
      split: if_split_asm option.split_asm)
   (auto simp: entry_def set_token_def set_loop_def dest: no_output_register no_output_replace)

lemma unstarted_simps [simp]:
  "unstarted fd m (set_kern k w) = unstarted fd m w" "unstarted fd m (notify x w) = unstarted fd m w"
  "unstarted fd m (close_fd K f w) = unstarted fd m w"
  "unstarted fd m (w\<lparr>nd_io := snd (Create f (nd_io w))\<rparr>) = unstarted fd m w"
  by (simp_all add: unstarted_def close_fd_def Create_def)

lemma unstarted_Release:
  "unstarted fd m w \<Longrightarrow> io = snd (Release K a (nd_io w)) \<Longrightarrow> unstarted fd m (w\<lparr>nd_io := io\<rparr>)"
  by (erule unstarted_io) (simp_all add: no_output_Release)

lemma unstarted_recv:
  assumes "unstarted fd m w" and "start_io (RecvMessage K a r) w = Inr (c, w')"
  shows "unstarted fd m w'"
  using assms
  by (auto simp: start_io_def RecvMessage_def chain_eq_Inr EPOLLIN_def EPOLLOUT_def split: if_split_asm
      intro!: unstarted_io [OF assms(1)] elim!: no_output_start)

lemma unstarted_send:
  assumes "unstarted fd m w" and "start_io (SendMessage K a msg s u) w = Inr (c, w')"
    and "Get a (nd_io w) = fd \<Longrightarrow> sendQueues w fd \<in> {None, Some []}"
  shows "unstarted fd m w'"
proof (cases "Get a (nd_io w) = fd")
  case True
  have "conn_part w' = conn_part w" using assms(2) by (auto simp: start_io_def chain_eq_Inr)
  with assms(3) [OF True] show ?thesis by (auto simp: unstarted_def conn_part_def)
next
  case False
  with assms(2) show ?thesis
    by (auto simp: start_io_def SendMessage_def chain_eq_Inr Let_def split: if_split_asm
        intro!: unstarted_io [OF assms(1)] elim!: no_output_start)
qed

lemma DeregisterFd_sub:
  assumes "DeregisterFd K f l k = (b, l', k')" and "find_keeper l fd ev = None"
  shows "find_keeper l' fd ev = None"
  using DeregisterFd_table(1) [OF assms(1)] assms(2) by simp

lemma unstarted_CloseFD: "unstarted fd m w \<Longrightarrow> unstarted fd m (CloseFD K f w)"
proof -
  assume u: "unstarted fd m w"
  obtain b l k where d: "DeregisterFd K f (io_loop (nd_io w)) (io_kern (nd_io w)) = (b, l, k)" by (metis prod_cases3)
  let ?w = "close_fd K f (w\<lparr>nd_io := set_loop l k (nd_io w)\<rparr>)"
  have "unstarted fd m (w\<lparr>nd_io := set_loop l k (nd_io w)\<rparr>)"
    using DeregisterFd_sub [OF d, of fd EPOLLOUT] by (intro unstarted_io [OF u]) (simp_all add: entry_def set_loop_def)
  then have n: "unstarted fd m ?w" by simp
  then have "unstarted fd m (?w\<lparr>activeConns := map_erase f (activeConns ?w), connToFd := c, sendQueues := map_erase f (sendQueues ?w)\<rparr>)" for c
    by (auto simp: unstarted_def map_erase_def)
  with n show ?thesis by (simp add: CloseFD_def on_loop_def d OnLinkClosed_def Let_def split: option.split)
qed

lemma unstarted_CloseConn: "unstarted fd m w \<Longrightarrow> unstarted fd m (CloseConn K p d w)"
  by (simp add: CloseConn_def close_dir_def unstarted_CloseFD split: option.split)

lemma unstarted_activate: "unstarted fd m w \<Longrightarrow> unstarted fd m (activate f p d w)"
  by (auto simp: unstarted_def activate_def map_emplace_def split: option.splits)

lemma unstarted_abandon: "unstarted fd m w \<Longrightarrow> unstarted fd m (abandon K a w)"
  by (simp add: abandon_def on_io_Release unstarted_Release)

section \<open>The callbacks of a connection\<close>

lemma unstarted_read_err: "unstarted fd m w \<Longrightarrow> unstarted fd m (read_err_cb K a w)"
  by (simp add: read_err_cb_def on_io_Release unstarted_Release unstarted_CloseFD split: option.split)

lemma unstarted_ReadMessage: "ReadMessage K f w = Inr w' \<Longrightarrow> unstarted fd m w \<Longrightarrow> unstarted fd m w'"
  by (auto simp: ReadMessage_def on_io_Create chain_eq_Inr split: option.split_asm
      intro!: unstarted_read_err elim!: unstarted_recv [rotated])

lemma unstarted_read_cb: "read_cb K a res w = Inr w' \<Longrightarrow> unstarted fd m w \<Longrightarrow> unstarted fd m w'"
  by (auto simp: read_cb_def on_io_Release OnMessageReceived_def unstarted_read_err
      intro!: unstarted_Release elim!: unstarted_ReadMessage split: option.split_asm io_result.split_asm)

lemma unstarted_sent_pop:
  assumes "sent_pop a w = Inr (r, w')" and "unstarted fd m w"
  shows "unstarted fd m w'" and "r = Some True \<Longrightarrow> Get a (nd_io w') \<noteq> fd"
proof -
  from assms(1) have "r = None \<and> w' = w \<or> (\<exists>x q. sendQueues w (Get a (nd_io w)) = Some (x # q)
    \<and> r = Some (q \<noteq> []) \<and> w' = w\<lparr>sendQueues := (sendQueues w)(Get a (nd_io w) \<mapsto> q)\<rparr>)"
    by (simp add: sent_pop_def Let_def split: option.split_asm list.split_asm)
  then have "unstarted fd m w' \<and> (r = Some True \<longrightarrow> Get a (nd_io w') \<noteq> fd)"
    using assms(2) by (elim disjE exE conjE) (auto simp: unstarted_def)
  then show "unstarted fd m w'" and "r = Some True \<Longrightarrow> Get a (nd_io w') \<noteq> fd" by auto
qed

lemma unstarted_sending:
  "SendMessageFd K f w = Inr w' \<Longrightarrow> f \<noteq> fd \<Longrightarrow> unstarted fd m w \<Longrightarrow> unstarted fd m w'"
  "sent_cb K a w = Inr w' \<Longrightarrow> unstarted fd m w \<Longrightarrow> unstarted fd m w'"
proof (induction K f w and K a w arbitrary: w' and w' rule: SendMessageFd_sent_cb.induct)
  case (1 K f w)
  let ?a = "io_next (nd_io w)" and ?w = "w\<lparr>nd_io := snd (Create f (nd_io w))\<rparr>"
  show ?case
  proof (cases "take_front f ?w")
    case None
    with 1(2,4) show ?thesis by (auto simp: SendMessageFd.simps [of K f w] on_io_Create)
  next
    case (Some x)
    then obtain msg w1 where t: "take_front f ?w = Some (msg, w1)" by (cases x) auto
    with 1(2) obtain c w2 where s: "start_io (SendMessage K ?a msg SendNext True) w1 = Inr (c, w2)"
      and w': "(case c of None \<Rightarrow> Inr w2 | Some _ \<Rightarrow> sent_cb K ?a w2) = Inr w'"
      by (auto simp: SendMessageFd.simps [of K f w] on_io_Create chain_eq_Inr)
    from t have "w1 = ?w\<lparr>sendQueues := sendQueues w1\<rparr>" "sendQueues w1 fd = sendQueues w fd" "nd_io w1 = nd_io ?w"
      "activeConns w1 = activeConns w"
      using 1(3) by (auto simp: take_front_def split: option.split_asm list.split_asm)
    then have "unstarted fd m w1" and "Get ?a (nd_io w1) = f" using 1(4) by (auto simp: unstarted_def Create_def Get_def)
    with s 1(3) have "unstarted fd m w2" by (auto elim: unstarted_send)
    moreover have "unstarted fd m w'" if "c = Some u" for u
      by (rule 1(1) [OF refl on_io_Create [symmetric] t refl s refl that]) (use w' that \<open>unstarted fd m w2\<close> in simp_all)
    ultimately show ?thesis using w' by (cases c) auto
  qed
next
  case (2 K a w)
  from 2(2) obtain r w1 where s: "sent_pop a w = Inr (r, w1)"
    and w': "(case r of None \<Rightarrow> Inr w1 | Some rest \<Rightarrow>
      (if rest then SendMessageFd K (Get a (nd_io w1)) (w1\<lparr>nd_io := snd (Release K a (nd_io w1))\<rparr>)
       else Inr (w1\<lparr>nd_io := snd (Release K a (nd_io w1))\<rparr>))) = Inr w'"
    by (auto simp: sent_cb.simps [of K a w] on_io_Release chain_eq_Inr cong del: option.case_cong_weak)
  note P = unstarted_sent_pop [OF s 2(3)]
  have "unstarted fd m w'" if "r = Some True"
    using 2(1) [OF s refl that refl on_io_Release [symmetric] TrueI] w' that P unstarted_Release [OF P(1) refl] by simp
  with w' P(1) unstarted_Release [OF P(1) refl] show ?case by (auto split: option.split_asm if_split_asm)
qed

lemma unstarted_answer_sent: "answer_sent_cb K p a res w = Inr w' \<Longrightarrow> unstarted fd m w \<Longrightarrow> unstarted fd m w'"
  by (auto simp: answer_sent_cb_def on_io_Release OnLinkEstablishing_def Let_def unstarted_abandon
      intro!: unstarted_Release unstarted_activate elim!: unstarted_ReadMessage split: io_result.split_asm)

lemma unstarted_outgoing_answer: "outgoing_answer_cb K p a res w = Inr w' \<Longrightarrow> unstarted fd m w \<Longrightarrow> unstarted fd m w'"
  by (auto simp: outgoing_answer_cb_def on_io_Release OnLinkEstablishing_def Let_def unstarted_abandon chain_eq_Inr
      intro!: unstarted_Release unstarted_activate elim!: unstarted_ReadMessage
      split: io_result.split_asm option.split_asm if_split_asm)

lemma unstarted_notify_sent: "notify_sent_cb K p a res w = Inr w' \<Longrightarrow> unstarted fd m w \<Longrightarrow> unstarted fd m w'"
  by (auto simp: notify_sent_cb_def OnLinkEstablishingError_def chain_eq_Inr unstarted_abandon split: io_result.split_asm)
    (auto dest: unstarted_recv elim!: unstarted_outgoing_answer split: option.split_asm user_call.split_asm)

section \<open>Peers and new connections\<close>

lemma register_input_frame:
  assumes "register_input K f cb w = Inr (r, w')"
  shows "conn_part w' = conn_part w" and "io_afds (nd_io w') = io_afds (nd_io w)"
    and "entry (nd_io w) (fd, EPOLLOUT) = None \<Longrightarrow> entry (nd_io w') (fd, EPOLLOUT) = None"
proof -
  obtain l k where reg: "RegisterAction K f INPUT cb 0 None (io_loop (nd_io w)) (io_kern (nd_io w)) = Inr (r, l, k)"
    and w': "w' = w\<lparr>nd_io := set_loop l k (nd_io w)\<rparr>" using assms by (rule register_input_result)
  have "(f, dir_bits INPUT) \<noteq> (fd, EPOLLOUT)" by (simp add: EPOLLIN_def EPOLLOUT_def)
  from no_output_register [OF reg this] show "entry (nd_io w) (fd, EPOLLOUT) = None \<Longrightarrow> entry (nd_io w') (fd, EPOLLOUT) = None"
    by (simp add: w' entry_def)
qed (use assms in \<open>auto simp: register_input_def chain_eq_Inr\<close>)

lemma track_peer_frame:
  assumes "track_peer K s msg w = Inr (r, w')"
  shows "conn_part w' = conn_part w \<and> io_afds (nd_io w') = io_afds (nd_io w)
    \<and> (entry (nd_io w) (fd, EPOLLOUT) = None \<longrightarrow> entry (nd_io w') (fd, EPOLLOUT) = None)"
proof (cases "hm_id msg = nd_self w")
  case False
  obtain tfd m where ix: "map_index 0 (hm_id msg) (peerToFd w) = (tfd, m)" by force
  obtain fd' k where c: "create_timer K LOST_PEER_DELAY (io_kern (nd_io w)) = (fd', k)" by force
  note d = track_peer_def ix Let_def sys_def case_prod_beta c
  consider "tfd \<noteq> 0" | "tfd = 0" "fd' = -1" | "tfd = 0" "fd' \<noteq> -1" by blast
  then show ?thesis
  proof cases
    case 1
    with assms False show ?thesis by (auto simp: d conn_part_def)
  next
    case 2
    with assms False show ?thesis by (auto simp: d conn_part_def)
  next
    case go: 3
    obtain ok t v where reg: "register_input K fd' (PeerLostCb fd') (set_kern k (w\<lparr>peerToFd := m\<rparr>)) = Inr ((ok, t), v)"
      using register_input_no_fault by (metis surj_pair)
    note F = register_input_frame(1,2) [OF reg] register_input_frame(3) [OF reg, of fd]
    from F assms False go show ?thesis
      by (cases ok) (auto simp: d reg conn_part_def split: option.split_asm)
  qed
qed (use assms in \<open>simp add: track_peer_def\<close>)

lemma unstarted_track: "track_peer K s msg w = Inr (r, w') \<Longrightarrow> unstarted fd m w \<Longrightarrow> unstarted fd m w'"
  by (erule unstarted_io) (auto dest: track_peer_frame [of _ _ _ _ _ _ fd])

lemma unstarted_free: "unstarted fd m w \<Longrightarrow> activeConns w fd = None \<Longrightarrow> sendQueues w fd \<in> {None, Some []}"
  by (auto simp: unstarted_def)

lemma unstarted_incoming_hello:
  assumes run: "incoming_hello_cb K a res w = Inr w'" and u: "unstarted fd m w" and free: "activeConns w (Get a (nd_io w)) = None"
  shows "unstarted fd m w'"
proof -
  obtain addr k where g: "get_fd_addr K (Get a (nd_io w)) (io_kern (nd_io w)) = (addr, k)" by force
  let ?w = "set_kern k w"
  have "unstarted fd m w'" if tr: "track_peer K s hello ?w = Inr (r, w2)"
    and st: "start_io (SendMessage K a (Serialize (make_hello (nd_self w2) Answer)) (IncomingAnswerSent p) False) w2 = Inr (c, w3)"
    and fin: "(case c of Some (SendResolved _ res) \<Rightarrow> answer_sent_cb K p a res w3 | _ \<Rightarrow> Inr w3) = Inr w'" for s hello r w2 c w3 p
  proof -
    from u have "unstarted fd m w2" by (intro unstarted_track [OF tr]) simp
    moreover from track_peer_frame [OF tr] free have "activeConns w2 (Get a (nd_io w2)) = None"
      by (simp add: conn_part_def Get_def)
    ultimately have "unstarted fd m w3" using unstarted_free by (intro unstarted_send [OF _ st]) fastforce+
    with fin show ?thesis by (auto elim: unstarted_answer_sent split: option.split_asm user_call.split_asm)
  qed
  note exchanged = this
  have ab: "unstarted fd m (abandon K a w)" "unstarted fd m (abandon K a ?w)" using u by (simp_all add: unstarted_abandon)
  show ?thesis
  proof (cases "w' = abandon K a w \<or> w' = abandon K a ?w")
    case True
    with ab show ?thesis by auto
  next
    case False
    have s: "sys (get_fd_addr K (Get a (nd_io w))) w = (addr, ?w)" by (simp add: sys_def g)
    with run False obtain msg hello sa where "res = Ok msg" "Deserialize msg = Some hello" "hm_type hello = Notify" "addr = Some sa"
      by (auto simp: incoming_hello_cb_def split: io_result.split_asm option.split_asm if_split_asm)
    with run s show ?thesis
      by (simp add: incoming_hello_cb_def chain_eq_Inr Let_def) (blast intro: exchanged)
  qed
qed

lemma Get_start: "start_io (RecvMessage K a r) w = Inr (c, w') \<Longrightarrow> Get b (nd_io w') = Get b (nd_io w) \<and> conn_part w' = conn_part w"
  by (auto simp: start_io_def chain_eq_Inr Get_RecvMessage)

lemma unstarted_incoming_exchange:
  assumes "IncomingHelloExchange K f w = Inr w'" and "unstarted fd m w" and "activeConns w f = None"
  shows "unstarted fd m w'"
proof -
  let ?a = "io_next (nd_io w)" and ?w = "w\<lparr>nd_io := snd (Create f (nd_io w))\<rparr>"
  from assms(1) obtain c w2 where st: "start_io (RecvMessage K ?a IncomingHello) ?w = Inr (c, w2)"
    and fin: "(case c of Some (RecvResolved _ res) \<Rightarrow> incoming_hello_cb K ?a res w2 | _ \<Rightarrow> Inr w2) = Inr w'"
    by (auto simp: IncomingHelloExchange_def on_io_Create chain_eq_Inr)
  have "unstarted fd m w2" by (rule unstarted_recv [OF _ st]) (use assms(2) in simp)
  moreover have "activeConns w2 (Get ?a (nd_io w2)) = None"
    using Get_start [OF st, of ?a] assms(3) by (simp add: conn_part_def Create_def Get_def)
  ultimately show ?thesis using fin by (auto elim!: unstarted_incoming_hello split: option.split_asm user_call.split_asm)
qed

lemma unstarted_outgoing_exchange:
  assumes "OutgoingHelloExchange K f p w = Inr w'" and "unstarted fd m w" and "activeConns w f = None"
  shows "unstarted fd m w'"
proof -
  let ?a = "io_next (nd_io w)" and ?w = "w\<lparr>nd_io := snd (Create f (nd_io w))\<rparr>"
  from assms(1) obtain c w2 where
    st: "start_io (SendMessage K ?a (Serialize (make_hello (nd_self w) Notify)) (OutgoingNotifySent p) False) ?w = Inr (c, w2)"
    and fin: "(case c of Some (SendResolved _ res) \<Rightarrow> notify_sent_cb K p ?a res w2 | _ \<Rightarrow> Inr w2) = Inr w'"
    by (auto simp: OutgoingHelloExchange_def on_io_Create chain_eq_Inr)
  have "unstarted fd m w2"
  proof (rule unstarted_send [OF _ st])
    show "unstarted fd m ?w" using assms(2) by simp
    show "sendQueues ?w fd \<in> {None, Some []}" if "Get ?a (nd_io ?w) = fd"
      using that assms unstarted_free by (simp add: Create_def Get_def)
  qed
  with fin show ?thesis by (auto elim: unstarted_notify_sent split: option.split_asm user_call.split_asm)
qed

lemma unstarted_hello [simp]: "unstarted fd m (SendBroadcastHello K w) = unstarted fd m w"
  by (simp add: SendBroadcastHello_def sys_def case_prod_beta Let_def)

lemma unstarted_timer: "unstarted fd m w \<Longrightarrow> unstarted fd m (broadcast_timer_cb K w)"
  by (simp add: broadcast_timer_cb_def sys_def case_prod_beta Let_def)

lemma unstarted_PeerLost:
  assumes "unstarted fd m w"
  shows "unstarted fd m (ProcessPeerLost K f w)"
proof (cases "fdToPeer w f")
  case (Some x)
  let ?d = "DeregisterAction K (snd x) (io_loop (nd_io w)) (k_read K f (io_kern (nd_io w)))"
  obtain b l k where d: "?d = (b, l, k)" by (metis prod_cases3)
  show ?thesis
    by (rule unstarted_io [OF assms])
      (use DeregisterAction_sub [OF d] Some in \<open>auto simp: ProcessPeerLost_def on_loop_def OnNeighborLost_def d
        conn_part_def entry_def Let_def case_prod_beta\<close>)
qed (use assms in \<open>simp add: ProcessPeerLost_def\<close>)

lemma unstarted_lost_interfaces:
  "lost_interfaces K ifs xs w = (r, w') \<Longrightarrow> unstarted fd m w \<Longrightarrow> unstarted fd m w'"
proof (induction xs arbitrary: w r)
  case (Cons x xs)
  have "unstarted fd m (OnNeighborLost (snd x) (CloseSession K (snd x) ALL_DIR w))"
    using Cons.prems(2) by (simp add: OnNeighborLost_def CloseSession_def unstarted_CloseConn)
  with Cons show ?case by (cases x) (auto simp: Let_def split: if_split_asm prod.split_asm)
qed simp

lemma unstarted_NetworkUpdate: "ProcessNetworkUpdate n K w = Inr w' \<Longrightarrow> unstarted fd m w \<Longrightarrow> unstarted fd m w'"
proof -
  assume run: "ProcessNetworkUpdate n K w = Inr w'" and u: "unstarted fd m w"
  have "unstarted fd m (snd (lost_interfaces K ifs xs v))" if "unstarted fd m v" for ifs xs v
    by (rule unstarted_lost_interfaces [OF prod.collapse [symmetric]]) (rule that)
  then have "unstarted fd m (snd (lost_interfaces K ifs xs v)\<lparr>ifToPeer := y\<rparr>)" if "unstarted fd m v" for ifs xs v y
    using that by (simp add: unstarted_def)
  with run u show ?thesis
    by (auto simp: ProcessNetworkUpdate_def sys_def case_prod_beta Let_def chain_eq_Inr)
qed

context os_contract
begin

text \<open>A descriptor that is not open carries no connection.\<close>

lemma closed_free: "ninv b pend w \<Longrightarrow> fd \<notin> opn (io_kern (nd_io w)) \<Longrightarrow> activeConns w fd = None"
  by (cases "activeConns w fd") (auto dest: conns_invD(4) [OF node_invD(5)])

lemma unstarted_AcceptConn:
  assumes inv: "ninv b pend w" and run: "AcceptConn K w = Inr w'" and u: "unstarted fd m w"
  shows "unstarted fd m w'"
proof -
  obtain addr c k where acc: "accept_client K (listenFd w) (io_kern (nd_io w)) = ((addr, c), k)"
    by (metis prod_cases3 surj_pair)
  have "activeConns w c = None" if "c \<noteq> -1" using accept_kern(2) [OF acc] that closed_free [OF inv] by simp
  with run u show ?thesis
    by (auto simp: AcceptConn_def sys_def acc elim!: unstarted_incoming_exchange split: if_split_asm)
qed

lemma unstarted_EstablishConnection:
  assumes inv: "ninv b pend w" and run: "EstablishConnection K p w = Inr w'" and u: "unstarted fd m w"
  shows "unstarted fd m w'"
proof -
  obtain f k where c: "create_tcp_socket K 0 (io_kern (nd_io w)) = (f, k)" by force
  have "activeConns w f = None" if "f \<noteq> -1" using create_tcp_no_leak [OF fds c] that closed_free [OF inv] by simp
  with run u show ?thesis
    by (auto simp: EstablishConnection_def OnLinkEstablishingError_def sys_def c case_prod_beta Let_def
        elim!: unstarted_outgoing_exchange split: option.split_asm if_split_asm)
qed

lemma unstarted_ProcessHello:
  assumes inv: "ninv (Suc b) pend w" and run: "ProcessHello K s msg nn w = Inr w'" and u: "unstarted fd m w"
  shows "unstarted fd m w'"
proof -
  from run obtain r w1 where t: "track_peer K s msg w = Inr (r, w1)"
    and w': "(if r \<and> nn then OnNeighborFound K (hm_id msg) w1 else Inr w1) = Inr w'"
    by (auto simp: ProcessHello_def chain_eq_Inr)
  have n: "ninv b pend (notify x (SendBroadcastHello K w1))" if "x = NewNeighbour GetTransportId (hm_id msg)" for x
    unfolding that by (rule ninv_notify [OF ninv_SendBroadcastHello [OF ninv_track_peer(1) [OF inv t]]]) simp_all
  from unstarted_track [OF t u] w' show ?thesis
    by (auto simp: OnNeighborFound_def NotifyNewNeighbour_def mgr_OpenSession_def OpenSession_def
        elim!: unstarted_EstablishConnection [OF n [OF refl]] split: if_split_asm)
qed

lemma unstarted_ReceiveBroadcasts:
  "ninv (2 * n + b) pend w \<Longrightarrow> ReceiveBroadcasts n K w = Inr w' \<Longrightarrow> unstarted fd m w \<Longrightarrow> unstarted fd m w'"
proof (induction n arbitrary: w)
  case (Suc n)
  obtain r k where r: "read_broadcast K (broadcastFd w) (io_kern (nd_io w)) = (r, k)" by force
  let ?w = "set_kern k w"
  have n: "ninv (2 * Suc n + b) pend ?w"
    by (intro ninv_kern(1) [OF Suc.prems(1)] kern_ok_same) (simp_all add: read_broadcast_same [OF r])
  then have n': "ninv (Suc (Suc (2 * n + b))) pend ?w" by simp
  have skip: "unstarted fd m w'" if "ReceiveBroadcasts n K ?w = Inr w'"
    by (rule Suc.IH [OF node_inv_mono [OF n] that]) (use Suc.prems(3) in simp_all)
  have deliver: "unstarted fd m w'" if h: "chain (ProcessHello K a msg True ?w) (\<lambda>w. ReceiveBroadcasts n K w) = Inr w'" for a msg
  proof -
    from h obtain w1 where 1: "ProcessHello K a msg True ?w = Inr w1" and 2: "ReceiveBroadcasts n K w1 = Inr w'"
      by (auto simp: chain_eq_Inr)
    have "unstarted fd m w1" by (rule unstarted_ProcessHello [OF n' 1]) (use Suc.prems(3) in simp)
    with Suc.IH [OF ninv_ProcessHello [OF n' 1] 2] show ?thesis .
  qed
  from Suc.prems(2,3) show ?case
    by (auto simp: sys_def r intro: skip deliver split: option.split_asm prod.split_asm if_split_asm)
qed simp

section \<open>Events\<close>

lemma unstarted_perform:
  assumes "perform K a c w = Inr w'" and "ready opn w a (goal_role (call_goal c))" and "unstarted fd m w"
  shows "unstarted fd m w'"
proof (cases c)
  case (RecvResolved r res)
  with assms show ?thesis
    by (cases r) (auto simp: perform_def ready_def slot_def elim: unstarted_incoming_hello unstarted_outgoing_answer unstarted_read_cb)
next
  case (SendResolved s res)
  with assms show ?thesis
    by (cases s) (auto simp: perform_def elim: unstarted_answer_sent unstarted_notify_sent unstarted_sending(2))
qed

lemma unstarted_run_keeper:
  assumes inv: "ninv (2 * n + 2 + b) pend w" and e: "entry (nd_io w) (f, ev) = Some cb"
    and run: "run_keeper n K (f, ev) cb res w = Inr w'" and u: "unstarted fd m w"
  shows "unstarted fd m w'"
proof (cases cb)
  case (ProcCb p)
  note e = e [unfolded ProcCb]
  from run obtain c io where r: "run_proc K (f, ev) p res (nd_io w) = Inr (c, io)"
    and w': "(case c of None \<Rightarrow> Inr (w\<lparr>nd_io := io\<rparr>) | Some c \<Rightarrow> perform K (pc_self p) c (w\<lparr>nd_io := io\<rparr>)) = Inr w'"
    by (auto simp: run_keeper_def ProcCb chain_eq_Inr Let_def)
  from run_proc_inv [OF node_invD(1) [OF inv] e r] have ran: "ran (nd_io w) f ev p c io" ..
  have "entry io (fd, EPOLLOUT) = None" if "entry (nd_io w) (fd, EPOLLOUT) = None"
    using ran that e by (cases c) (auto simp: ran_def intro: no_output_sub)
  then have u': "unstarted fd m (w\<lparr>nd_io := io\<rparr>)" by (intro unstarted_io [OF u]) simp_all
  show ?thesis
  proof (cases c)
    case (Some x)
    with w' unstarted_perform [OF _ run_proc_node(2) [OF inv e r Some] u'] show ?thesis by simp
  qed (use w' u' in simp)
next
  case BroadcastCb
  have "ninv (2 * n + b) pend w" by (rule node_inv_mono [OF inv]) simp
  from unstarted_ReceiveBroadcasts [OF this] run u BroadcastCb show ?thesis by (simp add: run_keeper_def)
qed (use run u in \<open>auto simp: run_keeper_def unstarted_timer unstarted_PeerLost
    elim: unstarted_AcceptConn [OF inv] unstarted_NetworkUpdate\<close>)

lemma unstarted_run_callbacks:
  "ninv ((2 * n + 2) * length evs + b) pend w \<Longrightarrow> run_callbacks n K f evs w = Inr w' \<Longrightarrow> unstarted fd m w
     \<Longrightarrow> unstarted fd m w'"
proof (induction evs arbitrary: w)
  case (Cons x evs)
  obtain ev res where x: "x = (ev, res)" by (cases x)
  with Cons.prems(2) obtain w1 where r: "RunCallback n K f ev res w = Inr w1" and rest: "run_callbacks n K f evs w1 = Inr w'"
    by (auto simp: chain_eq_Inr)
  have n: "ninv (2 * n + 2 + ((2 * n + 2) * length evs + b)) pend w" by (rule node_inv_mono [OF Cons.prems(1)]) simp
  have "unstarted fd m w1"
  proof (cases "find_keeper (io_loop (nd_io w)) f ev")
    case None
    with r Cons.prems(3) show ?thesis by (simp add: RunCallback_def)
  next
    case (Some keeper)
    with r have "run_keeper n K (f, ev) (ck_callback keeper) res w = Inr w1" by (simp add: RunCallback_def)
    with unstarted_run_keeper [OF n _ this Cons.prems(3)] Some show ?thesis by (simp add: entry_def)
  qed
  with Cons.IH [OF RunCallback_keeps [OF n r] rest] show ?case .
qed simp

lemma unstarted_run_event:
  assumes inv: "ninv (4 * n + 4 + b) pend w" and run: "run_event n K e w = Inr (stop, w')" and u: "unstarted fd m w"
  shows "unstarted fd m w'"
proof -
  let ?l = "io_loop (nd_io w)" and ?w = "set_kern (k_read K (fst e) (io_kern (nd_io w))) w"
  have inv0: "ninv b pend w" by (rule node_inv_mono [OF inv]) simp
  have rd: "ninv b pend ?w" by (intro ninv_kern(1) [OF inv0] kern_ok_same) simp_all
  show ?thesis
  proof (cases "fst e = stopEvent ?l \<or> fst e = removeEvent ?l")
    case True
    from io_inv_drain [OF node_invD(1) [OF rd], of K] u
    have "unstarted fd m (?w\<lparr>nd_io := drain K (nd_io ?w)\<rparr>)" by (auto elim!: unstarted_io intro: no_output_sub)
    with u True run show ?thesis by (auto simp: run_event_def Let_def split: if_splits)
  next
    case False
    with run have r: "run_callbacks n K (fst e) (callbacks_of_event (snd e)) w = Inr w'"
      by (auto simp: run_event_def Let_def chain_eq_Inr)
    have "(2 * n + 2) * length (callbacks_of_event (snd e)) + b \<le> (2 * n + 2) * 2 + b"
      by (intro add_right_mono mult_left_mono length_callbacks_of_event) simp
    also have "\<dots> = 4 * n + 4 + b" by simp
    finally have "ninv ((2 * n + 2) * length (callbacks_of_event (snd e)) + b) pend w" by (rule node_inv_mono [OF inv])
    from unstarted_run_callbacks [OF this r u] show ?thesis .
  qed
qed

end
section \<open>Any interleaving is safe\<close>

fun call_ready :: "message \<Rightarrow> send_call \<Rightarrow> 'k node \<Rightarrow> bool" where
  "call_ready m (Looking peer msg) w \<longleftrightarrow> msg = m"
| "call_ready m (Pushing fd msg) w \<longleftrightarrow> msg = m"
| "call_ready m (Starting fd) w \<longleftrightarrow> unstarted fd m w"
| "call_ready m Returned w \<longleftrightarrow> True"

lemma transports_send_step: "send_step K c w = Inr (c', w') \<Longrightarrow> nd_transports w' = nd_transports w"
  by (cases c) (auto simp: Let_def chain_eq_Inr dest!: transports.frame_sending(1) split: option.split_asm)

context os_contract
begin

lemma ninv_Create: "ninv b pend w \<Longrightarrow> ninv b pend (w\<lparr>nd_io := snd (Create fd (nd_io w))\<rparr>)"
proof -
  assume inv: "ninv b pend w"
  note I = node_invD [OF inv]
  note C = io_inv_Create [OF I(1), of fd]
  have "watched interest (snd (Create fd (nd_io w)))" using I(2) by (simp add: Create_def)
  from node_inv_shrink [OF inv _ _ C(1) this] show ?thesis by (simp add: C(2))
qed

lemma starting_safe:
  assumes inv: "ninv (Suc b) pend w" and u: "unstarted fd m w" and m: "\<not> empty_message m"
  shows "\<exists>w'. SendMessageFd K fd w = Inr w' \<and> ninv b pend w'"
proof (cases "sendQueues w fd \<in> {None, Some []}")
  case True
  then have "SendMessageFd K fd w = Inr (w\<lparr>nd_io := snd (Create fd (nd_io w))\<rparr>)"
    by (auto simp: SendMessageFd.simps [of K fd w] on_io_Create take_front_def)
  with node_inv_mono [OF ninv_Create [OF inv], of b] show ?thesis by simp
next
  case False
  with u have q: "sendQueues w fd = Some [m]" and act: "activeConns w fd \<noteq> None"
    and none: "entry (nd_io w) (fd, EPOLLOUT) = None" by (auto simp: unstarted_def)
  from act slot_reading [OF inv] q none have slot: "slot opn w fd Sending" by (auto simp: slot_def)
  show ?thesis
  proof (cases "SendMessageFd K fd w")
    case (Inl f)
    with SendMessageFd_fault [OF inv slot] q m show ?thesis by (simp add: empty_queued_def)
  next
    case (Inr w')
    with ninv_SendMessageFd [OF inv slot] show ?thesis by simp
  qed
qed

lemma send_step_safe:
  assumes inv: "ninv (Suc b) pend w" and c: "call_ready m c w" and m: "\<not> empty_message m"
  shows "\<exists>c' w'. send_step K c w = Inr (c', w') \<and> ninv b pend w' \<and> call_ready m c' w'"
proof -
  have inv0: "ninv b pend w" by (rule node_inv_mono [OF inv]) simp
  show ?thesis
  proof (cases c)
    case (Pushing fd msg)
    show ?thesis
    proof (cases "sendQueues w fd")
      case (Some q)
      let ?w = "w\<lparr>sendQueues := (sendQueues w)(fd \<mapsto> q @ [m])\<rparr>"
      have n: "ninv b pend ?w" by (rule ninv_queue [OF inv0 Some]) simp
      from conns_invD(2) [OF node_invD(5) [OF inv], of fd] Some obtain x where act: "activeConns w fd = Some x" by auto
      have "unstarted fd m ?w" if "q = []" using quiet_output [OF inv act] act Some that by (simp add: unstarted_def)
      with n Some c Pushing show ?thesis by (auto simp: Let_def)
    qed (use inv0 Pushing in simp)
  next
    case (Starting fd)
    with c obtain w' where "SendMessageFd K fd w = Inr w'" "ninv b pend w'" using starting_safe [OF inv _ m, of fd] by auto
    with Starting show ?thesis by simp
  qed (use inv0 c in \<open>auto simp: Let_def\<close>)
qed

lemma interleaved_safe:
  assumes env: "\<And>k k'. env k k' \<Longrightarrow> interest k' = interest k \<and> opn k' = opn k" and m: "\<not> empty_message m"
    and inv: "ninv (4 * n + 4 + b) pend w" and c: "call_ready m c w" and step: "interleaved n K env (c, w) (c', w')"
  shows "ninv b pend w' \<and> call_ready m c' w' \<and> nd_transports w' = nd_transports w"
proof -
  have inv1: "ninv (Suc b) pend w" and inv0: "ninv b pend w" by (rule node_inv_mono [OF inv]; simp)+
  from step show ?thesis
  proof cases
    case caller
    with send_step_safe [OF inv1 c m] transports_send_step show ?thesis by auto
  next
    case (epoll e stop)
    from c epoll(1) have "call_ready m c' w'"
      by (cases c) (auto intro: unstarted_run_event [OF inv epoll(2)])
    with ninv_run_event [OF inv epoll(2)] transports.frame_node_step [OF TrueI node_step.event [OF epoll(2)]] show ?thesis by simp
  next
    case (world k')
    with env [OF world(3)] have "ninv b pend w'" by (auto intro!: ninv_kern(1) [OF inv0] kern_ok_same)
    moreover have "call_ready m c' w'" using c world by (cases c) auto
    ultimately show ?thesis using world by simp
  qed
qed

lemma interleaved_steps_safe:
  assumes env: "\<And>k k'. env k k' \<Longrightarrow> interest k' = interest k \<and> opn k' = opn k" and m: "\<not> empty_message m"
  shows "(interleaved n K env ^^ i) (c, w) (c', w') \<Longrightarrow> ninv (i * (4 * n + 4) + b) pend w \<Longrightarrow> call_ready m c w \<Longrightarrow>
    ninv b pend w' \<and> call_ready m c' w' \<and> nd_transports w' = nd_transports w"
proof (induction i arbitrary: b c' w')
  case (Suc i)
  from Suc.prems(1) obtain d v where 1: "(interleaved n K env ^^ i) (c, w) (d, v)" and 2: "interleaved n K env (d, v) (c', w')"
    by (auto elim: relpowp_Suc_E)
  have "ninv (i * (4 * n + 4) + (4 * n + 4 + b)) pend w" by (rule node_inv_mono [OF Suc.prems(2)]) simp
  from Suc.IH [OF 1 this Suc.prems(3)] interleaved_safe [OF env m _ _ 2] show ?case by auto
qed auto

end


definition dropped :: "sim node \<Rightarrow> bool" where
  "dropped w \<longleftrightarrow> conn_for other_peer w = 11
     \<and> (case run_event 5 sim_kernel (11, EPOLLERR) w of Inl _ \<Rightarrow> False | Inr (_, w') \<Rightarrow> sendQueues w' 11 = None)"

lemma dropped_holds: "run_holds (sim0\<lparr>sim_ifs := [sim_if]\<rparr>) run_acts dropped"
  by code_simp


end
