(* ===== verification/Races.thy ===== *)
theory Races
  imports Threads Incoming
begin

text \<open>
  What the sections of \<open>SendMessage\<close> do not protect: the descriptor found in the first may
  belong to another peer in the second.
\<close>


text \<open>
  The run of \<open>Incoming\<close>, after which descriptor 10 is the connection to \<open>other_peer\<close>; then that
  connection fails, and a third peer connects and gets descriptor 10.
\<close>

definition third_peer :: peer_id where
  "third_peer = PeerId 0 0 0 0 0 3"

definition reuse_acts :: "act list" where
  "reuse_acts = [Event 10 (EPOLLIN OR EPOLLERR), Event 9 EPOLLIN,
     Bytes 10 (frame (Serialize (make_hello third_peer Notify))), Event 10 EPOLLIN, Event 10 EPOLLIN,
     Event 10 EPOLLOUT, Event 10 EPOLLOUT]"

definition reused :: "sim node \<Rightarrow> sim node \<Rightarrow> bool" where
  "reused w w' \<longleftrightarrow> activeConns w' 10 = Some (third_peer, INCOMING) \<and> sendQueues w' 10 = Some []
     \<and> removeEvent (io_loop (nd_io w')) \<noteq> 10 \<and> stopEvent (io_loop (nd_io w')) \<noteq> 10
     \<and> sim_wire (io_kern (nd_io w')) 10
         = sim_wire (io_kern (nd_io w)) 10 @ frame (Serialize (make_hello (PeerId 0 0 0 0 0 1) Answer))"

definition reuse_summary :: "sim node \<Rightarrow> bool" where
  "reuse_summary w \<longleftrightarrow> conn_for other_peer w = 10 \<and> activeConns w 10 = Some (other_peer, INCOMING)
     \<and> (case play reuse_acts w of Inl _ \<Rightarrow> False | Inr w' \<Rightarrow> reused w w')"

lemma reuse_summary_holds: "run_holds incoming_kernel (incoming_acts @ [Event 10 EPOLLIN, Event 10 EPOLLOUT, Event 10 EPOLLOUT]) reuse_summary"
  by code_simp

lemma play_interleaved:
  "play as w = Inr w' \<Longrightarrow> (interleaved 5 sim_kernel sim_env)\<^sup>*\<^sup>* (c, w) (c, w')"
proof (induction as w rule: play.induct)
  case (2 fd ev as w)
  from 2(2) obtain b w1 where r: "run_event 5 sim_kernel (fd, ev) w = Inr (b, w1)" "play as w1 = Inr w'"
    by (auto simp: chain_eq_Inr)
  from converse_rtranclp_into_rtranclp [where r = "interleaved 5 sim_kernel sim_env", OF interleaved.epoll [OF r(1)] 2(1) [OF r(1) refl r(2)]]
  show ?case .
next
  case (3 d a as w)
  let ?k = "(io_kern (nd_io w))\<lparr>sim_datagrams := sim_datagrams (io_kern (nd_io w))
       @ [(d, \<lparr>sin_family = AF_INET, sin_port = 0, sin_addr = a\<rparr>)]\<rparr>"
  have "interleaved 5 sim_kernel sim_env (c, w) (c, set_kern ?k w)" by (rule interleaved.world) (simp add: sim_env_def)
  moreover have "(interleaved 5 sim_kernel sim_env)\<^sup>*\<^sup>* (c, set_kern ?k w) (c, w')" by (rule 3(1)) (use 3(2) in simp)
  ultimately show ?case by (rule converse_rtranclp_into_rtranclp)
next
  case (4 fd bs as w)
  let ?k = "(io_kern (nd_io w))\<lparr>sim_input := (sim_input (io_kern (nd_io w)))
       (fd := sim_input (io_kern (nd_io w)) fd @ [bs])\<rparr>"
  have "interleaved 5 sim_kernel sim_env (c, w) (c, set_kern ?k w)" by (rule interleaved.world) (simp add: sim_env_def)
  moreover have "(interleaved 5 sim_kernel sim_env)\<^sup>*\<^sup>* (c, set_kern ?k w) (c, w')" by (rule 4(1)) (use 4(2) in simp)
  ultimately show ?case by (rule converse_rtranclp_into_rtranclp)
qed simp

lemma running_play:
  assumes "running_with (24 * length as + b) 5 sim_kernel opn sim_env self w" and "play as w = Inr w'"
  shows "running_with b 5 sim_kernel opn sim_env self w'"
proof -
  from assms(1) obtain k w0 i where "0 \<in> opn k"
    and st: "IpTransport_Start sim_kernel (RegisterTransport (new_node self k)) = Inr (True, w0)"
    and steps: "node_steps 5 sim_kernel sim_env w0 i w" and i: "i * 24 + (24 * length as + b) + 5 < 2 ^ 64"
    by (auto simp: running_with_def)
  from play_steps [OF steps assms(2)] have "node_steps 5 sim_kernel sim_env w0 (i + length as) w'" .
  moreover from i have "(i + length as) * (4 * 5 + 4) + b + 5 < 2 ^ 64" by (simp add: algebra_simps)
  ultimately show ?thesis using \<open>0 \<in> opn k\<close> st unfolding running_with_def by blast
qed


section \<open>Closing\<close>

text \<open>
  One direction of \<open>CloseConn\<close>, by its critical sections: \<open>Finding\<close> looks the descriptor up;
  the others are those of \<open>CloseFD\<close>. \<open>Erasing\<close> is before the section of \<open>activeConnsMut_\<close>,
  \<open>Forgetting\<close> before that of \<open>connToFdMut_\<close>, \<open>Dropping\<close> before that of \<open>sendQueueMut_\<close>.
\<close>

datatype close_call = Finding conn | Deregistering descr | Closing descr | Erasing descr
  | Forgetting descr conn | Dropping descr conn | Reporting conn | Closed

fun close_step :: "'k kernel \<Rightarrow> close_call \<Rightarrow> 'k node \<Rightarrow> close_call \<times> 'k node" where
  "close_step K (Finding conn) w = (case connToFd w conn of None \<Rightarrow> Closed | Some fd \<Rightarrow> Deregistering fd, w)"
| "close_step K (Deregistering fd) w = (Closing fd, snd (on_loop (DeregisterFd K fd) w))"
| "close_step K (Closing fd) w = (Erasing fd, close_fd K fd w)"
| "close_step K (Erasing fd) w =
     (case activeConns w fd of
        None \<Rightarrow> (Closed, w)
      | Some conn \<Rightarrow> (Forgetting fd conn, w\<lparr>activeConns := map_erase fd (activeConns w)\<rparr>))"
| "close_step K (Forgetting fd conn) w = (Dropping fd conn, w\<lparr>connToFd := map_erase conn (connToFd w)\<rparr>)"
| "close_step K (Dropping fd conn) w = (Reporting conn, w\<lparr>sendQueues := map_erase fd (sendQueues w)\<rparr>)"
| "close_step K (Reporting conn) w = (Closed, OnLinkClosed (fst conn) (snd conn) w)"
| "close_step K Closed w = (Closed, w)"

fun close_steps :: "nat \<Rightarrow> 'k kernel \<Rightarrow> close_call \<times> 'k node \<Rightarrow> close_call \<times> 'k node" where
  "close_steps 0 K s = s"
| "close_steps (Suc i) K s = close_steps i K (close_step K (fst s) (snd s))"

text \<open>Run without interruption, the sections are one direction of \<open>CloseConn\<close>.\<close>

lemma close_sections_CloseFD: "close_steps 6 K (Deregistering fd, w) = (Closed, CloseFD K fd w)"
  by (simp add: numeral_eq_Suc CloseFD_def case_prod_beta Let_def OnLinkClosed_def notify_def split: option.split)

lemma close_sections_CloseConn:
  assumes "dir = INCOMING \<or> dir = OUTGOING"
  shows "close_steps 7 K (Finding (peer, dir), w) = (Closed, CloseConn K peer dir w)"
proof -
  have "close_steps 7 K (Finding (peer, dir), w) = close_steps 6 K (close_step K (Finding (peer, dir)) w)"
    by (simp add: numeral_eq_Suc)
  moreover have "close_steps 6 K (Closed, w) = (Closed, w)" by (simp add: numeral_eq_Suc)
  moreover have "CloseConn K peer dir w = (case connToFd w (peer, dir) of None \<Rightarrow> w | Some fd \<Rightarrow> CloseFD K fd w)"
    using assms by (auto simp: CloseConn_def close_dir_def)
  ultimately show ?thesis by (simp add: close_sections_CloseFD split: option.split)
qed

text \<open>
  A connection accepted on the descriptor after it was closed and made active before the
  tables are cleaned: it is reported opened, the cleaning takes its entries, and what is left
  of it is an entry that leads to a descriptor that is not active: messages to it are dropped.
\<close>

lemma closing_takes_new_connection:
  assumes "activeConns w fd = Some old" and "connToFd w (q, d) = None" and "old \<noteq> (q, d)"
    and "close_steps 4 K (Erasing fd, activate fd q d w) = (c, w')"
  shows "c = Closed" and "connToFd w' (q, d) = Some fd" and "activeConns w' fd = None" and "sendQueues w' fd = None"
  using assms by (auto simp: numeral_eq_Suc activate_def OnLinkClosed_def notify_def map_emplace_def map_erase_def)

text \<open>
  The lookup is as stale here as in \<open>SendMessage\<close>: closing the session with one peer may close
  the session of another.
\<close>

lemma stale_descriptor_closes:
  assumes "activeConns w fd = Some (q, d)"
  shows "\<exists>w'. close_steps 6 K (Deregistering fd, w) = (Closed, w')
    \<and> nd_trace w' = nd_trace w @ [SessionLost GetTransportId q d] \<and> activeConns w' fd = None"
  using assms by (auto simp: close_sections_CloseFD CloseFD_def on_loop_def OnLinkClosed_def case_prod_beta Let_def map_erase_def)

lemma stale_descriptor_closes_run:
  "\<exists>w v w'. activeConns w 10 = Some (other_peer, INCOMING) \<and> (interleaved 5 sim_kernel sim_env)\<^sup>*\<^sup>* (Returned, w) (Returned, v)
     \<and> close_steps 6 sim_kernel (Deregistering 10, v) = (Closed, w')
     \<and> nd_trace w' = nd_trace v @ [SessionLost GetTransportId third_peer INCOMING]"
proof (rule run_holdsD [OF reuse_summary_holds])
  fix w assume r: "running_with 1000 5 sim_kernel (\<lambda>k. set (sim_open k)) sim_env (PeerId 0 0 0 0 0 1) w" and S: "reuse_summary w"
  then obtain v where v: "play reuse_acts w = Inr v" and a: "activeConns v 10 = Some (third_peer, INCOMING)"
    by (auto simp: reuse_summary_def reused_def split: sum.splits)
  from stale_descriptor_closes [OF a, of sim_kernel] S play_interleaved [OF v, of Returned] show ?thesis
    by (auto simp: reuse_summary_def)
qed (simp_all add: incoming_kernel_def sim0_def incoming_acts_def)

end
