(* ===== verification/Program.thy ===== *)
theory Program
  imports Faults
begin

text \<open>
  \<open>main.cpp\<close> around the transport: the two arguments, read by \<open>atoi\<close>, and what a process
  started with them is. The \<open>Init\<close> functions of the two managers only store their arguments
  after a null check.
\<close>

section \<open>Arguments\<close>

text \<open>
  \<open>atoi\<close> of the C library: white space, a sign, digits up to the first other character.
  \<open>None\<close> where the value does not fit in an \<open>int\<close>: the standard leaves that undefined.
\<close>

definition is_space :: "char \<Rightarrow> bool" where
  "is_space c \<longleftrightarrow> (of_char c :: nat) = 32 \<or> 9 \<le> (of_char c :: nat) \<and> (of_char c :: nat) \<le> 13"

definition is_digit :: "char \<Rightarrow> bool" where
  "is_digit c \<longleftrightarrow> 48 \<le> (of_char c :: nat) \<and> (of_char c :: nat) \<le> 57"

fun digits_value :: "int \<Rightarrow> string \<Rightarrow> int" where
  "digits_value acc [] = acc"
| "digits_value acc (c # cs) = (if is_digit c then digits_value (10 * acc + (of_char c - 48)) cs else acc)"

definition atoi :: "string \<Rightarrow> int option" where
  "atoi s =
     (let s = dropWhile is_space s;
          v = (case s of
                 [] \<Rightarrow> 0
               | c # cs \<Rightarrow> if c = CHR ''-'' then - digits_value 0 cs
                            else if c = CHR ''+'' then digits_value 0 cs
                            else digits_value 0 (c # cs))
      in if - (2 ^ 31) \<le> v \<and> v < 2 ^ 31 then Some v else None)"

text \<open>
  \<open>main\<close> up to \<open>sleep\<close>: its exit status if it returns at once, or the seconds it sleeps and
  the started process. \<open>None\<close> is undefined behaviour. The first of \<open>argv\<close> is the program.
\<close>

definition main_prog :: "'k kernel \<Rightarrow> string list \<Rightarrow> 'k \<Rightarrow> (fault + int + int \<times> 'k node) option" where
  "main_prog K argv k =
     (if length argv \<noteq> 3 then Some (Inr (Inl 1))
      else case atoi (argv ! 1) of None \<Rightarrow> None
      | Some i \<Rightarrow>
          (case atoi (argv ! 2) of None \<Rightarrow> None
           | Some duration \<Rightarrow> Some (chain (main_init K i k) (\<lambda>w. Inr (Inr (duration, w))))))"

section \<open>Numbers and identifiers\<close>

text \<open>A text that does not start like a number is zero: the process is peer 0.\<close>

lemma atoi_no_number: "\<not> is_space c \<Longrightarrow> \<not> is_digit c \<Longrightarrow> c \<notin> {CHR ''-'', CHR ''+''} \<Longrightarrow> atoi (c # s) = Some 0"
  by (simp add: atoi_def)

lemma main_self_eq: "main_self i = main_self j \<longleftrightarrow> i mod 256 = j mod 256"
proof -
  have "(of_int i :: 8 word) = of_int j \<longleftrightarrow> i mod 2 ^ 8 = j mod 2 ^ 8"
    by (simp add: word_of_int_eq_iff take_bit_eq_mod)
  then show ?thesis by (simp add: main_self_def)
qed

text \<open>
  Only the last byte of a process's number is in its identifier: processes whose numbers
  agree modulo 256 are the same peer, and ignore each other's hellos as their own.
\<close>

lemma equal_numbers_ignored:
  assumes "i mod 256 = j mod 256" and "nd_self w = main_self i"
  shows "main_self j = main_self i \<and> ProcessHello K a (make_hello (main_self j) t) nn w = Inr w"
proof -
  from assms(1) have "main_self j = main_self i" by (simp add: main_self_eq)
  moreover from this assms(2) have "track_peer K a (make_hello (main_self j) t) w = Inr (False, w)"
    by (simp add: track_peer_def make_hello_def)
  ultimately show ?thesis by (simp add: ProcessHello_def)
qed

theorem equal_numbers_ignored_witness:
  "atoi ''257'' = Some 257 \<and> atoi '' 1x'' = Some 1
     \<and> ProcessHello sim_kernel 5 (make_hello (main_self 257) Notify) True (new_node (main_self 1) sim0)
         = Inr (new_node (main_self 1) sim0)"
proof -
  have "atoi ''257'' = Some 257 \<and> atoi '' 1x'' = Some 1" by code_simp
  moreover have "(1 :: int) mod 256 = 257 mod 256" "nd_self (new_node (main_self 1) sim0) = main_self 1"
    by (simp_all add: new_node_def)
  ultimately show ?thesis using equal_numbers_ignored [of 1 257 "new_node (main_self 1) sim0" sim_kernel 5 Notify True] by blast
qed

end
